(* ===== verification/Prelude.thy ===== *)
theory Prelude
  imports Complex_Main "HOL-Library.Word" "HOL-Library.Sublist"
begin

text \<open>
  The vocabulary the component theories share.  A fallible C++ function returns a sum, with
  \<open>Inl\<close> for the exception it throws.  \<open>string\<close> is the byte sequence of a
  \<open>std::string\<close>.  The operations of the C++ standard library that the sources call on
  strings and integers are defined here: \<open>std::string::find\<close>, \<open>starts_with\<close>,
  \<open>std::tolower\<close> and \<open>std::isalnum\<close> (in the "C" locale, which is the one a program
  starts in), the decimal rendering of an integer, and the conversions to the fixed-width signed
  types, which C++20 defines to be modulo the width.
\<close>

section \<open>Exceptions\<close>

definition and_then :: "'e + 'a \<Rightarrow> ('a \<Rightarrow> 'e + 'b) \<Rightarrow> 'e + 'b" where
  "and_then r f = (case r of Inl e \<Rightarrow> Inl e | Inr x \<Rightarrow> f x)"

lemma and_then_simps [simp]:
  "and_then (Inl e) f = Inl e"
  "and_then (Inr x) f = f x"
  by (simp_all add: and_then_def)

lemma and_then_Inr_iff: "and_then r f = Inr y \<longleftrightarrow> (\<exists>x. r = Inr x \<and> f x = Inr y)"
  by (cases r) auto

text \<open>A range-for whose body may throw: the elements are handled in order, the first exception
  leaves the loop.\<close>

fun map_throw :: "('a \<Rightarrow> 'e + 'b) \<Rightarrow> 'a list \<Rightarrow> 'e + 'b list" where
  "map_throw f [] = Inr []"
| "map_throw f (x # xs) = and_then (f x) (\<lambda>y. and_then (map_throw f xs) (\<lambda>ys. Inr (y # ys)))"

lemma map_throw_Inr_iff: "map_throw f xs = Inr ys \<longleftrightarrow> list_all2 (\<lambda>x y. f x = Inr y) xs ys"
  by (induction xs arbitrary: ys) (auto simp: and_then_Inr_iff list_all2_Cons1)

text \<open>Operations on a state that may throw, one after the other.\<close>

definition seq :: "('s \<Rightarrow> ('e + 'a) \<times> 's) \<Rightarrow> ('a \<Rightarrow> 's \<Rightarrow> ('e + 'b) \<times> 's) \<Rightarrow> 's \<Rightarrow> ('e + 'b) \<times> 's" where
  "seq f k s = (case f s of (Inl e, s1) \<Rightarrow> (Inl e, s1) | (Inr x, s1) \<Rightarrow> k x s1)"

definition pure :: "'e + 'a \<Rightarrow> 's \<Rightarrow> ('e + 'a) \<times> 's" where
  "pure r s = (r, s)"

lemma seq_Inr: "seq f k s = (Inr y, s') \<longleftrightarrow> (\<exists>x s1. f s = (Inr x, s1) \<and> k x s1 = (Inr y, s'))"
  by (auto simp: seq_def split: prod.splits sum.splits)

section \<open>Strings\<close>

definition starts_with :: "string \<Rightarrow> string \<Rightarrow> bool" where
  "starts_with s p \<longleftrightarrow> take (length p) s = p"

text \<open>\<open>find_sub p s\<close> is \<open>s.find(p)\<close>: the index of the first occurrence, \<open>None\<close>
  for \<open>npos\<close>.\<close>

fun find_sub :: "string \<Rightarrow> string \<Rightarrow> nat option" where
  "find_sub p [] = (if p = [] then Some 0 else None)"
| "find_sub p (c # s) = (if starts_with (c # s) p then Some 0 else map_option Suc (find_sub p s))"

definition contains :: "string \<Rightarrow> string \<Rightarrow> bool" where
  "contains s p \<longleftrightarrow> find_sub p s \<noteq> None"

lemma starts_with_prefix: "starts_with s p \<longleftrightarrow> prefix p s"
  by (metis append_eq_conv_conj append_take_drop_id prefix_def starts_with_def)

lemma contains_iff: "contains s p \<longleftrightarrow> (\<exists>a b. s = a @ p @ b)"
proof (induction s)
  case (Cons c s)
  show ?case (is "?l = ?r")
  proof
    assume ?l
    then have "prefix p (c # s) \<or> contains s p"
      by (auto simp: contains_def starts_with_prefix split: if_splits)
    then show ?r
    proof
      assume "prefix p (c # s)"
      then show ?r by (metis append_Nil prefix_def)
    next
      assume "contains s p"
      with Cons.IH obtain a b where "s = a @ p @ b" by blast
      then have "c # s = (c # a) @ p @ b" by simp
      then show ?r by blast
    qed
  next
    assume ?r
    then obtain a b where ab: "c # s = a @ p @ b" by blast
    show ?l
    proof (cases a)
      case Nil
      with ab have "prefix p (c # s)" by (simp add: prefix_def)
      then show ?l by (simp add: contains_def starts_with_prefix)
    next
      case (Cons x a')
      with ab have "\<exists>a b. s = a @ p @ b" by auto
      with Cons.IH show ?l by (auto simp: contains_def)
    qed
  qed
qed (simp add: contains_def)

lemma find_sub_append:
  "\<not> contains (a @ butlast p) p \<Longrightarrow> p \<noteq> [] \<Longrightarrow> find_sub p (a @ p @ b) = Some (length a)"
proof (induction a)
  case Nil
  then show ?case by (cases p) (auto simp: starts_with_def)
next
  case (Cons c a)
  have "\<not> contains (a @ butlast p) p"
    using Cons.prems(1) unfolding contains_iff by (metis Cons_eq_appendI append_Cons)
  with Cons have IH: "find_sub p (a @ p @ b) = Some (length a)" by blast
  have "\<not> starts_with (c # a @ p @ b) p"
  proof
    assume "starts_with (c # a @ p @ b) p"
    then have "take (length p) (c # a @ p @ b) = p" by (simp add: starts_with_def)
    moreover have "take (length p) (c # a @ p @ b) = take (length p) (c # a @ butlast p)"
      using Cons.prems(2) by (cases p rule: rev_cases) simp_all
    ultimately have "starts_with ((c # a) @ butlast p) p" by (simp add: starts_with_def)
    then have "contains ((c # a) @ butlast p) p"
      by (simp add: contains_def)
    with Cons.prems(1) show False by simp
  qed
  with IH show ?case by simp
qed

definition char_code :: "char \<Rightarrow> int" where
  "char_code c = of_char c"

definition isdigit :: "char \<Rightarrow> bool" where
  "isdigit c \<longleftrightarrow> 48 \<le> char_code c \<and> char_code c \<le> 57"

definition isupper :: "char \<Rightarrow> bool" where
  "isupper c \<longleftrightarrow> 65 \<le> char_code c \<and> char_code c \<le> 90"

definition islower :: "char \<Rightarrow> bool" where
  "islower c \<longleftrightarrow> 97 \<le> char_code c \<and> char_code c \<le> 122"

definition isalnum :: "char \<Rightarrow> bool" where
  "isalnum c \<longleftrightarrow> isdigit c \<or> isupper c \<or> islower c"

definition isspace :: "char \<Rightarrow> bool" where
  "isspace c \<longleftrightarrow> char_code c = 32 \<or> (9 \<le> char_code c \<and> char_code c \<le> 13)"

definition tolower :: "char \<Rightarrow> char" where
  "tolower c = (if isupper c then char_of (char_code c + 32) else c)"

lemma char_code_range: "0 \<le> char_code c \<and> char_code c < 256"
  using of_char_mod_256[of c, where 'a = int] pos_mod_bound[of 256 "of_char c"]
    pos_mod_sign[of 256 "of_char c"]
  by (simp add: char_code_def)

section \<open>Integers\<close>

definition digit_char :: "int \<Rightarrow> char" where
  "digit_char d = char_of (48 + d)"

function dec_digits :: "int \<Rightarrow> string" where
  "dec_digits n = (if n < 10 then [digit_char n] else dec_digits (n div 10) @ [digit_char (n mod 10)])"
  by pat_completeness auto
termination
  by (relation "measure nat") auto

declare dec_digits.simps [simp del]

text \<open>The decimal rendering of an integer: \<open>fmt::format("{}", i)\<close> and
  \<open>std::to_string(i)\<close>.\<close>

definition fmt_int :: "int \<Rightarrow> string" where
  "fmt_int n = (if n < 0 then CHR ''-'' # dec_digits (- n) else dec_digits n)"

lemma digit_char_isdigit: "0 \<le> d \<Longrightarrow> d \<le> 9 \<Longrightarrow> isdigit (digit_char d)"
  by (simp add: isdigit_def digit_char_def char_code_def take_bit_eq_mod)

lemma dec_digits_digits: "0 \<le> n \<Longrightarrow> list_all isdigit (dec_digits n) \<and> dec_digits n \<noteq> []"
proof (induction n rule: dec_digits.induct)
  case (1 n)
  then show ?case
    by (subst (1 2) dec_digits.simps) (auto simp: digit_char_isdigit)
qed

text \<open>Conversion to a signed type of the given width keeps the value modulo \<open>2 ^ w\<close>.\<close>

definition to_int32 :: "int \<Rightarrow> int" where
  "to_int32 n = (n + 2 ^ 31) mod 2 ^ 32 - 2 ^ 31"

definition to_int64 :: "int \<Rightarrow> int" where
  "to_int64 n = (n + 2 ^ 63) mod 2 ^ 64 - 2 ^ 63"

definition int32_range :: "int \<Rightarrow> bool" where
  "int32_range n \<longleftrightarrow> - (2 ^ 31) \<le> n \<and> n < 2 ^ 31"

definition int64_range :: "int \<Rightarrow> bool" where
  "int64_range n \<longleftrightarrow> - (2 ^ 63) \<le> n \<and> n < 2 ^ 63"

lemma to_int32_range: "int32_range (to_int32 n)"
  using pos_mod_bound[of "2 ^ 32" "n + 2 ^ 31"] pos_mod_sign[of "2 ^ 32" "n + 2 ^ 31"]
  by (simp add: to_int32_def int32_range_def)

lemma to_int64_range: "int64_range (to_int64 n)"
  using pos_mod_bound[of "2 ^ 64" "n + 2 ^ 63"] pos_mod_sign[of "2 ^ 64" "n + 2 ^ 63"]
  by (simp add: to_int64_def int64_range_def)

lemma to_int32_id: "int32_range n \<Longrightarrow> to_int32 n = n"
  by (simp add: to_int32_def int32_range_def)

lemma to_int64_id: "int64_range n \<Longrightarrow> to_int64 n = n"
  by (simp add: to_int64_def int64_range_def)

text \<open>C++ integer division truncates towards zero.\<close>

definition cdiv :: "int \<Rightarrow> int \<Rightarrow> int" where
  "cdiv a b = sgn a * sgn b * (\<bar>a\<bar> div \<bar>b\<bar>)"

lemma cdiv_nonneg: "0 \<le> a \<Longrightarrow> 0 < b \<Longrightarrow> cdiv a b = a div b"
  by (cases "a = 0") (simp_all add: cdiv_def)

end
