(* ===== verification/Doubles.thy ===== *)
theory Doubles
  imports Prelude
begin

text \<open>
  C++ \<open>double\<close> as the sources use it: IEEE 754 binary64 values with round-to-nearest-even
  arithmetic.  A finite value is kept as the rational number it denotes, so that every operation
  is the exact operation followed by \<open>fl\<close>, the rounding to the nearest binary64 value;
  \<open>Inf s\<close> is an infinity (negative when \<open>s\<close>).  The two zeros are one value here:
  no operation of the sources tells them apart (they never divide by a value that can be zero, and
  print a double only in log and error texts).  Comparisons with a NaN are false, as in C++.

  The lemmas are those the components need of binary64: rounding is monotone, exact on integers
  up to \<open>2^53\<close>, and has relative error at most \<open>2^-53\<close> on normal values.  The
  locale \<open>rounding\<close> states these three laws and derives the decimal scaling round trip;
  \<open>rnd\<close> interprets it.
\<close>

datatype double = NaN | Inf bool | Fin rat

section \<open>Rounding\<close>

text \<open>Round to the nearest integer, ties to even.\<close>

definition rne :: "rat \<Rightarrow> int" where
  "rne x = (let f = \<lfloor>x\<rfloor>; d = x - of_int f in
     if d < 1 / 2 then f else if 1 / 2 < d then f + 1
     else if even f then f else f + 1)"

text \<open>The number of binary digits, the binary exponent \<open>\<lfloor>log2 x\<rfloor>\<close> and the
  exponent of the last significand bit of the binade of \<open>x\<close> (53 bits, never below the
  subnormal exponent).\<close>

fun blen :: "int \<Rightarrow> int" where
  "blen n = (if n \<le> 0 then 0 else 1 + blen (n div 2))"

declare blen.simps [simp del]

definition flog2 :: "rat \<Rightarrow> int" where
  "flog2 x = (let (p, q) = quotient_of x; k = blen p - blen q in
     if 2 powi k \<le> x then k else k - 1)"

definition ulp_exp :: "rat \<Rightarrow> int" where
  "ulp_exp x = max (flog2 \<bar>x\<bar> - 52) (- 1074)"

definition rnd :: "rat \<Rightarrow> rat" where
  "rnd x = (if x = 0 then 0
     else of_int (rne (x / 2 powi ulp_exp x)) * 2 powi ulp_exp x)"

definition fl :: "rat \<Rightarrow> double" where
  "fl x = (if 2 ^ 1024 \<le> \<bar>rnd x\<bar> then Inf (x < 0) else Fin (rnd x))"

lemma rne_error: "\<bar>of_int (rne x) - x\<bar> \<le> 1 / 2"
proof -
  have "of_int \<lfloor>x\<rfloor> \<le> x" "x < of_int \<lfloor>x\<rfloor> + 1" by linarith+
  then show ?thesis
    unfolding rne_def Let_def by (simp only: of_int_add of_int_1 split: if_split) linarith
qed

lemma rne_int [simp]: "rne (of_int n) = n"
  by (simp add: rne_def)

lemma rne_mono: "x \<le> y \<Longrightarrow> rne x \<le> rne y"
proof (cases "\<lfloor>x\<rfloor> = \<lfloor>y\<rfloor>")
  case True
  assume "x \<le> y" with True show ?thesis
    by (auto simp: rne_def Let_def)
next
  case False
  assume "x \<le> y"
  then have "\<lfloor>x\<rfloor> + 1 \<le> \<lfloor>y\<rfloor>" using False floor_mono[of x y] by linarith
  moreover have "rne x \<le> \<lfloor>x\<rfloor> + 1" "\<lfloor>y\<rfloor> \<le> rne y" by (auto simp: rne_def Let_def)
  ultimately show ?thesis by linarith
qed

lemma powi_nat: "0 \<le> k \<Longrightarrow> (2::rat) powi k = of_int (2 ^ nat k)"
  by (simp add: power_int_def)

lemma blen_bounds_int: "0 < n \<Longrightarrow> 0 < blen n \<and> 2 ^ nat (blen n - 1) \<le> n \<and> n < 2 ^ nat (blen n)"
proof (induction n rule: blen.induct)
  case (1 n)
  have b: "blen n = 1 + blen (n div 2)" using "1.prems" by (subst blen.simps) simp
  show ?case
  proof (cases "n = 1")
    case True
    then have "blen n = 1" by (subst b) (simp add: blen.simps)
    with True show ?thesis by simp
  next
    case False
    with 1 have IH: "0 < blen (n div 2)" "2 ^ nat (blen (n div 2) - 1) \<le> n div 2" "n div 2 < 2 ^ nat (blen (n div 2))"
      by auto
    obtain k where k: "blen (n div 2) = int (Suc k)"
      using IH(1) by (metis not0_implies_Suc of_nat_0 order_less_irrefl zero_less_imp_eq_int)
    show ?thesis using IH unfolding b k by (simp add: nat_add_distrib) linarith
  qed
qed

lemma blen_bounds:
  assumes "0 < n"
  shows "(2::rat) powi (blen n - 1) \<le> of_int n" and "of_int n < (2::rat) powi blen n"
proof -
  note b = blen_bounds_int[OF assms]
  have "(2::rat) powi (blen n - 1) = of_int (2 ^ nat (blen n - 1))" using b by (intro powi_nat) simp
  with b show "(2::rat) powi (blen n - 1) \<le> of_int n" by (simp only: of_int_le_iff)
  have "(2::rat) powi blen n = of_int (2 ^ nat (blen n))" using b by (intro powi_nat) simp
  with b show "of_int n < (2::rat) powi blen n" by (simp only: of_int_less_iff)
qed

lemma flog2_bounds:
  assumes "0 < x"
  shows "2 powi flog2 x \<le> x \<and> x < 2 powi (flog2 x + 1)"
proof -
  obtain p q where pq: "quotient_of x = (p, q)" by force
  have q: "0 < q" using quotient_of_denom_pos[OF pq] .
  have x: "x = of_int p / of_int q" using quotient_of_div[OF pq] .
  have p: "0 < p" using assms q unfolding x by (simp add: zero_less_divide_iff)
  let ?a = "blen p" and ?b = "blen q"
  note bp = blen_bounds[OF p] and bq = blen_bounds[OF q]
  have "x < 2 powi ?a / 2 powi (?b - 1)" unfolding x
    using bp bq p by (intro frac_less) (auto simp: less_imp_le)
  also have "\<dots> = 2 powi (?a - ?b + 1)" by (simp add: power_int_diff [symmetric] algebra_simps)
  finally have hi: "x < 2 powi (?a - ?b + 1)" .
  have "2 powi (?a - 1) / 2 powi ?b \<le> x" unfolding x
    using bp bq p q by (intro frac_le) auto
  then have lo: "2 powi (?a - ?b - 1) \<le> x" by (simp add: power_int_diff [symmetric] algebra_simps)
  show ?thesis using hi lo by (auto simp: flog2_def pq Let_def)
qed
lemma powi_less_cancel: "(2::rat) powi a < 2 powi b \<Longrightarrow> a < b"
  by (meson leD linorder_le_less_linear one_le_numeral power_int_increasing)

lemma flog2_less: "0 < x \<Longrightarrow> x < 2 powi k \<Longrightarrow> flog2 x < k"
  using flog2_bounds[of x] by (intro powi_less_cancel) linarith

lemma flog2_ge: "2 powi k \<le> x \<Longrightarrow> k \<le> flog2 x"
proof -
  assume a: "2 powi k \<le> x"
  then have "0 < x" by (meson less_le_trans zero_less_numeral zero_less_power_int)
  then have "x < 2 powi (flog2 x + 1)" using flog2_bounds by blast
  with a have "(2::rat) powi k < 2 powi (flog2 x + 1)" by linarith
  then show ?thesis using powi_less_cancel by force
qed

lemma flog2_mono: "0 < x \<Longrightarrow> x \<le> y \<Longrightarrow> flog2 x \<le> flog2 y"
  using flog2_bounds[of x] by (intro flog2_ge) linarith

lemma ulp_exp_le:
  assumes "x \<noteq> 0" "\<bar>x\<bar> < 2 powi (53 + k)" "- 1074 \<le> k"
  shows "ulp_exp x \<le> k"
  using flog2_less[of "\<bar>x\<bar>" "53 + k"] assms by (auto simp: ulp_exp_def)

lemma powi_int_multiple: "k \<le> j \<Longrightarrow> (2::rat) powi j / 2 powi k = of_int (2 ^ nat (j - k))"
  by (simp add: power_int_diff [symmetric] powi_nat)

lemma rnd_exact:
  assumes "x = of_int m * 2 powi k" "ulp_exp x \<le> k"
  shows "rnd x = x"
proof (cases "x = 0")
  case False
  have "x / 2 powi ulp_exp x = of_int (m * 2 ^ nat (k - ulp_exp x))"
    using powi_int_multiple[OF assms(2)] unfolding assms(1)[THEN arg_cong[of _ _ "\<lambda>z. z / 2 powi ulp_exp x"]]
    by (simp only: of_int_mult times_divide_eq_right [symmetric])
  then have "of_int (rne (x / 2 powi ulp_exp x)) = x / 2 powi ulp_exp x" by (metis rne_int)
  with False show ?thesis by (simp add: rnd_def)
qed (simp add: rnd_def)

lemma rnd_int [simp]:
  assumes "\<bar>n\<bar> \<le> 2 ^ 53"
  shows "rnd (of_int n) = of_int n"
proof (cases "\<bar>n\<bar> = 2 ^ 53")
  case True
  then have e: "ulp_exp (of_int n) \<le> 53"
    by (intro ulp_exp_le) (auto simp: abs_if split: if_splits)
  show ?thesis by (rule rnd_exact[OF _ e, of "sgn n"]) (use True in \<open>auto simp: abs_if split: if_splits\<close>)
next
  case False
  with assms have "\<bar>n\<bar> < 2 ^ 53" by simp
  then have "(of_int \<bar>n\<bar> :: rat) < of_int (2 ^ 53)" by (simp only: of_int_less_iff)
  then have "n = 0 \<or> ulp_exp (of_int n) \<le> 0" by (auto intro: ulp_exp_le)
  then show ?thesis using rnd_exact[of "of_int n" n 0] by (auto simp: rnd_def)
qed

lemma rnd_error:
  assumes "x \<noteq> 0"
  shows "\<bar>rnd x - x\<bar> \<le> 2 powi ulp_exp x / 2"
proof -
  let ?u = "(2::rat) powi ulp_exp x"
  have u: "0 < ?u" by simp
  have "rnd x - x = (of_int (rne (x / ?u)) - x / ?u) * ?u"
    using assms by (simp add: rnd_def left_diff_distrib)
  then have "\<bar>rnd x - x\<bar> = \<bar>of_int (rne (x / ?u)) - x / ?u\<bar> * ?u"
    using u by (simp add: abs_mult)
  also have "\<dots> \<le> 1 / 2 * ?u" using rne_error u by (intro mult_right_mono) auto
  finally show ?thesis by simp
qed

lemma rnd_rel_error:
  assumes "2 powi (- 1022) \<le> \<bar>x\<bar>"
  shows "\<bar>rnd x - x\<bar> \<le> \<bar>x\<bar> / 2 ^ 53"
proof -
  have x: "0 < \<bar>x\<bar>" using assms by (metis less_le_trans zero_less_numeral zero_less_power_int)
  have "- 1022 \<le> flog2 \<bar>x\<bar>" using flog2_ge[OF assms] .
  then have e: "ulp_exp x = flog2 \<bar>x\<bar> - 52" by (simp add: ulp_exp_def)
  have "(2::rat) powi (flog2 \<bar>x\<bar> - 52) / 2 = 2 powi flog2 \<bar>x\<bar> / 2 ^ 53"
    by (simp add: power_int_diff)
  also have "\<dots> \<le> \<bar>x\<bar> / 2 ^ 53" using flog2_bounds[OF x] by (intro divide_right_mono) auto
  finally show ?thesis using rnd_error[of x] x e by simp
qed

lemma rne_minus: "rne (- x) = - rne x"
proof -
  have "\<lfloor>- x\<rfloor> = (if x = of_int \<lfloor>x\<rfloor> then - \<lfloor>x\<rfloor> else - \<lfloor>x\<rfloor> - 1)"
    by (smt (verit) ceiling_def floor_of_int floor_unique le_floor_iff of_int_floor_le of_int_minus floor_minus ceiling_altdef)
  then show ?thesis by (auto simp: rne_def Let_def)
qed

lemma rnd_minus [simp]: "rnd (- x) = - rnd x"
  by (simp add: rnd_def rne_minus ulp_exp_def)

lemma rnd_zero [simp]: "rnd 0 = 0"
  by (simp add: rnd_def)

lemma rnd_nonneg: "0 \<le> x \<Longrightarrow> 0 \<le> rnd x"
proof -
  assume "0 \<le> x"
  then have "0 \<le> x / 2 powi ulp_exp x" by simp
  then have "rne (of_int 0) \<le> rne (x / 2 powi ulp_exp x)" by (intro rne_mono) simp
  then show ?thesis by (simp add: rnd_def del: of_int_0)
qed

lemma rnd_mono_pos:
  assumes "0 < x" "x \<le> y"
  shows "rnd x \<le> rnd y"
proof -
  let ?e = "ulp_exp x" and ?f = "ulp_exp y"
  have ef: "?e \<le> ?f" using flog2_mono[OF assms] assms by (simp add: ulp_exp_def)
  show ?thesis
  proof (cases "?e = ?f")
    case True
    then have "rne (x / 2 powi ?e) \<le> rne (y / 2 powi ?f)"
      using assms by (intro rne_mono) (simp add: divide_right_mono)
    with True assms show ?thesis by (simp add: rnd_def mult_right_mono)
  next
    case False
    define k where "k = flog2 y"
    have f: "?f = k - 52" "flog2 x < k" using ef False assms
      by (auto simp: ulp_exp_def k_def split: if_splits)
    have xk: "x \<le> 2 powi k"
      using flog2_bounds[of x] assms f(2) power_int_increasing[of "flog2 x + 1" k "2::rat"] by force
    have yk: "2 powi k \<le> y" using flog2_bounds[of y] assms by (auto simp: k_def)
    have ek: "?e \<le> k" using f ef by simp
    have "x / 2 powi ?e \<le> of_int (2 ^ nat (k - ?e))"
      using xk unfolding powi_int_multiple[OF ek, symmetric] by (intro divide_right_mono) auto
    then have "rne (x / 2 powi ?e) \<le> 2 ^ nat (k - ?e)" using rne_mono rne_int by metis
    then have "of_int (rne (x / 2 powi ?e)) \<le> (2::rat) powi k / 2 powi ?e"
      unfolding powi_int_multiple[OF ek] of_int_le_iff .
    then have "rnd x \<le> 2 powi k" using assms by (simp add: rnd_def pos_le_divide_eq)
    have fk: "?f \<le> k" using f by simp
    have "of_int (2 ^ nat (k - ?f)) \<le> y / 2 powi ?f"
      using yk unfolding powi_int_multiple[OF fk, symmetric] by (intro divide_right_mono) auto
    then have "2 ^ nat (k - ?f) \<le> rne (y / 2 powi ?f)" using rne_mono rne_int by metis
    then have "(2::rat) powi k / 2 powi ?f \<le> of_int (rne (y / 2 powi ?f))"
      unfolding powi_int_multiple[OF fk] of_int_le_iff .
    then have "2 powi k \<le> rnd y" using assms by (simp add: rnd_def pos_divide_le_eq)
    with \<open>rnd x \<le> 2 powi k\<close> show ?thesis by simp
  qed
qed

lemma rnd_mono: "x \<le> y \<Longrightarrow> rnd x \<le> rnd y"
proof -
  assume xy: "x \<le> y"
  consider "0 < x" | "x \<le> 0" "0 \<le> y" | "y < 0" by linarith
  then show ?thesis
  proof cases
    case 2
    then show ?thesis using rnd_nonneg[of y] rnd_nonneg[of "- x"] by simp
  next
    case 3
    then show ?thesis using rnd_mono_pos[of "- y" "- x"] xy by simp
  qed (use xy rnd_mono_pos in auto)
qed

section \<open>Comparison and arithmetic\<close>

instantiation double :: ord
begin

fun less_double :: "double \<Rightarrow> double \<Rightarrow> bool" where
  "less_double (Fin x) (Fin y) = (x < y)"
| "less_double (Fin x) (Inf s) = (\<not> s)"
| "less_double (Inf s) (Fin y) = s"
| "less_double (Inf s) (Inf t) = (s \<and> \<not> t)"
| "less_double _ _ = False"

definition less_eq_double :: "double \<Rightarrow> double \<Rightarrow> bool" where
  "less_eq_double a b = (a < b \<or> (a = b \<and> a \<noteq> NaN))"

instance ..

end

instantiation double :: "{zero, one, plus, minus, uminus, times, inverse}"
begin

definition zero_double :: double where
  "zero_double = Fin 0"

definition one_double :: double where
  "one_double = Fin 1"

fun uminus_double :: "double \<Rightarrow> double" where
  "uminus_double (Fin x) = Fin (- x)"
| "uminus_double (Inf s) = Inf (\<not> s)"
| "uminus_double NaN = NaN"

fun plus_double :: "double \<Rightarrow> double \<Rightarrow> double" where
  "plus_double (Fin x) (Fin y) = fl (x + y)"
| "plus_double (Fin x) (Inf t) = Inf t"
| "plus_double (Inf s) (Fin y) = Inf s"
| "plus_double (Inf s) (Inf t) = (if s = t then Inf s else NaN)"
| "plus_double _ _ = NaN"

definition minus_double :: "double \<Rightarrow> double \<Rightarrow> double" where
  "minus_double a b = a + (- b)"

fun times_double :: "double \<Rightarrow> double \<Rightarrow> double" where
  "times_double (Fin x) (Fin y) = fl (x * y)"
| "times_double (Fin x) (Inf t) = (if x = 0 then NaN else Inf ((x < 0) \<noteq> t))"
| "times_double (Inf s) (Fin y) = (if y = 0 then NaN else Inf (s \<noteq> (y < 0)))"
| "times_double (Inf s) (Inf t) = Inf (s \<noteq> t)"
| "times_double _ _ = NaN"

fun divide_double :: "double \<Rightarrow> double \<Rightarrow> double" where
  "divide_double (Fin x) (Fin y) =
     (if y = 0 then (if x = 0 then NaN else Inf (x < 0)) else fl (x / y))"
| "divide_double (Fin x) (Inf t) = Fin 0"
| "divide_double (Inf s) (Fin y) = Inf (s \<noteq> (y < 0))"
| "divide_double (Inf s) (Inf t) = NaN"
| "divide_double _ _ = NaN"

definition inverse_double :: "double \<Rightarrow> double" where
  "inverse_double a = divide 1 a"

instance ..

end

text \<open>\<open>std::llround\<close>: nearest integer, halves away from zero.  Where the rounded value
  is not a \<open>long long\<close> the standard leaves the result unspecified: \<open>out\<close> is what
  the platform answers there, and every theorem holds for all \<open>out\<close>.\<close>

definition llround :: "(double \<Rightarrow> int) \<Rightarrow> double \<Rightarrow> int" where
  "llround out x = (case x of
     Fin r \<Rightarrow> (let n = (if 0 \<le> r then \<lfloor>r + 1 / 2\<rfloor> else - \<lfloor>- r + 1 / 2\<rfloor>)
                in if - (2 ^ 63) \<le> n \<and> n < 2 ^ 63 then n else out x)
   | _ \<Rightarrow> out x)"


locale rounding =
  fixes r :: "rat \<Rightarrow> rat"
  assumes r_mono: "x \<le> y \<Longrightarrow> r x \<le> r y"
    and r_int: "\<bar>n\<bar> \<le> 2 ^ 53 \<Longrightarrow> r (of_int n) = of_int n"
    and r_rel: "2 powi (- 1022) \<le> \<bar>x\<bar> \<Longrightarrow> \<bar>r x - x\<bar> \<le> \<bar>x\<bar> / 2 ^ 53"
begin

lemma r_pos_error:
  assumes "1 / 10 ^ 22 \<le> x"
  shows "\<bar>r x - x\<bar> \<le> x / 2 ^ 53"
proof -
  have "(2::rat) powi (- 1022) \<le> 1 / 10 ^ 22" by (simp add: power_int_minus)
  with assms r_rel[of x] show ?thesis by (simp add: abs_if split: if_splits)
qed

lemma scale_roundtrip:
  assumes n: "0 < n" "n < 2 ^ 51" and p: "1 \<le> p" "p \<le> 10 ^ 22"
  shows "\<bar>r (r (of_int n / p) * p) - of_int n\<bar> < 1 / 2"
proof -
  define N where "N = (of_int n :: rat)"
  have N: "1 \<le> N" "N \<le> 2 ^ 51 - 1"
    using n of_int_le_iff[of 1 n, where 'a = rat] of_int_le_iff[of n "2 ^ 51 - 1", where 'a = rat]
    by (auto simp: N_def)
  define a where "a = r (N / p)"
  have "1 / 10 ^ 22 \<le> N / p" using N p by (intro frac_le) auto
  then have "\<bar>a - N / p\<bar> \<le> N / p / 2 ^ 53" unfolding a_def by (rule r_pos_error)
  then have "\<bar>a - N / p\<bar> * p \<le> N / p / 2 ^ 53 * p" using p by (intro mult_right_mono) auto
  moreover have "a * p - N = (a - N / p) * p" using p by (simp add: left_diff_distrib)
  then have "\<bar>a - N / p\<bar> * p = \<bar>a * p - N\<bar>" using p by (simp only: abs_mult abs_of_pos)
  ultimately have e1: "\<bar>a * p - N\<bar> \<le> N / 2 ^ 53" using p by simp
  then have "1 / 10 ^ 22 \<le> a * p" using N by (simp add: abs_if split: if_splits)
  then have e2: "\<bar>r (a * p) - a * p\<bar> \<le> a * p / 2 ^ 53" by (rule r_pos_error)
  show ?thesis using e1 e2 N unfolding N_def[symmetric] a_def[symmetric]
    by (simp add: abs_if field_simps split: if_splits)
qed

end

interpretation rn: rounding rnd
  by unfold_locales (fact rnd_mono rnd_int rnd_rel_error)+

section \<open>Facts about double values\<close>

definition finite_double :: "double \<Rightarrow> bool" where
  "finite_double x \<longleftrightarrow> (case x of Fin _ \<Rightarrow> True | _ \<Rightarrow> False)"

text \<open>An integer converted to \<open>double\<close>.\<close>

definition of_integer :: "int \<Rightarrow> double" where
  "of_integer n = fl (of_int n)"

lemma fl_exact: "rnd x = x \<Longrightarrow> \<bar>x\<bar> < 2 ^ 1024 \<Longrightarrow> fl x = Fin x"
  by (simp add: fl_def)

lemma fl_int: "\<bar>n\<bar> \<le> 2 ^ 53 \<Longrightarrow> fl (of_int n) = Fin (of_int n)"
proof -
  assume a: "\<bar>n\<bar> \<le> 2 ^ 53"
  then have "of_int \<bar>n\<bar> \<le> (of_int (2 ^ 53) :: rat)" by (simp only: of_int_le_iff)
  then have "\<bar>of_int n\<bar> < (2 ^ 1024 :: rat)" by simp
  with a show ?thesis by (intro fl_exact rnd_int)
qed

lemma fl_numeral: "(numeral k :: int) \<le> 2 ^ 53 \<Longrightarrow> fl (numeral k) = Fin (numeral k)"
  using fl_int[of "numeral k"] by simp

lemma fl_zero [simp]: "fl 0 = Fin 0"
  by (simp add: fl_def)

lemma fl_one [simp]: "fl 1 = Fin 1"
  using fl_int[of 1] by simp

lemma double_less_irrefl [simp]: "\<not> x < (x :: double)"
  by (cases x) auto

lemma double_less_trans: "x < y \<Longrightarrow> y < z \<Longrightarrow> x < (z :: double)"
  by (cases x; cases y; cases z) auto

lemma double_less_asym: "x < y \<Longrightarrow> \<not> y < (x :: double)"
  by (cases x; cases y) auto

lemma double_trichotomy: "x \<noteq> NaN \<Longrightarrow> y \<noteq> NaN \<Longrightarrow> x < y \<or> x = y \<or> y < (x :: double)"
  by (cases x; cases y) auto

lemma double_less_NaN [simp]: "\<not> x < NaN" "\<not> NaN < x"
  by (cases x; simp)+

lemma double_le_NaN [simp]: "\<not> x \<le> NaN" "\<not> NaN \<le> x"
  by (auto simp: less_eq_double_def)

lemma double_le_trans: "x \<le> y \<Longrightarrow> y \<le> z \<Longrightarrow> x \<le> (z :: double)"
  by (auto simp: less_eq_double_def intro: double_less_trans)

lemma double_le_less_trans: "x \<le> y \<Longrightarrow> y < z \<Longrightarrow> x < (z :: double)"
  by (auto simp: less_eq_double_def intro: double_less_trans)

lemma double_less_le_trans: "x < y \<Longrightarrow> y \<le> z \<Longrightarrow> x < (z :: double)"
  by (auto simp: less_eq_double_def intro: double_less_trans)

lemma double_not_less: "x \<noteq> NaN \<Longrightarrow> y \<noteq> NaN \<Longrightarrow> \<not> x < y \<longleftrightarrow> y \<le> (x :: double)"
  using double_trichotomy[of x y] by (auto simp: less_eq_double_def dest: double_less_asym)

lemma Fin_le_iff [simp]: "Fin x \<le> Fin y \<longleftrightarrow> x \<le> y"
  by (auto simp: less_eq_double_def)

lemma fl_not_NaN [simp]: "fl x \<noteq> NaN" "NaN \<noteq> fl x"
  by (simp_all add: fl_def)

lemma fl_mono: "x \<le> y \<Longrightarrow> fl x \<le> fl y"
proof -
  assume xy: "x \<le> y"
  note m = rnd_mono[OF xy]
  have s: "z < 0 \<Longrightarrow> rnd z \<le> 0" "0 \<le> z \<Longrightarrow> 0 \<le> rnd z" for z
    using rnd_mono[of z 0] rnd_nonneg[of z] by auto
  show ?thesis
    using m xy s[of x] s[of y]
    by (cases "x < 0"; cases "y < 0") (auto simp: fl_def less_eq_double_def abs_if split: if_splits)
qed

definition round_away :: "rat \<Rightarrow> int" where
  "round_away r = (if 0 \<le> r then \<lfloor>r + 1 / 2\<rfloor> else - \<lfloor>- r + 1 / 2\<rfloor>)"

lemma llround_Fin: "int64_range (round_away r) \<Longrightarrow> llround out (Fin r) = round_away r"
  by (simp add: llround_def round_away_def int64_range_def Let_def)

lemma round_away_mono: "x \<le> y \<Longrightarrow> round_away x \<le> round_away y"
  by (auto simp: round_away_def intro: floor_mono) linarith+

lemma round_away_near:
  assumes "\<bar>r - of_int n\<bar> < 1 / 2"
  shows "round_away r = n"
proof (cases "0 \<le> r")
  case True
  have "\<lfloor>r + 1 / 2\<rfloor> = n" using assms by (auto simp: floor_eq_iff abs_if split: if_splits)
  with True show ?thesis by (simp add: round_away_def)
next
  case False
  have "\<lfloor>- r + 1 / 2\<rfloor> = - n" using assms by (auto simp: floor_eq_iff abs_if split: if_splits)
  with False show ?thesis by (simp add: round_away_def)
qed

lemma round_away_int [simp]: "round_away (of_int n) = n"
  by (rule round_away_near) simp

end
