(* ===== verification/Std_Strings.thy ===== *)
theory Std_Strings
  imports Doubles
begin

text \<open>
  The conversions of the C++ standard library from text to numbers that the sources call:
  \<open>std::stod\<close>, \<open>std::stoll\<close> and \<open>std::stoi\<close>.  Each skips leading white space, reads
  an optional sign and the longest number that follows and ignores the rest of the text.
  \<open>None\<close> is the exception they throw: \<open>std::invalid_argument\<close> when there is no number,
  \<open>std::out_of_range\<close> when it does not fit (for \<open>stod\<close>: it overflows, or it is below the
  normal range and not exact, where glibc sets \<open>ERANGE\<close>).  Every caller in the sources treats
  the two alike.

  The lemmas are the round trips with the decimal rendering \<open>fmt_int\<close>.
\<close>

section \<open>Digits\<close>

definition take_sign :: "string \<Rightarrow> bool \<times> string" where
  "take_sign s = (case s of
     c # r \<Rightarrow> if c = CHR ''-'' then (True, r) else if c = CHR ''+'' then (False, r) else (False, s)
   | [] \<Rightarrow> (False, []))"

definition digit_val :: "char \<Rightarrow> int" where
  "digit_val c = (if isdigit c then char_code c - 48
     else char_code (tolower c) - 87)"

definition isxdigit :: "char \<Rightarrow> bool" where
  "isxdigit c \<longleftrightarrow> isdigit c \<or> (97 \<le> char_code (tolower c) \<and> char_code (tolower c) \<le> 102)"

definition digits_val :: "int \<Rightarrow> string \<Rightarrow> int" where
  "digits_val base ds = foldl (\<lambda>v c. v * base + digit_val c) 0 ds"

definition signed :: "bool \<Rightarrow> int \<Rightarrow> int" where
  "signed neg n = (if neg then - n else n)"

section \<open>Integers\<close>

definition strtol :: "string \<Rightarrow> int option" where
  "strtol s = (let (neg, r) = take_sign (dropWhile isspace s); ds = takeWhile isdigit r
     in if ds = [] then None else Some (signed neg (digits_val 10 ds)))"

definition stoll :: "string \<Rightarrow> int option" where
  "stoll s = (case strtol s of
     None \<Rightarrow> None
   | Some n \<Rightarrow> if int64_range n then Some n else None)"

definition stoi :: "string \<Rightarrow> int option" where
  "stoi s = (case strtol s of
     None \<Rightarrow> None
   | Some n \<Rightarrow> if int32_range n then Some n else None)"

section \<open>Floating point\<close>

text \<open>A significand: digits with an optional point, at least one digit.  The result is the
  integer the digits denote, how many of them follow the point, and the rest of the text.\<close>

definition significand :: "int \<Rightarrow> (char \<Rightarrow> bool) \<Rightarrow> string \<Rightarrow> (int \<times> nat \<times> string) option" where
  "significand base isd s = (let
     ds = takeWhile isd s; r = dropWhile isd s;
     fs = (case r of c # r' \<Rightarrow> if c = CHR ''.'' then takeWhile isd r' else [] | [] \<Rightarrow> []);
     rest = (case r of c # r' \<Rightarrow> if c = CHR ''.'' then dropWhile isd r' else r | [] \<Rightarrow> [])
   in if ds @ fs = [] then None else Some (digits_val base (ds @ fs), length fs, rest))"

text \<open>An exponent part introduced by the letter \<open>e\<close> (given in lower case); 0 when there is
  no well-formed one.\<close>

definition exponent :: "char \<Rightarrow> string \<Rightarrow> int" where
  "exponent e s = (case s of
     [] \<Rightarrow> 0
   | c # r \<Rightarrow> if tolower c \<noteq> e then 0
       else (let (neg, r') = take_sign r; ds = takeWhile isdigit r'
             in if ds = [] then 0 else signed neg (digits_val 10 ds)))"

definition unsigned_number :: "string \<Rightarrow> rat option" where
  "unsigned_number s =
     (case (if map tolower (take 2 s) = ''0x'' then significand 16 isxdigit (drop 2 s) else None) of
        Some (n, k, rest) \<Rightarrow> Some (of_int n * 2 powi (exponent CHR ''p'' rest - 4 * int k))
      | None \<Rightarrow> (case significand 10 isdigit s of
          Some (n, k, rest) \<Rightarrow> Some (of_int n * 10 powi (exponent CHR ''e'' rest - int k))
        | None \<Rightarrow> None))"

definition to_double_checked :: "rat \<Rightarrow> double option" where
  "to_double_checked v =
     (if \<not> finite_double (fl v) then None
      else if v \<noteq> 0 \<and> \<bar>v\<bar> < 2 powi (- 1022) \<and> rnd v \<noteq> v then None
      else Some (fl v))"

definition stod :: "string \<Rightarrow> double option" where
  "stod s = (let (neg, r) = take_sign (dropWhile isspace s); low = map tolower r in
     if starts_with low ''inf'' then Some (Inf neg)
     else if starts_with low ''nan'' then Some NaN
     else (case unsigned_number r of
        None \<Rightarrow> None
      | Some v \<Rightarrow> to_double_checked (if neg then - v else v)))"

section \<open>Round trips\<close>

lemma digit_val_digit_char: "0 \<le> d \<Longrightarrow> d \<le> 9 \<Longrightarrow> digit_val (digit_char d) = d"
  using digit_char_isdigit[of d]
  by (simp add: digit_val_def digit_char_def char_code_def take_bit_eq_mod)

lemma digits_val_snoc [simp]: "digits_val b (ds @ [c]) = digits_val b ds * b + digit_val c"
  by (simp add: digits_val_def)

lemma digits_val_Nil [simp]: "digits_val b [] = 0"
  by (simp add: digits_val_def)

lemma digits_val_dec_digits: "0 \<le> n \<Longrightarrow> digits_val 10 (dec_digits n) = n"
proof (induction n rule: dec_digits.induct)
  case (1 n)
  show ?case
  proof (cases "n < 10")
    case True
    with 1 show ?thesis
      using digits_val_snoc[of 10 "[]" "digit_char n"]
      by (subst dec_digits.simps) (simp add: digit_val_digit_char)
  next
    case False
    with 1 show ?thesis
      by (subst dec_digits.simps) (simp add: digit_val_digit_char)
  qed
qed

lemma isdigit_plain: "isdigit c \<Longrightarrow> \<not> isspace c \<and> c \<noteq> CHR ''-'' \<and> c \<noteq> CHR ''+''"
  by (auto simp: isdigit_def isspace_def char_code_def)

lemma take_sign_digits: "ds \<noteq> [] \<Longrightarrow> list_all isdigit ds \<Longrightarrow> take_sign ds = (False, ds)"
  by (cases ds) (auto simp: take_sign_def dest: isdigit_plain)

lemma dropWhile_space_digits: "list_all isdigit ds \<Longrightarrow> dropWhile isspace ds = ds"
  by (cases ds) (auto dest: isdigit_plain)

lemma takeWhile_digits: "list_all isdigit ds \<Longrightarrow> takeWhile isdigit ds = ds"
  by (induction ds) auto

lemma strtol_fmt_int [simp]: "strtol (fmt_int n) = Some n"
proof (cases "n < 0")
  case True
  let ?d = "dec_digits (- n)"
  have d: "list_all isdigit ?d" "?d \<noteq> []" using dec_digits_digits[of "- n"] True by auto
  have m: "\<not> isspace (CHR ''-'')" by (simp add: isspace_def char_code_def)
  show ?thesis using True d m
    by (simp add: strtol_def fmt_int_def take_sign_def takeWhile_digits digits_val_dec_digits signed_def)
next
  case False
  let ?d = "dec_digits n"
  have d: "list_all isdigit ?d" "?d \<noteq> []" using dec_digits_digits[of n] False by auto
  show ?thesis using False d
    by (simp add: strtol_def fmt_int_def take_sign_digits dropWhile_space_digits takeWhile_digits
        digits_val_dec_digits signed_def)
qed

lemma stoll_fmt_int: "int64_range n \<Longrightarrow> stoll (fmt_int n) = Some n"
  by (simp add: stoll_def)

lemma stoi_fmt_int: "int32_range n \<Longrightarrow> stoi (fmt_int n) = Some n"
  by (simp add: stoi_def)

lemma stoll_range: "stoll s = Some n \<Longrightarrow> int64_range n"
  by (auto simp: stoll_def split: option.splits if_splits)

lemma fmt_int_inject: "fmt_int m = fmt_int n \<longleftrightarrow> m = n"
  by (metis option.inject strtol_fmt_int)

end
