(* ===== verification/Json_Model.thy ===== *)
theory Json_Model
  imports Std_Strings
begin

text \<open>
  JSON values as the sources handle them.  A number is an integer or a \<open>double\<close>; an object is
  its member list in the order the sources iterate it.  Reading an integer member as
  \<open>int\<close> or \<open>std::int64_t\<close> converts modulo the width, reading it as \<open>double\<close> rounds.

  Code outside the repository is a parameter.  \<open>parse\<close> and \<open>dump\<close> (nlohmann::json) are
  arguments of the functions that call them.  The readers of the \<open>stonky-cpp-common\<close>
  submodule (\<open>readValue<T>(json, key, out)\<close> and \<open>readStringAsDouble\<close>) are the fields of
  the record \<open>json_utils\<close>: a reader gets the object, the key and the current value of the
  variable and gives the value the variable has afterwards, or the exception.
\<close>

section \<open>Exceptions\<close>

text \<open>\<open>Json_exception\<close> is a \<open>nlohmann::json::exception\<close>, \<open>Runtime_error\<close> any
  other \<open>std::exception\<close>; both carry \<open>what()\<close>.\<close>

datatype exn = Json_exception string | Runtime_error string

primrec exn_what :: "exn \<Rightarrow> string" where
  "exn_what (Json_exception s) = s"
| "exn_what (Runtime_error s) = s"

section \<open>Values\<close>

datatype json =
    JNull
  | JBool bool
  | JInt int
  | JFloat double
  | JString string
  | JArray "json list"
  | JObject "(string \<times> json) list"

text \<open>\<open>json.find(key)\<close>: \<open>None\<close> for \<open>end()\<close>, also on a value that is not an object.\<close>

definition jfind :: "string \<Rightarrow> json \<Rightarrow> json option" where
  "jfind k j = (case j of JObject kvs \<Rightarrow> map_of kvs k | _ \<Rightarrow> None)"

text \<open>\<open>json.value(key, default)\<close> throws on a value that is not an object.\<close>

definition jvalue :: "json \<Rightarrow> string \<Rightarrow> json \<Rightarrow> exn + json" where
  "jvalue j k d = (case j of
     JObject kvs \<Rightarrow> Inr (case map_of kvs k of Some v \<Rightarrow> v | None \<Rightarrow> d)
   | _ \<Rightarrow> Inl (Json_exception ''type_error.306''))"

definition is_array :: "json \<Rightarrow> bool" where
  "is_array j \<longleftrightarrow> (case j of JArray _ \<Rightarrow> True | _ \<Rightarrow> False)"

definition is_object :: "json \<Rightarrow> bool" where
  "is_object j \<longleftrightarrow> (case j of JObject _ \<Rightarrow> True | _ \<Rightarrow> False)"

definition is_number_integer :: "json \<Rightarrow> bool" where
  "is_number_integer j \<longleftrightarrow> (case j of JInt _ \<Rightarrow> True | _ \<Rightarrow> False)"

text \<open>A string member, the empty string when it is absent or not a string: the idiom
  \<open>if (it != end() && it->is_string()) s = it->get<std::string>()\<close>.\<close>

definition jstring_or_empty :: "string \<Rightarrow> json \<Rightarrow> string" where
  "jstring_or_empty k j = (case jfind k j of Some (JString s) \<Rightarrow> s | _ \<Rightarrow> '''')"

lemma jfind_simps [simp]:
  "jfind k JNull = None" "jfind k (JBool b) = None" "jfind k (JInt i) = None"
  "jfind k (JFloat d) = None" "jfind k (JString s) = None" "jfind k (JArray xs) = None"
  "jfind k (JObject kvs) = map_of kvs k"
  by (simp_all add: jfind_def)

section \<open>The readers of stonky-cpp-common\<close>

record json_utils =
  readBool :: "json \<Rightarrow> string \<Rightarrow> bool \<Rightarrow> exn + bool"
  readInt32 :: "json \<Rightarrow> string \<Rightarrow> int \<Rightarrow> exn + int"
  readInt64 :: "json \<Rightarrow> string \<Rightarrow> int \<Rightarrow> exn + int"
  readDouble :: "json \<Rightarrow> string \<Rightarrow> double \<Rightarrow> exn + double"
  readString :: "json \<Rightarrow> string \<Rightarrow> string \<Rightarrow> exn + string"
  readStringAsDouble :: "json \<Rightarrow> string \<Rightarrow> exn + double"
  readStringAsDoubleOr :: "json \<Rightarrow> string \<Rightarrow> double \<Rightarrow> exn + double"

text \<open>What the sources rely on where a theorem needs it: reading an absent member leaves the
  variable alone, reading a member of the wanted type stores it.\<close>

definition reads_string :: "json_utils \<Rightarrow> bool" where
  "reads_string U \<longleftrightarrow> (\<forall>j k d.
     (jfind k j = None \<longrightarrow> readString U j k d = Inr d) \<and>
     (\<forall>s. jfind k j = Some (JString s) \<longrightarrow> readString U j k d = Inr s))"

definition reads_int :: "json_utils \<Rightarrow> bool" where
  "reads_int U \<longleftrightarrow> (\<forall>j k d.
     (jfind k j = None \<longrightarrow> readInt32 U j k d = Inr d \<and> readInt64 U j k d = Inr d) \<and>
     (\<forall>i. jfind k j = Some (JInt i) \<longrightarrow>
        readInt32 U j k d = Inr (to_int32 i) \<and> readInt64 U j k d = Inr (to_int64 i)))"

text \<open>One set of readers that behaves so; the witnesses run the model with it.\<close>

definition type_error :: "exn" where
  "type_error = Json_exception ''type_error.302''"

definition plain_utils :: json_utils where
  "plain_utils = \<lparr>
     readBool = (\<lambda>j k d. case jfind k j of None \<Rightarrow> Inr d | Some (JBool b) \<Rightarrow> Inr b | _ \<Rightarrow> Inl type_error),
     readInt32 = (\<lambda>j k d. case jfind k j of None \<Rightarrow> Inr d | Some (JInt i) \<Rightarrow> Inr (to_int32 i)
        | _ \<Rightarrow> Inl type_error),
     readInt64 = (\<lambda>j k d. case jfind k j of None \<Rightarrow> Inr d | Some (JInt i) \<Rightarrow> Inr (to_int64 i)
        | _ \<Rightarrow> Inl type_error),
     readDouble = (\<lambda>j k d. case jfind k j of None \<Rightarrow> Inr d | Some (JInt i) \<Rightarrow> Inr (of_integer i)
        | Some (JFloat x) \<Rightarrow> Inr x | _ \<Rightarrow> Inl type_error),
     readString = (\<lambda>j k d. case jfind k j of None \<Rightarrow> Inr d | Some (JString s) \<Rightarrow> Inr s
        | _ \<Rightarrow> Inl type_error),
     readStringAsDouble = (\<lambda>j k. case jfind k j of
        Some (JString s) \<Rightarrow> (case stod s of Some x \<Rightarrow> Inr x | None \<Rightarrow> Inr 0) | _ \<Rightarrow> Inr 0),
     readStringAsDoubleOr = (\<lambda>j k d. case jfind k j of
        Some (JString s) \<Rightarrow> (case stod s of Some x \<Rightarrow> Inr x | None \<Rightarrow> Inr d) | _ \<Rightarrow> Inr d) \<rparr>"

lemma plain_utils_reads: "reads_string plain_utils" "reads_int plain_utils"
  by (auto simp: reads_string_def reads_int_def plain_utils_def)

end
