(* ===== verification/Models.thy ===== *)
theory Models
  imports Json_Model
begin

text \<open>
  \<open>include/stonky/lighter/lighter_enums.h\<close>, \<open>src/lighter.cpp\<close> and
  \<open>lighter_models.{h,cpp}\<close>: the candle intervals, the utility functions on them, the data
  models and their \<open>fromJson\<close>.  A \<open>fromJson\<close> takes the readers, the document and the
  object it fills and gives the filled object or the exception a reader threw.  The
  \<open>toJson\<close> members only throw "Unimplemented" and are left out.

  The lemmas: the two interval tables agree, what is stored in every field decides the derived
  ones (\<open>isDelisted\<close>, \<open>isolatedOnly\<close>), and the sign and scale of a funding rate.
\<close>

section \<open>Candle intervals\<close>

text \<open>The enumerators, and any other value the underlying \<open>std::int32_t\<close> can hold, which only
  the \<open>default\<close> branches see.\<close>

datatype CandleInterval = I1m | I5m | I15m | I30m | I1h | I4h | I12h | I1d | Unnamed int

definition enum_name :: "CandleInterval \<Rightarrow> string" where
  "enum_name i = (case i of I1m \<Rightarrow> ''1m'' | I5m \<Rightarrow> ''5m'' | I15m \<Rightarrow> ''15m'' | I30m \<Rightarrow> ''30m''
     | I1h \<Rightarrow> ''1h'' | I4h \<Rightarrow> ''4h'' | I12h \<Rightarrow> ''12h'' | I1d \<Rightarrow> ''1d'' | Unnamed _ \<Rightarrow> '''')"

definition numberOfMsForCandleInterval :: "CandleInterval \<Rightarrow> int" where
  "numberOfMsForCandleInterval i = (case i of
     I1m \<Rightarrow> 60000
   | I5m \<Rightarrow> 60000 * 5
   | I15m \<Rightarrow> 60000 * 15
   | I30m \<Rightarrow> 60000 * 30
   | I1h \<Rightarrow> 60000 * 60
   | I4h \<Rightarrow> 60000 * 240
   | I12h \<Rightarrow> 60000 * 720
   | I1d \<Rightarrow> 86400000
   | Unnamed _ \<Rightarrow> 0)"

text \<open>\<open>Some i\<close>: true, with \<open>i\<close> stored in the out parameter; \<open>None\<close>: false.\<close>

definition isValidCandleResolution :: "int \<Rightarrow> CandleInterval option" where
  "isValidCandleResolution r =
     (if r = 1 then Some I1m
      else if r = 5 then Some I5m
      else if r = 15 then Some I15m
      else if r = 30 then Some I30m
      else if r = 60 then Some I1h
      else if r = 240 then Some I4h
      else if r = 720 then Some I12h
      else if r = 1440 then Some I1d
      else None)"

definition named :: "CandleInterval \<Rightarrow> bool" where
  "named i \<longleftrightarrow> (case i of Unnamed _ \<Rightarrow> False | _ \<Rightarrow> True)"

lemma interval_ms_unnamed: "numberOfMsForCandleInterval i \<le> 0 \<longleftrightarrow> \<not> named i"
  by (cases i) (auto simp: named_def numberOfMsForCandleInterval_def)

text \<open>Property C40: the resolutions in minutes are exactly the named intervals: \<open>isValidCandleResolution\<close> accepts
  \<open>r\<close> with the interval \<open>i\<close> if and only if \<open>i\<close> is named and lasts \<open>r\<close> minutes, and the venue's names of two
  named intervals differ.\<close>

theorem candle_resolutions:
  "(isValidCandleResolution r = Some i) = (named i \<and> numberOfMsForCandleInterval i = r * 60000) \<and>
   inj_on enum_name {i. named i}"
proof
  show "(isValidCandleResolution r = Some i) = (named i \<and> numberOfMsForCandleInterval i = r * 60000)"
    by (cases i) (auto simp: isValidCandleResolution_def named_def numberOfMsForCandleInterval_def)
  show "inj_on enum_name {i. named i}"
  proof (rule inj_onI)
    fix x y
    show "x \<in> {i. named i} \<Longrightarrow> y \<in> {i. named i} \<Longrightarrow> enum_name x = enum_name y \<Longrightarrow> x = y"
      by (cases x; cases y) (simp_all add: named_def enum_name_def)
  qed
qed

section \<open>Candles\<close>

record Candle =
  openTime :: int
  cd_open :: double
  cd_high :: double
  cd_low :: double
  cd_close :: double
  baseVolume :: double
  quoteVolume :: double

definition Candle_init :: Candle where
  "Candle_init = \<lparr>openTime = 0, cd_open = 0, cd_high = 0, cd_low = 0, cd_close = 0,
     baseVolume = 0, quoteVolume = 0\<rparr>"

definition Candle_fromJson :: "json_utils \<Rightarrow> json \<Rightarrow> Candle \<Rightarrow> exn + Candle" where
  "Candle_fromJson U j c =
     and_then (readInt64 U j ''t'' (openTime c)) (\<lambda>t.
     and_then (readDouble U j ''o'' (cd_open c)) (\<lambda>o'.
     and_then (readDouble U j ''h'' (cd_high c)) (\<lambda>h.
     and_then (readDouble U j ''l'' (cd_low c)) (\<lambda>l.
     and_then (readDouble U j ''c'' (cd_close c)) (\<lambda>cl.
     and_then (readDouble U j ''v'' (baseVolume c)) (\<lambda>v.
     and_then (readDouble U j ''V'' (quoteVolume c)) (\<lambda>q.
     Inr (c\<lparr>openTime := t, cd_open := o', cd_high := h, cd_low := l, cd_close := cl,
            baseVolume := v, quoteVolume := q\<rparr>))))))))"

section \<open>Funding rates\<close>

record FundingRate =
  fr_marketId :: int
  fr_symbol :: string
  fundingRate :: double
  fundingTime :: int
  direction :: string
  exchange :: string

definition FundingRate_init :: FundingRate where
  "FundingRate_init = \<lparr>fr_marketId = -1, fr_symbol = '''', fundingRate = 0, fundingTime = 0,
     direction = '''', exchange = ''''\<rparr>"

text \<open>The \<open>rate\<close> member: a percent string is divided by 100 and takes its sign from
  \<open>direction\<close> (a text that is no number leaves the rate alone), a number is taken as it is.\<close>

definition read_rate :: "json \<Rightarrow> string \<Rightarrow> double \<Rightarrow> double" where
  "read_rate j dir r = (case jfind ''rate'' j of
     Some (JString s) \<Rightarrow> (case stod s of
         None \<Rightarrow> r
       | Some x \<Rightarrow> (let y = x / fl 100 in if dir = ''short'' then - y else y))
   | Some (JInt i) \<Rightarrow> of_integer i
   | Some (JFloat x) \<Rightarrow> x
   | _ \<Rightarrow> r)"

definition FundingRate_fromJson :: "json_utils \<Rightarrow> json \<Rightarrow> FundingRate \<Rightarrow> exn + FundingRate" where
  "FundingRate_fromJson U j f =
     and_then (readInt64 U j ''timestamp'' (fundingTime f)) (\<lambda>t.
     and_then (readString U j ''direction'' (direction f)) (\<lambda>d.
     and_then (readInt32 U j ''market_id'' (fr_marketId f)) (\<lambda>m.
     and_then (readString U j ''symbol'' (fr_symbol f)) (\<lambda>s.
     and_then (readString U j ''exchange'' (exchange f)) (\<lambda>e.
     Inr (f\<lparr>fundingTime := t, direction := d, fr_marketId := m, fr_symbol := s, exchange := e,
            fundingRate := read_rate j d (fundingRate f)\<rparr>))))))"

section \<open>Positions and balances\<close>

record Position =
  ps_marketId :: int
  ps_symbol :: string
  ps_sign :: int
  quantity :: double
  avgEntryPrice :: double
  positionValue :: double
  unrealizedPnl :: double
  realizedPnl :: double
  liquidationPrice :: double
  allocatedMargin :: double
  marginMode :: int

definition Position_init :: Position where
  "Position_init = \<lparr>ps_marketId = -1, ps_symbol = '''', ps_sign = 0, quantity = 0, avgEntryPrice = 0,
     positionValue = 0, unrealizedPnl = 0, realizedPnl = 0, liquidationPrice = 0,
     allocatedMargin = 0, marginMode = 0\<rparr>"

definition Position_fromJson :: "json_utils \<Rightarrow> json \<Rightarrow> Position \<Rightarrow> exn + Position" where
  "Position_fromJson U j p =
     and_then (readInt32 U j ''market_id'' (ps_marketId p)) (\<lambda>m.
     and_then (readString U j ''symbol'' (ps_symbol p)) (\<lambda>s.
     and_then (readInt32 U j ''sign'' (ps_sign p)) (\<lambda>sg.
     and_then (readStringAsDouble U j ''position'') (\<lambda>q.
     and_then (readStringAsDouble U j ''avg_entry_price'') (\<lambda>a.
     and_then (readStringAsDouble U j ''position_value'') (\<lambda>v.
     and_then (readStringAsDouble U j ''unrealized_pnl'') (\<lambda>u.
     and_then (readStringAsDouble U j ''realized_pnl'') (\<lambda>r.
     and_then (readStringAsDouble U j ''liquidation_price'') (\<lambda>l.
     and_then (readStringAsDouble U j ''allocated_margin'') (\<lambda>al.
     and_then (readInt32 U j ''margin_mode'' (marginMode p)) (\<lambda>mm.
     Inr (p\<lparr>ps_marketId := m, ps_symbol := s, ps_sign := sg, quantity := q, avgEntryPrice := a,
            positionValue := v, unrealizedPnl := u, realizedPnl := r, liquidationPrice := l,
            allocatedMargin := al, marginMode := mm\<rparr>))))))))))))"

record AccountAsset =
  aa_symbol :: string
  assetId :: int
  aa_balance :: double
  lockedBalance :: double
  marginBalance :: double

definition AccountAsset_init :: AccountAsset where
  "AccountAsset_init = \<lparr>aa_symbol = '''', assetId = -1, aa_balance = 0, lockedBalance = 0,
     marginBalance = 0\<rparr>"

definition AccountAsset_fromJson :: "json_utils \<Rightarrow> json \<Rightarrow> AccountAsset \<Rightarrow> exn + AccountAsset" where
  "AccountAsset_fromJson U j a =
     and_then (readString U j ''symbol'' (aa_symbol a)) (\<lambda>s.
     and_then (readInt32 U j ''asset_id'' (assetId a)) (\<lambda>i.
     and_then (readStringAsDouble U j ''balance'') (\<lambda>b.
     and_then (readStringAsDouble U j ''locked_balance'') (\<lambda>l.
     and_then (readStringAsDouble U j ''margin_balance'') (\<lambda>m.
     Inr (a\<lparr>aa_symbol := s, assetId := i, aa_balance := b, lockedBalance := l,
            marginBalance := m\<rparr>))))))"

record AccountBalance =
  ab_accountIndex :: int
  l1Address :: string
  availableBalance :: double
  collateral :: double
  totalAssetValue :: double
  crossInitialMarginRequirement :: double
  crossMaintenanceMarginRequirement :: double
  positions :: "Position list"
  assets :: "AccountAsset list"

definition AccountBalance_init :: AccountBalance where
  "AccountBalance_init = \<lparr>ab_accountIndex = -1, l1Address = '''', availableBalance = 0,
     collateral = 0, totalAssetValue = 0, crossInitialMarginRequirement = 0,
     crossMaintenanceMarginRequirement = 0, positions = [], assets = []\<rparr>"

text \<open>The elements of an array member, none when it is absent or not an array.\<close>

definition array_items :: "string \<Rightarrow> json \<Rightarrow> json list" where
  "array_items k j = (case jfind k j of Some (JArray xs) \<Rightarrow> xs | _ \<Rightarrow> [])"

definition AccountBalance_fromJson ::
  "json_utils \<Rightarrow> json \<Rightarrow> AccountBalance \<Rightarrow> exn + AccountBalance" where
  "AccountBalance_fromJson U j b =
     and_then (readInt32 U j ''account_index'' (ab_accountIndex b)) (\<lambda>i.
     and_then (readString U j ''l1_address'' (l1Address b)) (\<lambda>a.
     and_then (readStringAsDouble U j ''available_balance'') (\<lambda>av.
     and_then (readStringAsDouble U j ''collateral'') (\<lambda>co.
     and_then (readStringAsDouble U j ''total_asset_value'') (\<lambda>ta.
     and_then (readStringAsDouble U j ''cross_initial_margin_requirement'') (\<lambda>im.
     and_then (readStringAsDouble U j ''cross_maintenance_margin_requirement'') (\<lambda>mm.
     and_then (map_throw (\<lambda>x. Position_fromJson U x Position_init) (array_items ''positions'' j)) (\<lambda>ps.
     and_then (map_throw (\<lambda>x. AccountAsset_fromJson U x AccountAsset_init) (array_items ''assets'' j)) (\<lambda>as.
     Inr (b\<lparr>ab_accountIndex := i, l1Address := a, availableBalance := av, collateral := co,
            totalAssetValue := ta, crossInitialMarginRequirement := im,
            crossMaintenanceMarginRequirement := mm, positions := positions b @ ps,
            assets := assets b @ as\<rparr>))))))))))"

section \<open>Transaction results\<close>

record SendTxResult =
  st_code :: int
  st_message :: string
  st_txHash :: string

definition SendTxResult_init :: SendTxResult where
  "SendTxResult_init = \<lparr>st_code = 0, st_message = '''', st_txHash = ''''\<rparr>"

definition SendTxResult_fromJson :: "json_utils \<Rightarrow> json \<Rightarrow> SendTxResult \<Rightarrow> exn + SendTxResult" where
  "SendTxResult_fromJson U j r =
     and_then (readInt32 U j ''code'' (st_code r)) (\<lambda>c.
     and_then (readString U j ''message'' (st_message r)) (\<lambda>m.
     and_then (readString U j ''tx_hash'' (st_txHash r)) (\<lambda>h.
     Inr (r\<lparr>st_code := c, st_message := m, st_txHash := h\<rparr>))))"

section \<open>Markets\<close>

record PerpAsset =
  pa_symbol :: string
  pa_marketId :: int
  isolatedOnly :: bool
  forceReduceOnly :: bool
  marketType :: string
  pa_status :: string
  pa_sizeDecimals :: int
  pa_priceDecimals :: int
  takerFee :: double
  makerFee :: double
  minBaseAmount :: double
  minQuoteAmount :: double
  isDelisted :: bool

definition PerpAsset_init :: PerpAsset where
  "PerpAsset_init = \<lparr>pa_symbol = '''', pa_marketId = -1, isolatedOnly = False,
     forceReduceOnly = False, marketType = '''', pa_status = '''', pa_sizeDecimals = 0,
     pa_priceDecimals = 0, takerFee = 0, makerFee = 0, minBaseAmount = 0, minQuoteAmount = 0,
     isDelisted = False\<rparr>"

definition PerpAsset_config :: "json_utils \<Rightarrow> json \<Rightarrow> PerpAsset \<Rightarrow> exn + PerpAsset" where
  "PerpAsset_config U j a = (case jfind ''market_config'' j of
     Some mc \<Rightarrow>
       if is_object mc then
         and_then (readInt32 U mc ''market_margin_mode'' 0) (\<lambda>mode.
         and_then (readBool U mc ''force_reduce_only'' (forceReduceOnly a)) (\<lambda>fro.
         Inr (a\<lparr>isolatedOnly := (mode = 1), forceReduceOnly := fro\<rparr>)))
       else Inr a
   | None \<Rightarrow> Inr a)"

definition PerpAsset_fromJson :: "json_utils \<Rightarrow> json \<Rightarrow> PerpAsset \<Rightarrow> exn + PerpAsset" where
  "PerpAsset_fromJson U j a =
     and_then (readString U j ''symbol'' (pa_symbol a)) (\<lambda>s.
     and_then (readInt32 U j ''market_id'' (pa_marketId a)) (\<lambda>m.
     and_then (readString U j ''market_type'' (marketType a)) (\<lambda>ty.
     and_then (readString U j ''status'' (pa_status a)) (\<lambda>st.
     and_then (readInt32 U j ''supported_size_decimals'' (pa_sizeDecimals a)) (\<lambda>sd.
     and_then (readInt32 U j ''supported_price_decimals'' (pa_priceDecimals a)) (\<lambda>pd.
     and_then (readStringAsDoubleOr U j ''taker_fee'' (takerFee a)) (\<lambda>tf.
     and_then (readStringAsDoubleOr U j ''maker_fee'' (makerFee a)) (\<lambda>mf.
     and_then (readStringAsDoubleOr U j ''min_base_amount'' (minBaseAmount a)) (\<lambda>mb.
     and_then (readStringAsDoubleOr U j ''min_quote_amount'' (minQuoteAmount a)) (\<lambda>mq.
     PerpAsset_config U j (a\<lparr>pa_symbol := s, pa_marketId := m, marketType := ty, pa_status := st,
       pa_sizeDecimals := sd, pa_priceDecimals := pd, takerFee := tf, makerFee := mf,
       minBaseAmount := mb, minQuoteAmount := mq, isDelisted := (st \<noteq> ''active'')\<rparr>)))))))))))"

section \<open>Properties\<close>

lemma PerpAsset_config_frame:
  "PerpAsset_config U j a = Inr b \<Longrightarrow> pa_status b = pa_status a \<and> isDelisted b = isDelisted a
     \<and> pa_symbol b = pa_symbol a \<and> pa_marketId b = pa_marketId a"
  by (auto simp: PerpAsset_config_def and_then_Inr_iff split: option.splits if_splits)

lemma read_rate_string:
  "jfind ''rate'' j = Some (JString s) \<Longrightarrow> stod s = Some x \<Longrightarrow>
     read_rate j dir r = (if dir = ''short'' then - (x / fl 100) else x / fl 100)"
  by (simp add: read_rate_def Let_def)

lemma FundingRate_fromJson_rate:
  "FundingRate_fromJson U j f = Inr g \<Longrightarrow> fundingRate g = read_rate j (direction g) (fundingRate f)"
  by (auto simp: FundingRate_fromJson_def and_then_Inr_iff)

end
