(* ===== verification/Tls_Verify.thy ===== *)
theory Tls_Verify
  imports Json_Model
begin

text \<open>
  \<open>include/stonky/lighter/tls_verify.h\<close>: the client context every connection of the library is made
  from.  A fresh asio context verifies nothing; \<open>enableTlsPeerVerification\<close> loads the trust anchors and
  turns peer verification on.  What OpenSSL and Windows answer (whether the default paths load, which
  certificates the ROOT store holds, which of them decode) are parameters.
\<close>

datatype verify_mode = Verify_none | Verify_peer

record ssl_context =
  default_paths :: bool           \<comment> \<open>the default CA paths are loaded\<close>
  x509_store :: "string list"     \<comment> \<open>certificates added by hand\<close>
  verify_mode :: verify_mode

definition client_context :: ssl_context where
  "client_context = \<lparr>default_paths = False, x509_store = [], verify_mode = Verify_none\<rparr>"

text \<open>\<open>root_store\<close> is \<open>Some\<close> the DER certificates of the ROOT store on Windows when it could be opened, and
  \<open>None\<close> when it could not and on every other platform.\<close>

record 'w trust_lib =
  set_default_verify_paths :: "'w \<Rightarrow> (exn + unit) \<times> 'w"
  root_store :: "'w \<Rightarrow> string list option"
  d2i_X509 :: "string \<Rightarrow> string option"
  set_verify_mode :: "verify_mode \<Rightarrow> 'w \<Rightarrow> (exn + unit) \<times> 'w"

text \<open>The enumeration of the store: a certificate that does not decode is passed over.\<close>

fun import_root :: "'w trust_lib \<Rightarrow> string list \<Rightarrow> ssl_context \<Rightarrow> ssl_context" where
  "import_root T [] c = c"
| "import_root T (der # ders) c = import_root T ders (case d2i_X509 T der of
     Some x \<Rightarrow> c\<lparr>x509_store := x509_store c @ [x]\<rparr>
   | None \<Rightarrow> c)"

definition enableTlsPeerVerification ::
  "'w trust_lib \<Rightarrow> ssl_context \<Rightarrow> 'w \<Rightarrow> (exn + ssl_context) \<times> 'w" where
  "enableTlsPeerVerification T c =
     seq (set_default_verify_paths T) (\<lambda>_ w.
       let c1 = c\<lparr>default_paths := True\<rparr>;
           c2 = (case root_store T w of Some ders \<Rightarrow> import_root T ders c1 | None \<Rightarrow> c1)
       in seq (set_verify_mode T Verify_peer) (\<lambda>_. pure (Inr (c2\<lparr>verify_mode := Verify_peer\<rparr>))) w)"

lemma import_root_keeps [simp]:
  "default_paths (import_root T ders c) = default_paths c"
  "verify_mode (import_root T ders c) = verify_mode c"
  by (induction ders arbitrary: c) (auto split: option.splits)

lemma import_root_store:
  "x509_store (import_root T ders c) = x509_store c @ List.map_filter (d2i_X509 T) ders"
  by (induction ders arbitrary: c) (auto simp: map_filter_simps split: option.splits)

text \<open>A context that comes out verifies its peer against the default anchors and every certificate of the
  store that decodes.\<close>

definition trusting :: "'w trust_lib \<Rightarrow> 'w \<Rightarrow> ssl_context \<Rightarrow> bool" where
  "trusting T w c \<longleftrightarrow> verify_mode c = Verify_peer \<and> default_paths c \<and>
     x509_store c = (case root_store T w of Some ders \<Rightarrow> List.map_filter (d2i_X509 T) ders | None \<Rightarrow> [])"

lemma enableTls_trusting:
  assumes "enableTlsPeerVerification T client_context w = (Inr c, w')"
  shows "trusting T (snd (set_default_verify_paths T w)) c"
proof -
  obtain s1 where s1: "set_default_verify_paths T w = (Inr (), s1)"
    and c: "c = (case root_store T s1 of
       Some ders \<Rightarrow> import_root T ders (client_context\<lparr>default_paths := True\<rparr>)
     | None \<Rightarrow> client_context\<lparr>default_paths := True\<rparr>)\<lparr>verify_mode := Verify_peer\<rparr>"
    using assms unfolding enableTlsPeerVerification_def seq_Inr pure_def Let_def prod.inject sum.inject
    by (metis old.unit.exhaust)
  show ?thesis
    by (cases "root_store T s1") (simp_all add: s1 c trusting_def client_context_def import_root_store)
qed

end
