(* ===== verification/Http_Session.thy ===== *)
theory Http_Session
  imports Tls_Verify
begin

text \<open>
  \<open>src/lighter_http_session.cpp\<close>: the requests a session builds, and the blocking exchange that carries
  one (\<open>P::request\<close>) as the sequence of library calls it makes.  Boost.Asio, Boost.Beast, OpenSSL
  and the socket are the record \<open>tls_lib\<close>, one field for each call, which may throw and changes the
  world; \<open>tls_stream\<close> is what the calls have set on the stream so far.  \<open>call_log\<close> remembers each call
  with the stream it was made on.  \<open>queryStringFromJson\<close> of stonky-cpp-common is a parameter.
\<close>

section \<open>Requests and responses\<close>

datatype verb = GET | POST

record http_request =
  rq_verb :: verb
  rq_target :: string
  rq_host :: string
  rq_accept :: string
  rq_userAgent :: string
  rq_contentType :: "string option"
  rq_authorization :: "string option"
  rq_contentLength :: "nat option"
  rq_body :: string

record http_response =
  rs_status :: int
  rs_body :: string

definition API_URI :: string where
  "API_URI = ''mainnet.zklighter.elliot.ai''"

definition USER_AGENT :: string where
  "USER_AGENT = ''Mozilla/5.0 (X11; Linux x86_64) AppleWebKit/537.36 (KHTML, like Gecko) '' @
     ''Chrome/131.0.0.0 Safari/537.36''"

section \<open>The stream and the library\<close>

datatype sock_option = SO_RCVTIMEO | SO_SNDTIMEO

record tls_stream =
  context_of :: ssl_context
  verify_host :: "string option"               \<comment> \<open>the host of the verify callback\<close>
  sni_host :: "string option"
  resolved :: "string list"                    \<comment> \<open>the endpoints \<open>resolve\<close> returned\<close>
  peer :: "string option"                      \<comment> \<open>the endpoint connected to\<close>
  timeouts :: "(sock_option \<times> int) list"       \<comment> \<open>socket timeouts set, in s\<close>
  secured :: bool                              \<comment> \<open>the handshake is done\<close>
  sent :: "http_request list"

definition fresh_stream :: tls_stream where
  "fresh_stream = \<lparr>context_of = client_context, verify_host = None, sni_host = None, resolved = [], peer = None,
     timeouts = [], secured = False, sent = []\<rparr>"

record 'w tls_lib =
  trust :: "'w trust_lib"
  new_stream :: "ssl_context \<Rightarrow> 'w \<Rightarrow> (exn + unit) \<times> 'w"
  set_verify_callback :: "string \<Rightarrow> 'w \<Rightarrow> (exn + unit) \<times> 'w"
  set_tlsext_host_name :: "string \<Rightarrow> 'w \<Rightarrow> bool \<times> 'w"
  ERR_get_error :: "'w \<Rightarrow> exn \<times> 'w"
  resolve :: "string \<Rightarrow> string \<Rightarrow> 'w \<Rightarrow> (exn + string list) \<times> 'w"
  connect_any :: "string list \<Rightarrow> 'w \<Rightarrow> (exn + string) \<times> 'w"
  setsockopt :: "sock_option \<Rightarrow> int \<Rightarrow> 'w \<Rightarrow> bool \<times> 'w"
  tls_handshake :: "tls_stream \<Rightarrow> 'w \<Rightarrow> (exn + unit) \<times> 'w"
  http_write :: "tls_stream \<Rightarrow> http_request \<Rightarrow> 'w \<Rightarrow> (exn + unit) \<times> 'w"
  http_read :: "tls_stream \<Rightarrow> 'w \<Rightarrow> (exn + http_response) \<times> 'w"
  tls_shutdown :: "tls_stream \<Rightarrow> 'w \<Rightarrow> exn option \<times> 'w"

datatype tls_call =
    Enable_verification
  | New_stream
  | Verify_callback string
  | Host_name string
  | Resolve_host string string
  | Connect_any
  | Set_timeout sock_option int
  | Tls_handshake
  | Http_write http_request
  | Http_read
  | Tls_shutdown

record 'w conn =
  stream :: tls_stream
  call_log :: "(tls_call \<times> tls_stream) list"
  sw :: 'w

type_synonym ('w, 'a) conn_op = "'w conn \<Rightarrow> (exn + 'a) \<times> 'w conn"

text \<open>One library call: it is made on the stream as it is; when it returns, \<open>upd\<close> is what it leaves on
  the stream.\<close>

definition lib_call :: "tls_call \<Rightarrow> (tls_stream \<Rightarrow> 'w \<Rightarrow> (exn + 'a) \<times> 'w) \<Rightarrow>
    ('a \<Rightarrow> tls_stream \<Rightarrow> tls_stream) \<Rightarrow> ('w, 'a) conn_op" where
  "lib_call c f upd s = (let (r, w) = f (stream s) (sw s)
     in (r, s\<lparr>stream := (case r of Inl e \<Rightarrow> stream s | Inr x \<Rightarrow> upd x (stream s)),
              call_log := call_log s @ [(c, stream s)], sw := w\<rparr>))"

section \<open>\<open>P::request\<close>\<close>

definition setup_context :: "'w tls_lib \<Rightarrow> ('w, ssl_context) conn_op" where
  "setup_context L = lib_call Enable_verification (\<lambda>st. enableTlsPeerVerification (trust L) (context_of st))
     (\<lambda>c st. st\<lparr>context_of := c\<rparr>)"

definition setup_stream :: "'w tls_lib \<Rightarrow> string \<Rightarrow> ('w, unit) conn_op" where
  "setup_stream L uri =
     seq (lib_call New_stream (\<lambda>st. new_stream L (context_of st)) (\<lambda>_ st. st)) (\<lambda>_.
     seq (lib_call (Verify_callback uri) (\<lambda>_. set_verify_callback L uri) (\<lambda>_ st. st\<lparr>verify_host := Some uri\<rparr>)) (\<lambda>_.
     lib_call (Host_name uri)
       (\<lambda>_ w. let (ok, w1) = set_tlsext_host_name L uri w
              in if ok then (Inr (), w1) else let (e, w2) = ERR_get_error L w1 in (Inl e, w2))
       (\<lambda>_ st. st\<lparr>sni_host := Some uri\<rparr>)))"

definition connect_stream :: "'w tls_lib \<Rightarrow> string \<Rightarrow> ('w, string) conn_op" where
  "connect_stream L uri =
     seq (lib_call (Resolve_host uri ''443'') (\<lambda>_. resolve L uri ''443'') (\<lambda>eps st. st\<lparr>resolved := eps\<rparr>)) (\<lambda>_.
     lib_call Connect_any (\<lambda>st. connect_any L (resolved st)) (\<lambda>ep st. st\<lparr>peer := Some ep\<rparr>))"

text \<open>The two \<open>setsockopt\<close> calls; what they return is not looked at.\<close>

definition TIMEOUT_S :: int where "TIMEOUT_S = 15"

definition set_timeout :: "'w tls_lib \<Rightarrow> sock_option \<Rightarrow> ('w, bool) conn_op" where
  "set_timeout L opt = lib_call (Set_timeout opt TIMEOUT_S)
     (\<lambda>_ w. let (ok, w1) = setsockopt L opt TIMEOUT_S w in (Inr ok, w1))
     (\<lambda>ok st. if ok then st\<lparr>timeouts := timeouts st @ [(opt, TIMEOUT_S)]\<rparr> else st)"

text \<open>The exchange proper; the error \<open>shutdown\<close> reports is dropped, \<open>eof\<close> or not.\<close>

definition exchange_on :: "'w tls_lib \<Rightarrow> http_request \<Rightarrow> ('w, http_response) conn_op" where
  "exchange_on L req =
     seq (lib_call Tls_handshake (tls_handshake L) (\<lambda>_ st. st\<lparr>secured := True\<rparr>)) (\<lambda>_.
     seq (lib_call (Http_write req) (\<lambda>st. http_write L st req) (\<lambda>_ st. st\<lparr>sent := sent st @ [req]\<rparr>)) (\<lambda>_.
     seq (lib_call Http_read (http_read L) (\<lambda>_ st. st)) (\<lambda>response.
     seq (lib_call Tls_shutdown (\<lambda>st w. let (ec, w1) = tls_shutdown L st w in (Inr ec, w1)) (\<lambda>_ st. st)) (\<lambda>ec.
     pure (Inr response)))))"

definition https_exchange :: "'w tls_lib \<Rightarrow> string \<Rightarrow> http_request \<Rightarrow> ('w, http_response) conn_op" where
  "https_exchange L uri req =
     seq (setup_context L) (\<lambda>_.
     seq (setup_stream L uri) (\<lambda>_.
     seq (connect_stream L uri) (\<lambda>_.
     seq (set_timeout L SO_RCVTIMEO) (\<lambda>_.
     seq (set_timeout L SO_SNDTIMEO) (\<lambda>_.
     exchange_on L req)))))"

definition fresh_conn :: "'w \<Rightarrow> 'w conn" where
  "fresh_conn w = \<lparr>stream = fresh_stream, call_log = [], sw = w\<rparr>"

section \<open>\<open>HTTPSession\<close>\<close>

record 'w net =
  tls :: "'w tls_lib"
  queryString :: "json \<Rightarrow> string"

text \<open>The constructor: the host to talk to.\<close>

definition HTTPSession_uri :: "string \<Rightarrow> string" where
  "HTTPSession_uri host = (if host = [] then API_URI else host)"

definition auth_header :: "string \<Rightarrow> string option" where
  "auth_header a = (if a = [] then None else Some a)"

definition P_request :: "'w net \<Rightarrow> string \<Rightarrow> http_request \<Rightarrow> 'w \<Rightarrow> (exn + http_response) \<times> 'w" where
  "P_request N uri req w =
     (let (r, s) = https_exchange (tls N) uri (req\<lparr>rq_host := uri, rq_userAgent := USER_AGENT\<rparr>) (fresh_conn w)
      in (r, sw s))"

definition get_target :: "'w net \<Rightarrow> string \<Rightarrow> json \<Rightarrow> string" where
  "get_target N path query = (case query of
     JObject (kv # kvs) \<Rightarrow> path @ ''?'' @ queryString N query
   | _ \<Rightarrow> path)"

definition HTTPSession_get ::
  "'w net \<Rightarrow> string \<Rightarrow> string \<Rightarrow> json \<Rightarrow> string \<Rightarrow> 'w \<Rightarrow> (exn + http_response) \<times> 'w" where
  "HTTPSession_get N uri path query authHeader w = P_request N uri
     \<lparr>rq_verb = GET, rq_target = get_target N path query, rq_host = '''', rq_accept = ''*/*'',
      rq_userAgent = '''', rq_contentType = None, rq_authorization = auth_header authHeader,
      rq_contentLength = None, rq_body = ''''\<rparr> w"

definition HTTPSession_postForm ::
  "'w net \<Rightarrow> string \<Rightarrow> string \<Rightarrow> string \<Rightarrow> string \<Rightarrow> 'w \<Rightarrow> (exn + http_response) \<times> 'w" where
  "HTTPSession_postForm N uri path formBody authHeader w = P_request N uri
     \<lparr>rq_verb = POST, rq_target = path, rq_host = '''', rq_accept = ''*/*'', rq_userAgent = '''',
      rq_contentType = Some ''application/x-www-form-urlencoded'',
      rq_authorization = auth_header authHeader,
      rq_contentLength = Some (length formBody), rq_body = formBody\<rparr> w"

section \<open>The transport the client sees\<close>

text \<open>One exchange as a function of the finished request.\<close>

definition transport :: "'w net \<Rightarrow> http_request \<Rightarrow> 'w \<Rightarrow> (exn + http_response) \<times> 'w" where
  "transport N req w = (let (r, s) = https_exchange (tls N) (rq_host req) req (fresh_conn w) in (r, sw s))"

lemma P_request_transport:
  "P_request N uri req w = transport N (req\<lparr>rq_host := uri, rq_userAgent := USER_AGENT\<rparr>) w"
  by (simp add: P_request_def transport_def)

text \<open>A library on which nothing fails and only the exchange of the request touches the world: the one
  the examples of the client and the gateway run on.\<close>

definition direct_lib :: "(http_request \<Rightarrow> 'w \<Rightarrow> (exn + http_response) \<times> 'w) \<Rightarrow> 'w tls_lib" where
  "direct_lib f = \<lparr>trust = \<lparr>set_default_verify_paths = (\<lambda>w. (Inr (), w)), root_store = (\<lambda>w. None),
       d2i_X509 = (\<lambda>d. None), set_verify_mode = (\<lambda>m w. (Inr (), w))\<rparr>,
     new_stream = (\<lambda>c w. (Inr (), w)), set_verify_callback = (\<lambda>h w. (Inr (), w)),
     set_tlsext_host_name = (\<lambda>h w. (True, w)), ERR_get_error = (\<lambda>w. (Runtime_error [], w)),
     resolve = (\<lambda>h p w. (Inr [h], w)), connect_any = (\<lambda>eps w. (Inr (hd eps), w)),
     setsockopt = (\<lambda>opt t w. (True, w)), tls_handshake = (\<lambda>st w. (Inr (), w)),
     http_write = (\<lambda>st req w. (Inr (), w)), http_read = (\<lambda>st w. f (hd (sent st)) w),
     tls_shutdown = (\<lambda>st w. (None, w))\<rparr>"

definition direct_net ::
  "(http_request \<Rightarrow> 'w \<Rightarrow> (exn + http_response) \<times> 'w) \<Rightarrow> (json \<Rightarrow> string) \<Rightarrow> 'w net" where
  "direct_net f q = \<lparr>tls = direct_lib f, queryString = q\<rparr>"

lemmas exchange_defs = https_exchange_def setup_context_def setup_stream_def connect_stream_def set_timeout_def
  exchange_on_def enableTlsPeerVerification_def

lemma transport_direct [simp]: "transport (direct_net f q) = f"
  by (intro ext) (auto simp: transport_def direct_net_def direct_lib_def exchange_defs fresh_conn_def fresh_stream_def
      lib_call_def seq_def pure_def split: prod.splits sum.splits)

lemma queryString_direct [simp]: "queryString (direct_net f q) = q"
  by (simp add: direct_net_def)

end
