(* ===== verification/Http_Exchange.thy ===== *)
theory Http_Exchange
  imports Http_Session
begin

text \<open>
  What the blocking exchange of \<open>src/lighter_http_session.cpp\<close> guarantees whatever the libraries under it
  do: the calls it makes are a prefix of one plan, cut at the first call that throws; and the request is
  only written on a stream whose peer has been verified as the host of the session.
\<close>

section \<open>The order of the calls\<close>

definition request_plan :: "string \<Rightarrow> http_request \<Rightarrow> tls_call list" where
  "request_plan uri req = [Enable_verification, New_stream, Verify_callback uri, Host_name uri,
     Resolve_host uri ''443'', Connect_any, Set_timeout SO_RCVTIMEO 15, Set_timeout SO_SNDTIMEO 15,
     Tls_handshake, Http_write req, Http_read, Tls_shutdown]"

text \<open>\<open>follows cs m f\<close>: \<open>f\<close> makes the calls \<open>cs\<close> in order, all of them when it returns, and when it throws
  it stops within the first \<open>m\<close>.\<close>

definition follows :: "tls_call list \<Rightarrow> nat \<Rightarrow> ('w, 'a) conn_op \<Rightarrow> bool" where
  "follows cs m f \<longleftrightarrow> (\<forall>s. case f s of
     (Inr x, t) \<Rightarrow> map fst (call_log t) = map fst (call_log s) @ cs
   | (Inl e, t) \<Rightarrow> \<exists>k \<le> m. map fst (call_log t) = map fst (call_log s) @ take k cs)"

lemma followsI:
  assumes "\<And>s x t. f s = (Inr x, t) \<Longrightarrow> map fst (call_log t) = map fst (call_log s) @ cs"
    and "\<And>s e t. f s = (Inl e, t) \<Longrightarrow> \<exists>k \<le> m. map fst (call_log t) = map fst (call_log s) @ take k cs"
  shows "follows cs m f"
  using assms by (auto simp: follows_def split: prod.splits sum.splits)

lemma follows_Inr: "follows cs m f \<Longrightarrow> f s = (Inr x, t) \<Longrightarrow> map fst (call_log t) = map fst (call_log s) @ cs"
  unfolding follows_def by (drule spec[of _ s]) simp

lemma follows_Inl:
  "follows cs m f \<Longrightarrow> f s = (Inl e, t) \<Longrightarrow> \<exists>k \<le> m. map fst (call_log t) = map fst (call_log s) @ take k cs"
  unfolding follows_def by (drule spec[of _ s]) simp

lemma follows_call: "follows [c] 1 (lib_call c f upd)"
  by (rule followsI) (auto simp: lib_call_def Let_def split: prod.splits intro: exI[of _ "1 :: nat"])

lemma follows_safe_call:
  assumes "\<And>st w. isl (fst (f st w)) = False"
  shows "follows [c] 0 (lib_call c f upd)"
  using assms by (intro followsI) (auto simp: lib_call_def Let_def split: prod.splits dest: HOL.sym, metis fst_conv sum.disc(1))

lemma follows_seq:
  assumes f: "follows cs m f" "m \<le> length cs" and g: "\<And>x. follows ds n (g x)"
    and l: "m \<le> l" "length cs + n \<le> l"
  shows "follows (cs @ ds) l (seq f g)"
proof (rule followsI)
  fix s y t
  assume "seq f g s = (Inr y, t)"
  then obtain x u where "f s = (Inr x, u)" "g x u = (Inr y, t)" by (auto simp: seq_Inr)
  then show "map fst (call_log t) = map fst (call_log s) @ cs @ ds"
    using follows_Inr[OF f(1)] follows_Inr[OF g] by fastforce
next
  fix s e t
  assume "seq f g s = (Inl e, t)"
  then consider "f s = (Inl e, t)" | x u where "f s = (Inr x, u)" "g x u = (Inl e, t)"
    by (auto simp: seq_def split: prod.splits sum.splits)
  then show "\<exists>k \<le> l. map fst (call_log t) = map fst (call_log s) @ take k (cs @ ds)"
  proof cases
    case 1
    from follows_Inl[OF f(1) 1] obtain k where "k \<le> m" "map fst (call_log t) = map fst (call_log s) @ take k cs"
      by blast
    then show ?thesis using f(2) l(1) by (auto intro!: exI[of _ k])
  next
    case 2
    from follows_Inl[OF g 2(2)] obtain k where "k \<le> n" "map fst (call_log t) = map fst (call_log u) @ take k ds"
      by blast
    then show ?thesis using l(2) follows_Inr[OF f(1) 2(1)] by (auto intro!: exI[of _ "length cs + k"])
  qed
qed

lemma follows_pure: "follows cs m f \<Longrightarrow> follows cs m (seq f (\<lambda>x. pure (Inr (h x))))"
  by (rule followsI)
    (auto simp: seq_def pure_def split: prod.splits sum.splits dest: follows_Inr follows_Inl)

lemma follows_exchange: "follows (request_plan uri req) 11 (https_exchange L uri req)"
proof -
  let ?f = "exchange_on L req"
  have sd: "follows [Tls_shutdown] 0 (seq (lib_call Tls_shutdown (\<lambda>st w. let (ec, w1) = tls_shutdown L st w in (Inr ec, w1))
      (\<lambda>_ st. st)) (\<lambda>ec. pure (Inr y)))" for y :: http_response
    by (intro follows_pure follows_safe_call) (simp add: case_prod_unfold Let_def)
  have to: "follows [Set_timeout opt 15] 0 (set_timeout L opt)" for opt
    unfolding set_timeout_def TIMEOUT_S_def by (rule follows_safe_call) (simp add: case_prod_unfold Let_def)
  have ex: "follows ([Tls_handshake] @ [Http_write req] @ [Http_read] @ [Tls_shutdown]) 3 ?f"
    unfolding exchange_on_def
    by (rule follows_seq[OF follows_call] follows_seq[OF follows_call, where n = 2]
        follows_seq[OF follows_call, where n = 1] follows_seq[OF follows_call, where n = 0] sd | simp)+
  have st: "follows ([New_stream] @ [Verify_callback uri] @ [Host_name uri]) 3 (setup_stream L uri)"
    unfolding setup_stream_def
    by (rule follows_seq[OF follows_call, where n = 2] follows_seq[OF follows_call, where n = 1] follows_call | simp)+
  have co: "follows ([Resolve_host uri ''443''] @ [Connect_any]) 2 (connect_stream L uri)"
    unfolding connect_stream_def
    by (rule follows_seq[OF follows_call, where n = 1] follows_call | simp)+
  have cx: "follows [Enable_verification] 1 (setup_context L)"
    unfolding setup_context_def by (rule follows_call)
  have "follows ([Enable_verification] @ ([New_stream] @ [Verify_callback uri] @ [Host_name uri]) @
      ([Resolve_host uri ''443''] @ [Connect_any]) @ [Set_timeout SO_RCVTIMEO 15] @ [Set_timeout SO_SNDTIMEO 15] @
      ([Tls_handshake] @ [Http_write req] @ [Http_read] @ [Tls_shutdown])) 11 (https_exchange L uri req)"
    unfolding https_exchange_def
    apply (rule follows_seq[OF cx, where n = 10]; simp?)
    apply (rule follows_seq[OF st, where n = 7, simplified]; simp?)
    apply (rule follows_seq[OF co, where n = 5, simplified]; simp?)
    apply (rule follows_seq[OF to, where n = 4, simplified]; simp?)
    apply (rule follows_seq[OF to, where n = 3, simplified]; simp?)
    using ex by simp
  then show ?thesis by (simp add: request_plan_def)
qed


section \<open>Who the request is written to\<close>

text \<open>\<open>guards G P f Q\<close>: started on a stream with \<open>P\<close>, every call \<open>f\<close> makes satisfies \<open>G\<close>, and when it
  returns the stream satisfies \<open>Q\<close>.\<close>

definition guards :: "(tls_call \<times> tls_stream \<Rightarrow> bool) \<Rightarrow> (tls_stream \<Rightarrow> bool) \<Rightarrow> ('w, 'a) conn_op \<Rightarrow>
    (tls_stream \<Rightarrow> bool) \<Rightarrow> bool" where
  "guards G P f Q \<longleftrightarrow> (\<forall>s r t. f s = (r, t) \<and> P (stream s) \<and> list_all G (call_log s) \<longrightarrow>
     list_all G (call_log t) \<and> (isl r \<or> Q (stream t)))"

lemma guards_call:
  assumes "\<And>st. P st \<Longrightarrow> G (c, st)" "\<And>st w x w'. P st \<Longrightarrow> f st w = (Inr x, w') \<Longrightarrow> Q (upd x st)"
  shows "guards G P (lib_call c f upd) Q"
  using assms by (auto simp: guards_def lib_call_def Let_def split: prod.splits sum.splits)

lemma guardsD:
  "guards G P f Q \<Longrightarrow> f s = (r, t) \<Longrightarrow> P (stream s) \<Longrightarrow> list_all G (call_log s) \<Longrightarrow>
   list_all G (call_log t) \<and> (isl r \<or> Q (stream t))"
  unfolding guards_def by blast

lemma guards_seq:
  assumes "guards G P f Q" "\<And>x. guards G Q (g x) R"
  shows "guards G P (seq f g) R"
  unfolding guards_def
proof (intro allI impI, elim conjE)
  fix s r t
  assume r: "seq f g s = (r, t)" and s: "P (stream s)" "list_all G (call_log s)"
  obtain a u where u: "f s = (a, u)" by fastforce
  note f = guardsD[OF assms(1) u s]
  show "list_all G (call_log t) \<and> (isl r \<or> R (stream t))"
  proof (cases a)
    case (Inl e)
    then show ?thesis using f r u by (auto simp: seq_def)
  next
    case (Inr x)
    then have "g x u = (r, t)" using r u by (simp add: seq_def)
    then show ?thesis using f Inr guardsD[OF assms(2)] by auto
  qed
qed

lemma guards_pure: "guards G P (pure r) P"
  by (simp add: guards_def pure_def)

text \<open>What the set-up leaves on the stream.\<close>

definition verified_for :: "'w trust_lib \<Rightarrow> string \<Rightarrow> tls_stream \<Rightarrow> bool" where
  "verified_for T uri st \<longleftrightarrow> (\<exists>w. trusting T w (context_of st)) \<and> verify_host st = Some uri \<and> sni_host st = Some uri"

lemma guards_mono:
  "guards G P f Q \<Longrightarrow> (\<And>st. P' st \<Longrightarrow> P st) \<Longrightarrow> (\<And>st. Q st \<Longrightarrow> Q' st) \<Longrightarrow> guards G P' f Q'"
  unfolding guards_def by blast

lemma guards_exchange:
  assumes "\<And>st. verified_for (trust L) uri st \<Longrightarrow> peer st \<noteq> None \<Longrightarrow>
      (\<exists>st0 w w'. tls_handshake L st0 w = (Inr (), w') \<and> st = st0\<lparr>secured := True\<rparr>) \<Longrightarrow> G (Http_write req, st)"
    and "\<And>c st. (\<And>r. c \<noteq> Http_write r) \<Longrightarrow> G (c, st)"
  shows "guards G (\<lambda>st. st = fresh_stream) (https_exchange L uri req) (\<lambda>_. True)"
proof -
  let ?T = "trust L"
  let ?V = "verified_for ?T uri"
  let ?C = "\<lambda>st. ?V st \<and> peer st \<noteq> None"
  let ?H = "\<lambda>st. ?C st \<and> (\<exists>st0 w w'. tls_handshake L st0 w = (Inr (), w') \<and> st = st0\<lparr>secured := True\<rparr>)"
  have cx: "guards G (\<lambda>st. st = fresh_stream) (setup_context L) (\<lambda>st. \<exists>w. trusting ?T w (context_of st))"
    unfolding setup_context_def
    by (rule guards_call) (auto simp: assms(2) fresh_stream_def dest: enableTls_trusting)
  have st: "guards G (\<lambda>st. \<exists>w. trusting ?T w (context_of st)) (setup_stream L uri) ?V"
    unfolding setup_stream_def
    by (rule guards_seq guards_call[where Q = "\<lambda>st. \<exists>w. trusting ?T w (context_of st)"]
        guards_call[where Q = "\<lambda>st. (\<exists>w. trusting ?T w (context_of st)) \<and> verify_host st = Some uri"]
        guards_call | auto simp: assms(2) verified_for_def)+
  have co: "guards G ?V (connect_stream L uri) ?C"
    unfolding connect_stream_def
    by (rule guards_seq guards_call[where Q = ?V] guards_call | auto simp: assms(2) verified_for_def)+
  have to: "guards G ?C (set_timeout L opt) ?C" for opt
    unfolding set_timeout_def by (rule guards_call) (auto simp: assms(2) verified_for_def)
  have ex: "guards G ?C (exchange_on L req) (\<lambda>_. True)"
    unfolding exchange_on_def
    apply (rule guards_seq[where Q = ?H])
     apply (rule guards_call)
      apply (simp add: assms(2))
     apply (auto simp: verified_for_def)[1]
    apply (rule guards_seq[where Q = "\<lambda>_. True"])
     apply (rule guards_call)
      apply (simp add: assms(1))
     apply simp
    apply (rule guards_seq[where Q = "\<lambda>_. True"] guards_call guards_pure | simp add: assms(2))+
    done
  show ?thesis
    unfolding https_exchange_def by (rule cx st co to ex guards_seq)+
qed

text \<open>What the handshake of OpenSSL promises: on a stream that verifies its peer and checks a host, it only
  succeeds with an endpoint that holds a certificate of that host.\<close>

definition authentic_lib :: "'w tls_lib \<Rightarrow> (string \<Rightarrow> string \<Rightarrow> bool) \<Rightarrow> bool" where
  "authentic_lib L owns \<longleftrightarrow> (\<forall>st w w' h ep. tls_handshake L st w = (Inr (), w') \<and>
     verify_mode (context_of st) = Verify_peer \<and> verify_host st = Some h \<and> peer st = Some ep \<longrightarrow> owns h ep)"

text \<open>Property C9: no request leaves for an impostor.  Whenever the exchange writes to the network it writes
  the request it was given, on a stream whose peer verification is on with the trust anchors loaded, whose SNI is
  the session's host, and whose other end has proved, in a handshake that has succeeded, that it owns that host.\<close>

theorem request_reaches_verified_host:
  assumes "authentic_lib L owns"
    and "(Http_write r, st) \<in> set (call_log (snd (https_exchange L uri req (fresh_conn w))))"
  shows "r = req \<and> sni_host st = Some uri \<and> (\<exists>v. trusting (trust L) v (context_of st)) \<and>
    (\<exists>ep. peer st = Some ep \<and> owns uri ep)"
proof -
  define G :: "tls_call \<times> tls_stream \<Rightarrow> bool" where "G = (\<lambda>(c, st). \<forall>r. c = Http_write r \<longrightarrow> r = req \<and>
    sni_host st = Some uri \<and> (\<exists>v. trusting (trust L) v (context_of st)) \<and> (\<exists>ep. peer st = Some ep \<and> owns uri ep))"
  have "guards G (\<lambda>st. st = fresh_stream) (https_exchange L uri req) (\<lambda>_. True)"
  proof (rule guards_exchange)
    fix st
    assume v: "verified_for (trust L) uri st" and p: "peer st \<noteq> None"
      and "\<exists>st0 w w'. tls_handshake L st0 w = (Inr (), w') \<and> st = st0\<lparr>secured := True\<rparr>"
    then obtain st0 v' v'' where h: "tls_handshake L st0 v' = (Inr (), v'')" "st = st0\<lparr>secured := True\<rparr>"
      by blast
    obtain ep where ep: "peer st = Some ep" using p by blast
    have "verify_mode (context_of st0) = Verify_peer" "verify_host st0 = Some uri" "peer st0 = Some ep"
      using v ep h(2) by (auto simp: verified_for_def trusting_def)
    with assms(1) h(1) have "owns uri ep" unfolding authentic_lib_def by blast
    then show "G (Http_write req, st)" using v ep by (simp add: G_def verified_for_def)
  qed (simp add: G_def)
  from guardsD[OF this prod.collapse[THEN HOL.sym]] have
    "list_all G (call_log (snd (https_exchange L uri req (fresh_conn w))))"
    by (simp add: fresh_conn_def)
  with assms(2) show ?thesis by (auto simp: list_all_iff G_def)
qed

text \<open>An example: a resolver that may have been poisoned, and one endpoint that owns the host.\<close>

definition pinned_lib :: "string list \<Rightarrow> unit tls_lib" where
  "pinned_lib eps = (direct_lib (\<lambda>r w. (Inr \<lparr>rs_status = 200, rs_body = ''{}''\<rparr>, w)))
     \<lparr>resolve := (\<lambda>h p w. (Inr eps, w)),
      tls_handshake := (\<lambda>st w. (if verify_mode (context_of st) = Verify_peer \<and> verify_host st \<noteq> None \<and>
          peer st \<noteq> Some ''10.0.0.1'' then Inl (Runtime_error ''certificate verify failed'') else Inr (), w))\<rparr>"

definition plain_get :: http_request where
  "plain_get = \<lparr>rq_verb = GET, rq_target = ''/'', rq_host = API_URI, rq_accept = ''*/*'', rq_userAgent = USER_AGENT,
     rq_contentType = None, rq_authorization = None, rq_contentLength = None, rq_body = []\<rparr>"

definition owned_stream :: tls_stream where
  "owned_stream = \<lparr>context_of = \<lparr>default_paths = True, x509_store = [], verify_mode = Verify_peer\<rparr>,
     verify_host = Some API_URI, sni_host = Some API_URI, resolved = [''10.0.0.1''], peer = Some ''10.0.0.1'',
     timeouts = [(SO_RCVTIMEO, 15), (SO_SNDTIMEO, 15)], secured = True, sent = []\<rparr>"

lemma pinned_authentic: "authentic_lib (pinned_lib eps) (\<lambda>h ep. ep = ''10.0.0.1'')"
  by (auto simp: authentic_lib_def pinned_lib_def split: if_splits)

lemma pinned_writes: "(Http_write plain_get, owned_stream) \<in>
    set (call_log (snd (https_exchange (pinned_lib [''10.0.0.1'']) API_URI plain_get (fresh_conn ()))))"
  by (simp add: pinned_lib_def direct_lib_def exchange_defs fresh_conn_def fresh_stream_def TIMEOUT_S_def
      client_context_def lib_call_def seq_def pure_def owned_stream_def)

text \<open>A poisoned answer stops at the handshake: nothing is written.\<close>

lemma poisoned_stops: "map fst (call_log (snd (https_exchange (pinned_lib [''6.6.6.6'']) API_URI plain_get (fresh_conn ())))) =
    take 9 (request_plan API_URI plain_get)"
  by (simp add: pinned_lib_def direct_lib_def exchange_defs fresh_conn_def fresh_stream_def TIMEOUT_S_def
      client_context_def lib_call_def seq_def pure_def request_plan_def)

theorem request_reaches_verified_host_witness:
  "sni_host owned_stream = Some API_URI \<and>
   (\<exists>ep. peer owned_stream = Some ep \<and> ep = ''10.0.0.1'')"
  using request_reaches_verified_host[OF pinned_authentic pinned_writes] by simp

end
