(* ===== verification/Ws_Session.thy ===== *)
theory Ws_Session
  imports Json_Model
begin

text \<open>
  \<open>src/lighter_ws_session.cpp\<close>: one WebSocket connection with its outbound write pump, its
  subscription bookkeeping, the connect chain, the keepalive timer and the reconnect timer.

  The private state \<open>WebSocketSession::P\<close> is the record \<open>ws\<close>.  Every member function and
  every completion handler is a function from the state to the new state and the list of the
  asynchronous operations, timer operations and posts it makes, in order (type \<open>act\<close>).  What
  the environment supplies to one handler (the error code, the clock, the bytes read, whether the
  stream reports itself open, what the data callback does, the token provider) is the record
  \<open>event\<close>.  Log lines keep their severity only.

  \<open>sys\<close> adds the operations in flight and the tasks posted to the strand, and
  \<open>ws_step\<close> lets them complete in any order that Asio allows: a socket operation completes with
  or without error, a timer wait completes with an error only after it was cancelled, posted tasks
  run first in, first out, and the public member functions may be called at any time.
\<close>

section \<open>State\<close>

text \<open>Asynchronous operations carry the generation their handler captured.  \<open>api\<close> is a call of
  \<open>subscribe\<close> or \<open>unsubscribe\<close>, by the application or by the data callback; \<open>Called\<close>
  records it in the trace.\<close>

datatype op =
    Resolve int
  | Connect int
  | TlsHandshake int
  | Handshake int
  | Read int
  | Write int
  | PingWait int
  | ReconnectWait int

datatype task = Start_connect | Flush_topics | Send_unsubscribe string | Close_by_user

datatype severity = Info | Warning | Error

datatype api = Api_subscribe string | Api_unsubscribe string

datatype act =
    Start op
  | Start_write int string
  | Cancel_ping
  | Cancel_reconnect
  | Cancel_resolver
  | Close_socket
  | Async_close
  | Post task
  | Deliver json
  | Log severity
  | Reconnect_in int
  | Called api

record ws =
  hasSocket :: bool
  outboundQueue :: "string list"
  writeInFlight :: bool
  writeBuffer :: string
  subscriptions :: "string list"
  pendingTopics :: "string list"
  reconnectDelayS :: int
  generation :: int
  connected :: bool
  ready :: bool
  connectedFlag :: bool
  reconnectScheduled :: bool
  userClosed :: bool
  lastActivity :: int

definition ws_init :: ws where
  "ws_init = \<lparr>hasSocket = False, outboundQueue = [], writeInFlight = False, writeBuffer = '''',
     subscriptions = [], pendingTopics = [], reconnectDelayS = 1, generation = 0,
     connected = False, ready = False, connectedFlag = False, reconnectScheduled = False,
     userClosed = False, lastActivity = 0\<rparr>"

definition PING_INTERVAL_IN_S :: int where "PING_INTERVAL_IN_S = 15"
definition ACTIVITY_TIMEOUT_IN_S :: int where "ACTIVITY_TIMEOUT_IN_S = 45"
definition RECONNECT_DELAY_MAX_IN_S :: int where "RECONNECT_DELAY_MAX_IN_S = 30"

record event =
  ev_error :: bool                     \<comment> \<open>the handler's error code is set\<close>
  ev_now :: int                        \<comment> \<open>\<open>steady_clock::now()\<close>, in ns\<close>
  ev_raw :: string                     \<comment> \<open>the bytes of the message read\<close>
  ev_open :: bool                      \<comment> \<open>\<open>ws->is_open()\<close>\<close>
  ev_sni :: bool                       \<comment> \<open>\<open>SSL_set_tlsext_host_name\<close> succeeded\<close>
  ev_calls :: "api list"               \<comment> \<open>the calls the data callback makes\<close>
  ev_throws :: bool                    \<comment> \<open>the data callback then throws\<close>
  ev_provider :: "(string \<Rightarrow> exn + string) option"  \<comment> \<open>the auth token provider\<close>

text \<open>The JSON library: \<open>parse\<close> and \<open>dump\<close>.\<close>

record codec =
  parse :: "string \<Rightarrow> exn + json"
  dump :: "json \<Rightarrow> exn + string"

section \<open>Outbound write pump\<close>

definition enqueueOp :: "string \<Rightarrow> ws \<Rightarrow> ws" where
  "enqueueOp payload s = s\<lparr>outboundQueue := outboundQueue s @ [payload]\<rparr>"

definition pump :: "bool \<Rightarrow> ws \<Rightarrow> ws \<times> act list" where
  "pump isOpen s =
     (if writeInFlight s \<or> \<not> connected s \<or> \<not> hasSocket s \<or> \<not> isOpen then (s, [])
      else (case outboundQueue s of
          [] \<Rightarrow> (s, [])
        | payload # rest \<Rightarrow>
            (s\<lparr>writeBuffer := payload, outboundQueue := rest, writeInFlight := True\<rparr>,
             [Start_write (generation s) payload])))"

section \<open>Subscription bookkeeping\<close>

definition subscribeMsg ::
  "codec \<Rightarrow> (string \<Rightarrow> exn + string) option \<Rightarrow> string \<Rightarrow> exn + string" where
  "subscribeMsg C provider channel =
     and_then (case provider of
         None \<Rightarrow> Inr []
       | Some f \<Rightarrow> and_then (f channel) (\<lambda>token.
           Inr (if token = [] then [] else [(''auth'', JString token)])))
     (\<lambda>auth. dump C (JObject (auth @ [(''channel'', JString channel), (''type'', JString ''subscribe'')])))"

definition unsubscribeMsg :: "codec \<Rightarrow> string \<Rightarrow> exn + string" where
  "unsubscribeMsg C channel =
     dump C (JObject [(''channel'', JString channel), (''type'', JString ''unsubscribe'')])"

definition addTopic :: "string \<Rightarrow> ws \<Rightarrow> ws" where
  "addTopic channel s =
     (if channel \<in> set (subscriptions s) \<or> channel \<in> set (pendingTopics s) then s
      else s\<lparr>pendingTopics := pendingTopics s @ [channel]\<rparr>)"

text \<open>\<open>std::erase(pendingTopics, channel)\<close> removes every occurrence,
  \<open>subscriptions.erase(it)\<close> the first.\<close>

definition removeTopic :: "string \<Rightarrow> ws \<Rightarrow> bool \<times> ws" where
  "removeTopic channel s =
     (let s1 = s\<lparr>pendingTopics := filter (\<lambda>c. c \<noteq> channel) (pendingTopics s)\<rparr> in
      if channel \<in> set (subscriptions s1)
      then (True, s1\<lparr>subscriptions := remove1 channel (subscriptions s1)\<rparr>)
      else (False, s1))"

definition isSubscribed :: "ws \<Rightarrow> string \<Rightarrow> bool" where
  "isSubscribed s channel \<longleftrightarrow> channel \<in> set (subscriptions s) \<or> channel \<in> set (pendingTopics s)"

text \<open>The second loop of \<open>flushTopics\<close>: \<open>enqueueOp(subscribeMsg(channel))\<close> for each channel,
  left by the first exception.\<close>

fun enqueue_subscribes ::
  "codec \<Rightarrow> (string \<Rightarrow> exn + string) option \<Rightarrow> string list \<Rightarrow> ws \<Rightarrow> (exn + unit) \<times> ws" where
  "enqueue_subscribes C p [] s = (Inr (), s)"
| "enqueue_subscribes C p (c # cs) s = (case subscribeMsg C p c of
     Inl e \<Rightarrow> (Inl e, s)
   | Inr m \<Rightarrow> enqueue_subscribes C p cs (enqueueOp m s))"

definition flushTopics :: "codec \<Rightarrow> event \<Rightarrow> ws \<Rightarrow> (exn + unit) \<times> ws \<times> act list" where
  "flushTopics C e s =
     (if \<not> connected s \<or> \<not> ready s then (Inr (), s, [])
      else (let toSend = pendingTopics s;
                s1 = s\<lparr>subscriptions := subscriptions s @ toSend, pendingTopics := []\<rparr>;
                (r, s2) = enqueue_subscribes C (ev_provider e) toSend s1
            in case r of
                 Inl x \<Rightarrow> (Inl x, s2, [])
               | Inr _ \<Rightarrow> (let (s3, acts) = pump (ev_open e) s2 in (Inr (), s3, acts))))"

text \<open>The public \<open>subscribe\<close> and \<open>unsubscribe\<close>; the lambdas they post are the tasks.\<close>

definition subscribe :: "string \<Rightarrow> ws \<Rightarrow> ws \<times> act list" where
  "subscribe channel s = (addTopic channel s, [Post Flush_topics])"

definition unsubscribe :: "string \<Rightarrow> ws \<Rightarrow> ws \<times> act list" where
  "unsubscribe channel s =
     (let (found, s1) = removeTopic channel s in
      if found then (s1, [Post (Send_unsubscribe channel)]) else (s1, []))"

definition send_unsubscribe :: "codec \<Rightarrow> event \<Rightarrow> string \<Rightarrow> ws \<Rightarrow> (exn + unit) \<times> ws \<times> act list" where
  "send_unsubscribe C e channel s =
     (if \<not> connected s then (Inr (), s, [])
      else (case unsubscribeMsg C channel of
          Inl x \<Rightarrow> (Inl x, s, [])
        | Inr m \<Rightarrow> (let (s1, acts) = pump (ev_open e) (enqueueOp m s) in (Inr (), s1, acts))))"

fun api_call :: "api \<Rightarrow> ws \<Rightarrow> ws \<times> act list" where
  "api_call (Api_subscribe c) s =
     (let (s1, as) = subscribe c s in (s1, Called (Api_subscribe c) # as))"
| "api_call (Api_unsubscribe c) s =
     (let (s1, as) = unsubscribe c s in (s1, Called (Api_unsubscribe c) # as))"

fun api_calls :: "api list \<Rightarrow> ws \<Rightarrow> ws \<times> act list" where
  "api_calls [] s = (s, [])"
| "api_calls (c # cs) s =
     (let (s1, as) = api_call c s; (s2, bs) = api_calls cs s1 in (s2, as @ bs))"

section \<open>Error, reconnect, close\<close>

definition handleError :: "int \<Rightarrow> ws \<Rightarrow> ws \<times> act list" where
  "handleError gen s =
     (if gen \<noteq> generation s \<or> reconnectScheduled s then (s, [])
      else if userClosed s then (s, [Log Error])
      else
        (s\<lparr>reconnectScheduled := True, connected := False, ready := False, connectedFlag := False,
           writeInFlight := False, outboundQueue := [],
           pendingTopics := subscriptions s @ pendingTopics s, subscriptions := [],
           reconnectDelayS := min (reconnectDelayS s * 2) RECONNECT_DELAY_MAX_IN_S\<rparr>,
         [Log Error, Cancel_ping] @ (if hasSocket s then [Close_socket] else []) @
         [Log Warning, Cancel_reconnect, Reconnect_in (reconnectDelayS s), Start (ReconnectWait gen)]))"

definition startConnect :: "ws \<Rightarrow> ws \<times> act list" where
  "startConnect s =
     (if userClosed s then (s, [])
      else (let g = generation s + 1 in
        (s\<lparr>generation := g, connected := False, ready := False, connectedFlag := False,
           writeInFlight := False, hasSocket := True\<rparr>,
         [Start (Resolve g)])))"

text \<open>The handler of the reconnect timer.\<close>

definition onReconnectTimer :: "int \<Rightarrow> event \<Rightarrow> ws \<Rightarrow> ws \<times> act list" where
  "onReconnectTimer gen e s =
     (if gen \<noteq> generation s then (s, [])
      else (let s1 = s\<lparr>reconnectScheduled := False\<rparr> in
        if ev_error e \<or> userClosed s1 then (s1, []) else startConnect s1))"

definition closeByUser :: "event \<Rightarrow> ws \<Rightarrow> ws \<times> act list" where
  "closeByUser e s =
     (if userClosed s then (s, [])
      else (s\<lparr>userClosed := True\<rparr>,
        [Cancel_ping, Cancel_reconnect, Cancel_resolver] @
        (if \<not> hasSocket s then []
         else if ev_open e \<and> \<not> writeInFlight s then [Async_close] else [Close_socket])))"

section \<open>Connect chain\<close>

definition onResolve :: "int \<Rightarrow> event \<Rightarrow> ws \<Rightarrow> ws \<times> act list" where
  "onResolve gen e s =
     (if gen \<noteq> generation s then (s, [])
      else if ev_error e then handleError gen s
      else (s, [Start (Connect gen)]))"

definition onConnect :: "int \<Rightarrow> event \<Rightarrow> ws \<Rightarrow> ws \<times> act list" where
  "onConnect gen e s =
     (if gen \<noteq> generation s then (s, [])
      else if ev_error e then handleError gen s
      else if \<not> ev_sni e then handleError gen s
      else (s, [Start (TlsHandshake gen)]))"

definition onSSLHandshake :: "int \<Rightarrow> event \<Rightarrow> ws \<Rightarrow> ws \<times> act list" where
  "onSSLHandshake gen e s =
     (if gen \<noteq> generation s then (s, [])
      else if ev_error e then handleError gen s
      else (s, [Start (Handshake gen)]))"

definition onHandshake :: "int \<Rightarrow> event \<Rightarrow> ws \<Rightarrow> ws \<times> act list" where
  "onHandshake gen e s =
     (if gen \<noteq> generation s then (s, [])
      else if ev_error e then handleError gen s
      else if userClosed s then (s, [])
      else (s\<lparr>connected := True, lastActivity := ev_now e\<rparr>,
            [Cancel_ping, Start (PingWait gen), Start (Read gen)]))"

section \<open>Inbound\<close>

definition dispatch :: "codec \<Rightarrow> event \<Rightarrow> json \<Rightarrow> ws \<Rightarrow> (exn + unit) \<times> ws \<times> act list" where
  "dispatch C e j s =
     (let type = jstring_or_empty ''type'' j in
      if type = ''connected'' then
        (let (r, s1, acts) = flushTopics C e
               (s\<lparr>ready := True, connectedFlag := True, reconnectDelayS := 1\<rparr>)
         in (r, s1, Log Info # acts))
      else if type = ''ping'' then
        (case dump C (JObject [(''type'', JString ''pong'')]) of
           Inl x \<Rightarrow> (Inl x, s, [])
         | Inr m \<Rightarrow> (let (s1, acts) = pump (ev_open e) (enqueueOp m s) in (Inr (), s1, acts)))
      else if type = ''pong'' then (Inr (), s, [])
      else (let (s1, acts) = api_calls (ev_calls e) s in
        (Inr (), s1, Deliver j # acts @ (if ev_throws e then [Log Error] else []))))"

text \<open>The body of \<open>onRead\<close>'s try block after the parse, and its catch clause: a JSON exception
  goes to \<open>handleError\<close>, any other leaves the handler.\<close>

definition after_dispatch :: "int \<Rightarrow> ws \<Rightarrow> ws \<times> act list" where
  "after_dispatch gen s =
     (if gen \<noteq> generation s \<or> reconnectScheduled s \<or> \<not> connected s then (s, [])
      else (s\<lparr>reconnectDelayS := (if ready s then 1 else reconnectDelayS s)\<rparr>, [Start (Read gen)]))"

definition catch_json :: "int \<Rightarrow> exn \<Rightarrow> ws \<Rightarrow> act list \<Rightarrow> (exn + unit) \<times> ws \<times> act list" where
  "catch_json gen x s acts = (case x of
     Json_exception _ \<Rightarrow> (let (s1, bs) = handleError gen s in (Inr (), s1, acts @ bs))
   | Runtime_error _ \<Rightarrow> (Inl x, s, acts))"

definition onRead :: "codec \<Rightarrow> int \<Rightarrow> event \<Rightarrow> ws \<Rightarrow> (exn + unit) \<times> ws \<times> act list" where
  "onRead C gen e s =
     (if gen \<noteq> generation s then (Inr (), s, [])
      else if ev_error e then (let (s1, acts) = handleError gen s in (Inr (), s1, acts))
      else (let s1 = s\<lparr>lastActivity := ev_now e\<rparr> in
        case parse C (ev_raw e) of
          Inl x \<Rightarrow> catch_json gen x s1 []
        | Inr j \<Rightarrow>
            (let (r, s2, acts) = (if is_object j then dispatch C e j s1 else (Inr (), s1, []))
             in case r of
                  Inl x \<Rightarrow> catch_json gen x s2 acts
                | Inr _ \<Rightarrow> (let (s3, bs) = after_dispatch gen s2 in (Inr (), s3, acts @ bs)))))"

section \<open>Write completion and keepalive\<close>

definition onWrite :: "int \<Rightarrow> event \<Rightarrow> ws \<Rightarrow> ws \<times> act list" where
  "onWrite gen e s =
     (if gen \<noteq> generation s then (s, [])
      else (let s1 = s\<lparr>writeInFlight := False\<rparr> in
        if ev_error e then handleError gen s1 else pump (ev_open e) s1))"

definition silent_seconds :: "event \<Rightarrow> ws \<Rightarrow> int" where
  "silent_seconds e s = cdiv (ev_now e - lastActivity s) 1000000000"

definition onPingTimer :: "codec \<Rightarrow> int \<Rightarrow> event \<Rightarrow> ws \<Rightarrow> (exn + unit) \<times> ws \<times> act list" where
  "onPingTimer C gen e s =
     (if ev_error e \<or> gen \<noteq> generation s \<or> userClosed s then (Inr (), s, [])
      else if connected s \<and> silent_seconds e s > ACTIVITY_TIMEOUT_IN_S then
        (let (s1, acts) = handleError gen s in (Inr (), s1, acts))
      else if connected s \<and> ready s then
        (case dump C (JObject [(''type'', JString ''ping'')]) of
           Inl x \<Rightarrow> (Inl x, s, [])
         | Inr m \<Rightarrow> (let (s1, acts) = pump (ev_open e) (enqueueOp m s)
                     in (Inr (), s1, acts @ [Cancel_ping, Start (PingWait gen)])))
      else (Inr (), s, [Cancel_ping, Start (PingWait gen)]))"

end
