(* ===== verification/Ws_System.thy ===== *)
theory Ws_System
  imports Ws_Session
begin

text \<open>
  The session together with the strand: the operations in flight, the posted tasks, and the step
  relation \<open>ws_step\<close> in which they complete.  \<open>apply_move\<close> is
  the same relation as a function of the schedule's choice, so that schedules can be run.
\<close>

section \<open>Operations in flight\<close>

text \<open>\<open>flights\<close> holds each operation in flight with the flag that it was cancelled;
  \<open>begun\<close> records the frames handed to \<open>async_write\<close>, \<open>delivered\<close> the messages given to the
  consumer, \<open>calls\<close> the calls of \<open>subscribe\<close> and \<open>unsubscribe\<close>; \<open>started\<close> is set by \<open>run()\<close>, which the stream manager calls once.\<close>

record sys =
  sess :: ws
  flights :: "(op \<times> bool) list"
  tasks :: "task list"
  begun :: "(int \<times> string) list"
  delivered :: "json list"
  calls :: "api list"
  started :: bool

definition sys_init :: sys where
  "sys_init = \<lparr>sess = ws_init, flights = [], tasks = [], begun = [], delivered = [], calls = [],
     started = False\<rparr>"

fun is_ping :: "op \<Rightarrow> bool" where
  "is_ping (PingWait g) = True"
| "is_ping _ = False"

fun is_reconnect :: "op \<Rightarrow> bool" where
  "is_reconnect (ReconnectWait g) = True"
| "is_reconnect _ = False"

definition cancel :: "(op \<Rightarrow> bool) \<Rightarrow> (op \<times> bool) list \<Rightarrow> (op \<times> bool) list" where
  "cancel p fs = map (\<lambda>(o', c). (o', c \<or> p o')) fs"

fun perform :: "act \<Rightarrow> sys \<Rightarrow> sys" where
  "perform (Start o') y = y\<lparr>flights := flights y @ [(o', False)]\<rparr>"
| "perform (Start_write g m) y =
     y\<lparr>flights := flights y @ [(Write g, False)], begun := begun y @ [(g, m)]\<rparr>"
| "perform Cancel_ping y = y\<lparr>flights := cancel is_ping (flights y)\<rparr>"
| "perform Cancel_reconnect y = y\<lparr>flights := cancel is_reconnect (flights y)\<rparr>"
| "perform (Post t) y = y\<lparr>tasks := tasks y @ [t]\<rparr>"
| "perform (Deliver j) y = y\<lparr>delivered := delivered y @ [j]\<rparr>"
| "perform (Called a) y = y\<lparr>calls := calls y @ [a]\<rparr>"
| "perform _ y = y"

definition performs :: "act list \<Rightarrow> sys \<Rightarrow> sys" where
  "performs acts y = fold perform acts y"

definition goes :: "sys \<Rightarrow> ws \<times> act list \<Rightarrow> sys" where
  "goes y r = performs (snd r) (y\<lparr>sess := fst r\<rparr>)"

text \<open>The handler of an operation; an exception that leaves it is logged by the io thread, which
  then runs on.\<close>

definition handler :: "codec \<Rightarrow> op \<Rightarrow> event \<Rightarrow> ws \<Rightarrow> ws \<times> act list" where
  "handler C o' e s = (case o' of
     Resolve g \<Rightarrow> onResolve g e s
   | Connect g \<Rightarrow> onConnect g e s
   | TlsHandshake g \<Rightarrow> onSSLHandshake g e s
   | Handshake g \<Rightarrow> onHandshake g e s
   | Read g \<Rightarrow> snd (onRead C g e s)
   | Write g \<Rightarrow> onWrite g e s
   | PingWait g \<Rightarrow> snd (onPingTimer C g e s)
   | ReconnectWait g \<Rightarrow> onReconnectTimer g e s)"

definition run_task :: "codec \<Rightarrow> task \<Rightarrow> event \<Rightarrow> ws \<Rightarrow> ws \<times> act list" where
  "run_task C t e s = (case t of
     Start_connect \<Rightarrow> startConnect s
   | Flush_topics \<Rightarrow> snd (flushTopics C e s)
   | Send_unsubscribe c \<Rightarrow> snd (send_unsubscribe C e c s)
   | Close_by_user \<Rightarrow> closeByUser e s)"

definition is_timer :: "op \<Rightarrow> bool" where
  "is_timer o' \<longleftrightarrow> is_ping o' \<or> is_reconnect o'"

inductive ws_step :: "codec \<Rightarrow> sys \<Rightarrow> sys \<Rightarrow> bool" for C :: codec where
  complete: "flights y = fs @ (o', c) # gs \<Longrightarrow> (is_timer o' \<and> ev_error e \<longrightarrow> c) \<Longrightarrow>
     ws_step C y (goes (y\<lparr>flights := fs @ gs\<rparr>) (handler C o' e (sess y)))"
| task: "tasks y = t # ts \<Longrightarrow>
     ws_step C y (goes (y\<lparr>tasks := ts\<rparr>) (run_task C t e (sess y)))"
| run: "\<not> started y \<Longrightarrow>
     ws_step C y (y\<lparr>started := True, tasks := tasks y @ [Start_connect]\<rparr>)"
| api: "ws_step C y (goes y (api_call a (sess y)))"
| close: "ws_step C y (y\<lparr>tasks := tasks y @ [Close_by_user]\<rparr>)"

inductive ws_reachable :: "codec \<Rightarrow> sys \<Rightarrow> bool" for C :: codec where
  start: "ws_reachable C sys_init"
| step: "ws_reachable C y \<Longrightarrow> ws_step C y z \<Longrightarrow> ws_reachable C z"

section \<open>Executing the steps\<close>

text \<open>\<open>move\<close> computes the step a schedule chooses: which operation completes and with what, the
  oldest task, or a call from outside.  It has exactly the steps of \<open>ws_step\<close>.\<close>

datatype move =
    Complete nat event
  | Run_task event
  | Run
  | Call api
  | Close

fun apply_move :: "codec \<Rightarrow> move \<Rightarrow> sys \<Rightarrow> sys option" where
  "apply_move C (Complete i e) y =
     (if i < length (flights y) \<and>
         (is_timer (fst (flights y ! i)) \<and> ev_error e \<longrightarrow> snd (flights y ! i))
      then Some (goes (y\<lparr>flights := take i (flights y) @ drop (Suc i) (flights y)\<rparr>)
             (handler C (fst (flights y ! i)) e (sess y)))
      else None)"
| "apply_move C (Run_task e) y = (case tasks y of
     [] \<Rightarrow> None
   | t # ts \<Rightarrow> Some (goes (y\<lparr>tasks := ts\<rparr>) (run_task C t e (sess y))))"
| "apply_move C Run y =
     (if started y then None else Some (y\<lparr>started := True, tasks := tasks y @ [Start_connect]\<rparr>))"
| "apply_move C (Call a) y = Some (goes y (api_call a (sess y)))"
| "apply_move C Close y = Some (y\<lparr>tasks := tasks y @ [Close_by_user]\<rparr>)"

fun apply_moves :: "codec \<Rightarrow> move list \<Rightarrow> sys \<Rightarrow> sys option" where
  "apply_moves C [] y = Some y"
| "apply_moves C (m # ms) y = (case apply_move C m y of None \<Rightarrow> None | Some z \<Rightarrow> apply_moves C ms z)"

lemma apply_move_step: "apply_move C m y = Some z \<Longrightarrow> ws_step C y z"
proof (cases m)
  case (Complete i e)
  assume a: "apply_move C m y = Some z"
  then have "flights y = take i (flights y) @ (fst (flights y ! i), snd (flights y ! i)) # drop (Suc i) (flights y)"
    using Complete by (simp add: id_take_nth_drop split: if_splits)
  from ws_step.complete[OF this, of e C] a Complete show ?thesis by (auto split: if_splits)
qed (auto split: if_splits list.splits intro: ws_step.intros)

lemma step_apply_move: "ws_step C y z \<Longrightarrow> \<exists>m. apply_move C m y = Some z"
proof (induction rule: ws_step.induct)
  case (complete y fs o' c gs e)
  then have "apply_move C (Complete (length fs) e) y
      = Some (goes (y\<lparr>flights := fs @ gs\<rparr>) (handler C o' e (sess y)))"
    by (auto simp: nth_append)
  then show ?case ..
next
  case (task y t ts e)
  then have "apply_move C (Run_task e) y = Some (goes (y\<lparr>tasks := ts\<rparr>) (run_task C t e (sess y)))" by simp
  then show ?case ..
next
  case (run y)
  then have "apply_move C Run y = Some (y\<lparr>started := True, tasks := tasks y @ [Start_connect]\<rparr>)" by simp
  then show ?case ..
next
  case (api y a)
  have "apply_move C (Call a) y = Some (goes y (api_call a (sess y)))" by simp
  then show ?case ..
next
  case (close y)
  have "apply_move C Close y = Some (y\<lparr>tasks := tasks y @ [Close_by_user]\<rparr>)" by simp
  then show ?case ..
qed

lemma apply_moves_reachable:
  "ws_reachable C y \<Longrightarrow> apply_moves C ms y = Some z \<Longrightarrow> ws_reachable C z"
  by (induction ms arbitrary: y) (auto split: option.splits dest: apply_move_step intro: ws_reachable.step)

text \<open>A small codec and a schedule that connects, gets the venue's greeting, and has one channel
  subscribed before the connection is up.\<close>

definition demo_codec :: codec where
  "demo_codec = \<lparr>parse = (\<lambda>s. Inr (JObject [(''type'', JString s)])),
     dump = (\<lambda>j. Inr (jstring_or_empty ''type'' j @ '' '' @ jstring_or_empty ''channel'' j))\<rparr>"

definition demo_event :: "string \<Rightarrow> event" where
  "demo_event raw = \<lparr>ev_error = False, ev_now = 0, ev_raw = raw, ev_open = True, ev_sni = True,
     ev_calls = [], ev_throws = False, ev_provider = None\<rparr>"

definition demo_moves :: "move list" where
  "demo_moves = (let e = demo_event [] in
     [Run, Call (Api_subscribe ''a''), Run_task e, Run_task e,
      Complete 0 e, Complete 0 e, Complete 0 e, Complete 0 e, Complete 1 (demo_event ''connected'')])"

definition demo_sys :: sys where
  "demo_sys = the (apply_moves demo_codec demo_moves sys_init)"

lemma demo_reachable: "ws_reachable demo_codec demo_sys"
proof (rule apply_moves_reachable[OF ws_reachable.start])
  have "apply_moves demo_codec demo_moves sys_init \<noteq> None" by code_simp
  then show "apply_moves demo_codec demo_moves sys_init = Some demo_sys" by (auto simp: demo_sys_def)
qed

end
