(* ===== verification/Ws_Safety.thy ===== *)
theory Ws_Safety
  imports Ws_System
begin

text \<open>
  What the stream library demands of its client: on one stream never two reads and never two
  writes are outstanding at once.  \<open>safe\<close> is the invariant of session and operations in flight;
  every handler of \<open>Ws_Session\<close> keeps it, hence every reachable state has it.  The lemmas on
  quiet acts and on the phase of a session are shared with \<open>Ws_Live\<close>.
\<close>
section \<open>Counting operations in flight\<close>

fun op_gen :: "op \<Rightarrow> int" where
  "op_gen (Resolve g) = g"
| "op_gen (Connect g) = g"
| "op_gen (TlsHandshake g) = g"
| "op_gen (Handshake g) = g"
| "op_gen (Read g) = g"
| "op_gen (Write g) = g"
| "op_gen (PingWait g) = g"
| "op_gen (ReconnectWait g) = g"

definition in_flight :: "(op \<times> bool) list \<Rightarrow> op \<Rightarrow> nat" where
  "in_flight fs o' = count_list (map fst fs) o'"

definition chain :: "(op \<times> bool) list \<Rightarrow> int \<Rightarrow> nat" where
  "chain fs g = in_flight fs (Resolve g) + in_flight fs (Connect g) + in_flight fs (TlsHandshake g)
     + in_flight fs (Handshake g)"

fun fly1 :: "act \<Rightarrow> (op \<times> bool) list \<Rightarrow> (op \<times> bool) list" where
  "fly1 (Start o') fs = fs @ [(o', False)]"
| "fly1 (Start_write g m) fs = fs @ [(Write g, False)]"
| "fly1 Cancel_ping fs = cancel is_ping fs"
| "fly1 Cancel_reconnect fs = cancel is_reconnect fs"
| "fly1 _ fs = fs"

definition fly :: "act list \<Rightarrow> (op \<times> bool) list \<Rightarrow> (op \<times> bool) list" where
  "fly acts fs = fold fly1 acts fs"

lemma fly_simps [simp]:
  "fly [] fs = fs"
  "fly (a # as) fs = fly as (fly1 a fs)"
  "fly (as @ bs) fs = fly bs (fly as fs)"
  by (simp_all add: fly_def)

lemma in_flight_simps [simp]:
  "in_flight [] o' = 0"
  "in_flight ((p, c) # fs) o' = (if p = o' then Suc (in_flight fs o') else in_flight fs o')"
  "in_flight (fs @ gs) o' = in_flight fs o' + in_flight gs o'"
  "in_flight (cancel q fs) o' = in_flight fs o'"
  by (auto simp: in_flight_def cancel_def case_prod_unfold comp_def)

lemma chain_simps [simp]:
  "chain [] g = 0"
  "chain (fs @ gs) g = chain fs g + chain gs g"
  "chain (cancel q fs) g = chain fs g"
  "chain ((p, c) # fs) g = (if p \<in> {Resolve g, Connect g, TlsHandshake g, Handshake g} then 1 else 0) + chain fs g"
  by (auto simp: chain_def)

definition gens_le :: "(op \<times> bool) list \<Rightarrow> int \<Rightarrow> bool" where
  "gens_le fs g \<longleftrightarrow> (\<forall>x\<in>set fs. op_gen (fst x) \<le> g)"

lemma gens_le_simps [simp]:
  "gens_le [] g"
  "gens_le (x # fs) g \<longleftrightarrow> op_gen (fst x) \<le> g \<and> gens_le fs g"
  "gens_le (fs @ gs) g \<longleftrightarrow> gens_le fs g \<and> gens_le gs g"
  "gens_le (cancel q fs) g \<longleftrightarrow> gens_le fs g"
  by (auto simp: gens_le_def cancel_def)

lemma gens_le_mono: "gens_le fs g \<Longrightarrow> g \<le> h \<Longrightarrow> gens_le fs h"
  by (auto simp: gens_le_def)

lemma in_flight_fresh: "gens_le fs g \<Longrightarrow> g < op_gen o' \<Longrightarrow> in_flight fs o' = 0"
  by (auto simp: in_flight_def gens_le_def count_list_0_iff)

lemma chain_fresh: "gens_le fs g \<Longrightarrow> g < h \<Longrightarrow> chain fs h = 0"
  by (simp add: chain_def in_flight_fresh)

lemma sess_goes [simp]: "sess (goes y r) = fst r"
proof -
  have "sess (fold perform acts y) = sess y" for acts y
  proof (induction acts arbitrary: y)
    case (Cons a acts)
    show ?case using Cons[of "perform a y"] by (cases a) simp_all
  qed simp
  then show ?thesis by (simp add: goes_def performs_def)
qed

lemma flights_goes [simp]: "flights (goes y r) = fly (snd r) (flights y)"
proof -
  have "flights (fold perform acts y) = fly acts (flights y)" for acts y
  proof (induction acts arbitrary: y)
    case (Cons a acts)
    show ?case using Cons[of "perform a y"] by (cases a) simp_all
  qed simp
  then show ?thesis by (simp add: goes_def performs_def)
qed

lemma started_goes [simp]: "started (goes y r) = started y"
proof -
  have "started (fold perform acts y) = started y" for acts y
  proof (induction acts arbitrary: y)
    case (Cons a acts)
    show ?case using Cons[of "perform a y"] by (cases a) simp_all
  qed simp
  then show ?thesis by (simp add: goes_def performs_def)
qed

section \<open>One read, one write\<close>

definition safe :: "ws \<Rightarrow> (op \<times> bool) list \<Rightarrow> bool" where
  "safe s fs \<longleftrightarrow> (let g = generation s in
     gens_le fs g \<and>
     chain fs g + in_flight fs (Read g) \<le> 1 \<and>
     in_flight fs (Write g) \<le> 1 \<and>
     in_flight fs (PingWait g) \<le> 1 \<and>
     (1 \<le> chain fs g \<longrightarrow> \<not> connected s \<and> in_flight fs (Write g) = 0 \<and> in_flight fs (PingWait g) = 0) \<and>
     (connected s \<and> in_flight fs (Write g) = 1 \<longrightarrow> writeInFlight s))"

definition safe_result :: "(op \<times> bool) list \<Rightarrow> ws \<times> act list \<Rightarrow> bool" where
  "safe_result fs r \<longleftrightarrow> safe (fst r) (fly (snd r) fs)"

lemma safe_cong:
  "generation s = generation t \<Longrightarrow> connected s = connected t \<Longrightarrow> writeInFlight s = writeInFlight t \<Longrightarrow>
     safe s fs = safe t fs"
  by (simp add: safe_def)

lemma safe_pump: "safe s fs \<Longrightarrow> safe_result fs (pump b s)"
  by (auto simp: safe_result_def pump_def safe_def Let_def split: list.splits)

lemma safe_handleError: "safe s fs \<Longrightarrow> safe_result fs (handleError gen s)"
  by (auto simp: safe_result_def handleError_def safe_def Let_def)


lemma safe_startConnect: "safe s fs \<Longrightarrow> safe_result fs (startConnect s)"
  by (auto simp: safe_result_def startConnect_def safe_def Let_def in_flight_fresh chain_fresh
      intro: gens_le_mono)

lemma safe_closeByUser: "safe s fs \<Longrightarrow> safe_result fs (closeByUser e s)"
  by (auto simp: safe_result_def closeByUser_def safe_def Let_def)

lemma enqueueOp_frame [simp]:
  "generation (enqueueOp m s) = generation s" "connected (enqueueOp m s) = connected s"
  "writeInFlight (enqueueOp m s) = writeInFlight s" "userClosed (enqueueOp m s) = userClosed s"
  "reconnectScheduled (enqueueOp m s) = reconnectScheduled s"
  "subscriptions (enqueueOp m s) = subscriptions s" "pendingTopics (enqueueOp m s) = pendingTopics s"
  "ready (enqueueOp m s) = ready s" "connectedFlag (enqueueOp m s) = connectedFlag s"
  "reconnectDelayS (enqueueOp m s) = reconnectDelayS s"
  by (simp_all add: enqueueOp_def)

text \<open>What a call back into the session leaves alone, and that it starts no operation.\<close>

definition control :: "ws \<Rightarrow> int \<times> bool \<times> bool \<times> bool \<times> bool \<times> bool \<times> bool \<times> bool \<times> int \<times> string list \<times> int" where
  "control s = (generation s, connected s, ready s, connectedFlag s, reconnectScheduled s, userClosed s,
     writeInFlight s, hasSocket s, reconnectDelayS s, outboundQueue s, lastActivity s)"

lemma api_call_control:
  "control (fst (api_call c s)) = control s"
  "fly (snd (api_call c s)) fs = fs"
  by (cases c; simp add: control_def subscribe_def unsubscribe_def addTopic_def removeTopic_def Let_def
      case_prod_unfold)+

lemma api_calls_control:
  "control (fst (api_calls cs s)) = control s \<and> fly (snd (api_calls cs s)) fs = fs"
proof (induction cs arbitrary: s fs)
  case (Cons c cs)
  show ?case using Cons.IH[of "fst (api_call c s)"] api_call_control[of c s]
    by (simp add: case_prod_unfold Let_def)
qed simp

lemma enqueue_subscribes_frame:
  "enqueue_subscribes C p cs s = (r, s') \<Longrightarrow>
     generation s' = generation s \<and> connected s' = connected s \<and> ready s' = ready s \<and>
     connectedFlag s' = connectedFlag s \<and> reconnectScheduled s' = reconnectScheduled s \<and>
     userClosed s' = userClosed s \<and> writeInFlight s' = writeInFlight s \<and>
     reconnectDelayS s' = reconnectDelayS s \<and>
     subscriptions s' = subscriptions s \<and> pendingTopics s' = pendingTopics s"
proof (induction cs arbitrary: s)
  case (Cons c cs)
  then show ?case by (force split: sum.splits)
qed simp

lemma safe_flushTopics: "safe s fs \<Longrightarrow> safe_result fs (snd (flushTopics C e s))"
proof (cases "connected s \<and> ready s")
  case True
  assume safe: "safe s fs"
  let ?s1 = "s\<lparr>subscriptions := subscriptions s @ pendingTopics s, pendingTopics := []\<rparr>"
  obtain r s2 where e: "enqueue_subscribes C (ev_provider e) (pendingTopics s) ?s1 = (r, s2)" by force
  have "safe s2 fs" using safe enqueue_subscribes_frame[OF e] by (simp cong: safe_cong)
  then show ?thesis using True e safe_pump[of s2 fs "ev_open e"]
    by (auto simp: flushTopics_def Let_def safe_result_def case_prod_unfold split: sum.splits)
qed (auto simp: flushTopics_def safe_result_def)

lemma safe_send_unsubscribe: "safe s fs \<Longrightarrow> safe_result fs (snd (send_unsubscribe C e c s))"
  using safe_pump[of "enqueueOp m s" fs "ev_open e" for m]
  by (auto simp: send_unsubscribe_def safe_result_def case_prod_unfold Let_def safe_def split: sum.splits)

lemma safe_dispatch: "safe s fs \<Longrightarrow> safe_result fs (snd (dispatch C e j s))"
proof -
  assume safe: "safe s fs"
  let ?t = "s\<lparr>ready := True, connectedFlag := True, reconnectDelayS := 1\<rparr>"
  have 1: "safe_result fs (snd (flushTopics C e ?t))"
    using safe by (intro safe_flushTopics) (simp cong: safe_cong)
  have 2: "safe_result fs (pump (ev_open e) (enqueueOp m s))" for m
    using safe by (intro safe_pump) (simp cong: safe_cong)
  have 3: "safe (fst (api_calls (ev_calls e) s)) fs"
    using safe api_calls_control[of "ev_calls e" s] by (simp add: control_def cong: safe_cong)
  show ?thesis using 1 2 3 safe api_calls_control[of "ev_calls e" s]
    by (auto simp: dispatch_def Let_def safe_result_def case_prod_unfold split: sum.splits)
qed

text \<open>Acts that neither start anything but a write nor cancel a timer.\<close>

fun quiet_act :: "act \<Rightarrow> bool" where
  "quiet_act (Start _) = False"
| "quiet_act Cancel_ping = False"
| "quiet_act Cancel_reconnect = False"
| "quiet_act _ = True"

definition quiet :: "act list \<Rightarrow> bool" where
  "quiet acts \<longleftrightarrow> list_all quiet_act acts"

lemma quiet_simps [simp]:
  "quiet []" "quiet (a # as) \<longleftrightarrow> quiet_act a \<and> quiet as" "quiet (as @ bs) \<longleftrightarrow> quiet as \<and> quiet bs"
  by (auto simp: quiet_def)

lemma quiet_fly:
  assumes "quiet acts"
  shows "chain (fly acts fs) g = chain fs g \<and>
    (\<forall>o'. (\<forall>h. o' \<noteq> Write h) \<longrightarrow> in_flight (fly acts fs) o' = in_flight fs o' \<and>
       ((o', c) \<in> set (fly acts fs) \<longleftrightarrow> (o', c) \<in> set fs))"
  using assms
proof (induction acts arbitrary: fs)
  case (Cons a acts)
  then show ?case by (cases a) auto
qed simp

lemma pump_quiet: "quiet (snd (pump b s))"
  by (simp add: pump_def split: list.splits)

lemma pump_frame:
  "generation (fst (pump b s)) = generation s" "connected (fst (pump b s)) = connected s"
  "ready (fst (pump b s)) = ready s" "connectedFlag (fst (pump b s)) = connectedFlag s"
  "reconnectScheduled (fst (pump b s)) = reconnectScheduled s"
  "userClosed (fst (pump b s)) = userClosed s"
  "reconnectDelayS (fst (pump b s)) = reconnectDelayS s"
  "subscriptions (fst (pump b s)) = subscriptions s"
  "pendingTopics (fst (pump b s)) = pendingTopics s"
  by (simp_all add: pump_def split: list.splits)

lemma api_calls_quiet: "quiet (snd (api_calls cs s))"
proof (induction cs arbitrary: s)
  case (Cons c cs)
  have "quiet (snd (api_call c s))"
    by (cases c; simp add: subscribe_def unsubscribe_def removeTopic_def Let_def case_prod_unfold)
  with Cons show ?case by (simp add: case_prod_unfold Let_def)
qed simp

lemma flushTopics_quiet: "quiet (snd (snd (flushTopics C e s)))"
  using pump_quiet by (simp add: flushTopics_def Let_def case_prod_unfold split: sum.splits)

lemma send_unsubscribe_quiet: "quiet (snd (snd (send_unsubscribe C e c s)))"
  using pump_quiet by (simp add: send_unsubscribe_def Let_def case_prod_unfold split: sum.splits)

lemma dispatch_quiet: "quiet (snd (snd (dispatch C e j s)))"
  using pump_quiet flushTopics_quiet api_calls_quiet
  by (simp add: dispatch_def Let_def case_prod_unfold split: sum.splits)

definition phase :: "ws \<Rightarrow> int \<times> bool \<times> bool \<times> bool" where
  "phase s = (generation s, connected s, reconnectScheduled s, userClosed s)"

lemma flushTopics_phase: "phase (fst (snd (flushTopics C e s))) = phase s"
proof -
  let ?s1 = "s\<lparr>subscriptions := subscriptions s @ pendingTopics s, pendingTopics := []\<rparr>"
  obtain r s2 where e: "enqueue_subscribes C (ev_provider e) (pendingTopics s) ?s1 = (r, s2)" by force
  show ?thesis using enqueue_subscribes_frame[OF e] e
    by (simp add: flushTopics_def Let_def case_prod_unfold pump_frame phase_def split: sum.splits)
qed

lemma send_unsubscribe_phase: "phase (fst (snd (send_unsubscribe C e c s))) = phase s"
  by (simp add: send_unsubscribe_def Let_def case_prod_unfold pump_frame phase_def split: sum.splits)

lemma dispatch_phase: "phase (fst (snd (dispatch C e j s))) = phase s"
  using api_calls_control[of "ev_calls e" s] flushTopics_phase[of C e "s\<lparr>ready := True, connectedFlag := True, reconnectDelayS := 1\<rparr>"]
  by (simp add: dispatch_def Let_def case_prod_unfold pump_frame phase_def control_def split: sum.splits)

lemma safe_remove: "safe s (fs @ x # gs) \<Longrightarrow> safe s (fs @ gs)"
  by (cases x) (auto simp: safe_def Let_def split: if_splits)

lemma safe_onRead:
  assumes "safe s (fs @ (Read gen, c) # gs)"
  shows "safe_result (fs @ gs) (snd (onRead C gen e s))"
proof (cases "gen = generation s")
  case True
  let ?fs = "fs @ gs" and ?s1 = "s\<lparr>lastActivity := ev_now e\<rparr>"
  have s: "safe t ?fs" if "phase t = phase s" "writeInFlight t = writeInFlight s" for t
    using safe_remove[OF assms] that by (simp add: phase_def cong: safe_cong)
  have z: "chain ?fs gen = 0" "in_flight ?fs (Read gen) = 0"
    using assms True by (auto simp: safe_def Let_def)
  have err: "safe_result ?fs (handleError gen t)" if "phase t = phase s" "writeInFlight t = writeInFlight s" for t
    using s[OF that] by (rule safe_handleError)
  have step: "safe_result ?fs (snd (catch_json gen x s2 acts))"
      "safe_result ?fs (fst (after_dispatch gen s2), acts @ snd (after_dispatch gen s2))"
    if "safe s2 (fly acts ?fs)" "phase s2 = phase s" "quiet acts" for x s2 acts
  proof -
    show "safe_result ?fs (snd (catch_json gen x s2 acts))"
      using safe_handleError[OF that(1), of gen] that(1)
      by (auto simp: catch_json_def safe_result_def case_prod_unfold Let_def split: exn.splits)
    show "safe_result ?fs (fst (after_dispatch gen s2), acts @ snd (after_dispatch gen s2))"
      using that quiet_fly[OF that(3), of ?fs gen] z True
      by (auto simp: after_dispatch_def safe_result_def safe_def Let_def phase_def)
  qed
  show ?thesis
  proof (cases "parse C (ev_raw e)")
    case (Inl x)
    show ?thesis using step(1)[of ?s1 "[]" x] s[of ?s1] err[of s] Inl True
      by (simp add: onRead_def Let_def case_prod_unfold safe_result_def phase_def)
  next
    case (Inr j)
    obtain r s2 acts where d: "dispatch C e j ?s1 = (r, s2, acts)" by (metis prod_cases3)
    have 1: "safe s2 (fly acts ?fs)" using safe_dispatch[of ?s1 ?fs C e j] s[of ?s1] d
      by (simp add: safe_result_def phase_def)
    have 2: "phase s2 = phase s" using dispatch_phase[of C e j ?s1] d by (simp add: phase_def)
    have 3: "quiet acts" using dispatch_quiet[of C e j ?s1] d by simp
    show ?thesis using step[OF 1 2 3] step[of ?s1 "[]"] s[of ?s1] err[of s] Inr True d
      by (auto simp: onRead_def Let_def case_prod_unfold safe_result_def phase_def split: sum.splits)
  qed
qed (use safe_remove[OF assms] in \<open>simp add: onRead_def safe_result_def\<close>)

lemma safe_onWrite:
  assumes "safe s (fs @ (Write gen, c) # gs)"
  shows "safe_result (fs @ gs) (onWrite gen e s)"
proof (cases "gen = generation s")
  case True
  have "safe (s\<lparr>writeInFlight := False\<rparr>) (fs @ gs)"
    using assms True by (auto simp: safe_def Let_def)
  then show ?thesis using True safe_pump safe_handleError by (simp add: onWrite_def Let_def)
qed (use safe_remove[OF assms] in \<open>simp add: onWrite_def safe_result_def\<close>)

lemma safe_onPingTimer:
  assumes "safe s (fs @ (PingWait gen, c) # gs)"
  shows "safe_result (fs @ gs) (snd (onPingTimer C gen e s))"
proof -
  have 1: "safe s (fs @ gs)" using safe_remove[OF assms] .
  have 2: "gen = generation s \<Longrightarrow> chain (fs @ gs) gen = 0 \<and> in_flight (fs @ gs) (PingWait gen) = 0"
    using assms by (auto simp: safe_def Let_def)
  have 3: "safe_result (fs @ gs) (pump (ev_open e) (enqueueOp m s))" for m
    using 1 by (intro safe_pump) (simp cong: safe_cong)
  have 4: "safe_result (fs @ gs) (handleError gen s)" using safe_handleError[OF 1] .
  have 5: "safe (fst (pump (ev_open e) (enqueueOp m s)))
      (cancel is_ping (fly (snd (pump (ev_open e) (enqueueOp m s))) (fs @ gs)) @ [(PingWait gen, False)])"
    if "gen = generation s" for m
    using 3[of m] 2[OF that] that quiet_fly[OF pump_quiet[of "ev_open e" "enqueueOp m s"], of "fs @ gs" gen]
    by (auto simp: safe_result_def safe_def Let_def pump_frame)
  show ?thesis using 1 2 4 5
    by (auto simp: onPingTimer_def Let_def case_prod_unfold safe_result_def split: sum.splits)
       (auto simp: safe_def Let_def)
qed

lemma safe_chain_handlers:
  "safe s (fs @ (Resolve gen, c) # gs) \<Longrightarrow> safe_result (fs @ gs) (onResolve gen e s)"
  "safe s (fs @ (Connect gen, c) # gs) \<Longrightarrow> safe_result (fs @ gs) (onConnect gen e s)"
  "safe s (fs @ (TlsHandshake gen, c) # gs) \<Longrightarrow> safe_result (fs @ gs) (onSSLHandshake gen e s)"
  "safe s (fs @ (Handshake gen, c) # gs) \<Longrightarrow> safe_result (fs @ gs) (onHandshake gen e s)"
  using safe_remove[of s fs _ gs] safe_handleError[of s "fs @ gs" gen]
  by (auto simp: onResolve_def onConnect_def onSSLHandshake_def onHandshake_def)
     (auto simp: safe_result_def safe_def Let_def split: if_splits)

lemma safe_onReconnectTimer:
  "safe s (fs @ x # gs) \<Longrightarrow> safe_result (fs @ gs) (onReconnectTimer gen e s)"
proof -
  assume "safe s (fs @ x # gs)"
  then have "safe (s\<lparr>reconnectScheduled := b\<rparr>) (fs @ gs)" for b
    using safe_remove[of s fs x gs] by (simp cong: safe_cong)
  from this[of False] this[of "reconnectScheduled s"] show ?thesis
    using safe_startConnect by (simp add: onReconnectTimer_def Let_def safe_result_def)
qed

lemma safe_handler:
  assumes "safe s (fs @ (o', c) # gs)"
  shows "safe_result (fs @ gs) (handler C o' e s)"
  using assms safe_onRead safe_onWrite safe_onPingTimer safe_chain_handlers safe_onReconnectTimer
  by (cases o') (auto simp: handler_def)

lemma safe_run_task: "safe s fs \<Longrightarrow> safe_result fs (run_task C t e s)"
  using safe_startConnect safe_flushTopics safe_send_unsubscribe safe_closeByUser
  by (cases t) (auto simp: run_task_def)

lemma safe_api_call: "safe s fs \<Longrightarrow> safe_result fs (api_call a s)"
  unfolding safe_result_def api_call_control(2)
  using api_call_control(1)[of a s] by (simp add: control_def cong: safe_cong)

lemma safe_step: "ws_step C y z \<Longrightarrow> safe (sess y) (flights y) \<Longrightarrow> safe (sess z) (flights z)"
proof (induction rule: ws_step.induct)
  case (complete y fs o' c gs e)
  then show ?case using safe_handler by (simp add: safe_result_def)
next
  case (task y t ts e)
  then show ?case using safe_run_task by (simp add: safe_result_def)
next
  case (api y a)
  then show ?case using safe_api_call by (simp add: safe_result_def)
qed simp_all

lemma safe_reachable: "ws_reachable C y \<Longrightarrow> safe (sess y) (flights y)"
proof (induction rule: ws_reachable.induct)
  case start
  show ?case by (simp add: sys_init_def ws_init_def safe_def)
next
  case (step y z)
  then show ?case using safe_step by blast
qed

section \<open>The property\<close>

text \<open>Property C14: in every reachable state of a session at most one read and at most one write are
  outstanding on the current stream, no write or read overlaps the connect chain, and no operation
  carries a generation the session has not reached.\<close>

theorem ws_one_read_one_write:
  assumes "ws_reachable C y"
  shows "in_flight (flights y) (Read (generation (sess y))) \<le> 1 \<and>
    in_flight (flights y) (Write (generation (sess y))) \<le> 1 \<and>
    (1 \<le> chain (flights y) (generation (sess y)) \<longrightarrow>
       in_flight (flights y) (Read (generation (sess y))) = 0 \<and>
       in_flight (flights y) (Write (generation (sess y))) = 0) \<and>
    gens_le (flights y) (generation (sess y))"
  using safe_reachable[OF assms] by (auto simp: safe_def Let_def)

lemma demo_sys_flights:
  "flights demo_sys = [(PingWait 1, False), (Write 1, False), (Read 1, False)] \<and> generation (sess demo_sys) = 1
     \<and> started demo_sys \<and> \<not> userClosed (sess demo_sys) \<and> connected (sess demo_sys) \<and> tasks demo_sys = []"
  by code_simp

theorem ws_one_read_one_write_witness:
  "in_flight (flights demo_sys) (Read 1) \<le> 1 \<and> in_flight (flights demo_sys) (Write 1) \<le> 1 \<and>
     (Write 1, False) \<in> set (flights demo_sys)"
  using ws_one_read_one_write[OF demo_reachable] demo_sys_flights by simp

end
