(* ===== verification/Ws_Live.thy ===== *)
theory Ws_Live
  imports Ws_Safety
begin

text \<open>
  The session cannot fall silent: until \<open>close()\<close> takes effect there is always a pending operation
  that carries it on.  The only hypothesis is that the JSON library serialises the keepalive frame
  (\<open>dumps_ping\<close>).
\<close>

section \<open>The session never falls silent\<close>

definition live :: "ws \<Rightarrow> (op \<times> bool) list \<Rightarrow> bool" where
  "live s fs \<longleftrightarrow> (let g = generation s in
     in_flight fs (ReconnectWait g) = (if reconnectScheduled s then 1 else 0) \<and>
     (reconnectScheduled s \<longrightarrow> \<not> connected s \<and> chain fs g = 0) \<and>
     ((PingWait g, True) \<in> set fs \<longrightarrow> \<not> connected s \<or> userClosed s) \<and>
     ((ReconnectWait g, True) \<in> set fs \<longrightarrow> userClosed s))"

text \<open>Something is pending that carries the session on: a step of the connect chain, the
  reconnect timer, or the keepalive timer of an established connection.\<close>

definition carried_on :: "ws \<Rightarrow> (op \<times> bool) list \<Rightarrow> bool" where
  "carried_on s fs \<longleftrightarrow> userClosed s \<or> 1 \<le> chain fs (generation s) \<or>
     in_flight fs (ReconnectWait (generation s)) = 1 \<or>
     (connected s \<and> in_flight fs (PingWait (generation s)) = 1)"

definition live_result :: "(op \<times> bool) list \<Rightarrow> ws \<times> act list \<Rightarrow> bool" where
  "live_result fs r \<longleftrightarrow> live (fst r) (fly (snd r) fs) \<and> carried_on (fst r) (fly (snd r) fs)"

lemma live_phase: "phase s = phase t \<Longrightarrow> live s fs = live t fs"
  by (simp add: live_def phase_def)

lemma carried_on_phase: "phase s = phase t \<Longrightarrow> carried_on s fs = carried_on t fs"
  by (simp add: carried_on_def phase_def)

lemma live_quiet:
  assumes "quiet (snd r)" "phase (fst r) = phase s"
  shows "live (fst r) (fly (snd r) fs) = live s fs" "carried_on (fst r) (fly (snd r) fs) = carried_on s fs"
proof -
  show "live (fst r) (fly (snd r) fs) = live s fs"
    unfolding live_phase[OF assms(2)]
    using quiet_fly[OF assms(1), of fs "generation s" True] by (simp add: live_def Let_def)
  show "carried_on (fst r) (fly (snd r) fs) = carried_on s fs"
    unfolding carried_on_phase[OF assms(2)]
    using quiet_fly[OF assms(1), of fs "generation s"] by (simp add: carried_on_def)
qed

lemma pump_phase: "phase (fst (pump b s)) = phase s"
  by (simp add: phase_def pump_frame)

lemma live_result_quiet:
  "quiet (snd r) \<Longrightarrow> phase (fst r) = phase s \<Longrightarrow> live s fs \<Longrightarrow> carried_on s fs \<Longrightarrow> live_result fs r"
  by (simp add: live_result_def live_quiet)

lemma cancel_mem:
  "(o', True) \<in> set (cancel p fs) \<longleftrightarrow> (o', True) \<in> set fs \<or> (p o' \<and> (o', False) \<in> set fs)"
  "(o', False) \<in> set (cancel p fs) \<longleftrightarrow> \<not> p o' \<and> (o', False) \<in> set fs"
  by (induction fs) (auto simp: cancel_def)

lemma in_flight_0: "in_flight fs o' = 0 \<Longrightarrow> (o', c) \<notin> set fs"
  by (force simp: in_flight_def count_list_0_iff)

text \<open>The error path: whatever was pending, the reconnect timer is armed afterwards.\<close>

lemma live_handleError:
  assumes "live s fs" "gen = generation s" "chain fs gen = 0"
  shows "live_result fs (handleError gen s)"
proof -
  have 0: "\<not> reconnectScheduled s \<Longrightarrow> (ReconnectWait gen, b) \<notin> set fs" for b
    using assms in_flight_0[of fs "ReconnectWait gen" b] by (simp add: live_def Let_def)
  show ?thesis using assms 0
    by (auto simp: live_result_def handleError_def live_def carried_on_def Let_def cancel_mem)
qed

lemma live_startConnect:
  "safe s fs \<Longrightarrow> live s fs \<Longrightarrow> \<not> reconnectScheduled s \<Longrightarrow> live_result fs (startConnect s)"
  using in_flight_0[of fs "PingWait (generation s + 1)" True]
    in_flight_0[of fs "ReconnectWait (generation s + 1)" True]
  by (auto simp: live_result_def startConnect_def live_def carried_on_def Let_def safe_def
      in_flight_fresh chain_fresh)

lemma live_closeByUser:
  "live s fs \<Longrightarrow> carried_on s fs \<Longrightarrow> live_result fs (closeByUser e s)"
  by (auto simp: live_result_def closeByUser_def live_def carried_on_def Let_def cancel_mem)

text \<open>Taking an operation out of flight.\<close>

lemma live_remove:
  "live s (fs @ (o', c) # gs) \<Longrightarrow> o' \<noteq> ReconnectWait (generation s) \<Longrightarrow> live s (fs @ gs)"
  by (auto simp: live_def Let_def split: if_splits)

lemma carried_on_remove:
  "carried_on s (fs @ (o', c) # gs) \<Longrightarrow> op_gen o' \<noteq> generation s \<or> (\<exists>g. o' = Read g \<or> o' = Write g)
     \<Longrightarrow> carried_on s (fs @ gs)"
  by (auto simp: carried_on_def split: if_splits)

lemma live_stale:
  assumes "live s (fs @ (o', c) # gs)" "carried_on s (fs @ (o', c) # gs)" "op_gen o' \<noteq> generation s"
  shows "live_result (fs @ gs) (s, [])"
proof -
  have "o' \<noteq> ReconnectWait (generation s)" using assms(3) by auto
  then show ?thesis using assms live_remove[of s fs o' c gs] carried_on_remove[of s fs o' c gs]
    by (simp add: live_result_def)
qed

lemma live_chain_handlers:
  assumes "safe s (fs @ (o', c) # gs)" "live s (fs @ (o', c) # gs)" "carried_on s (fs @ (o', c) # gs)"
  shows "o' = Resolve gen \<Longrightarrow> live_result (fs @ gs) (onResolve gen e s)"
    and "o' = Connect gen \<Longrightarrow> live_result (fs @ gs) (onConnect gen e s)"
    and "o' = TlsHandshake gen \<Longrightarrow> live_result (fs @ gs) (onSSLHandshake gen e s)"
    and "o' = Handshake gen \<Longrightarrow> live_result (fs @ gs) (onHandshake gen e s)"
proof -
  have stale: "live_result (fs @ gs) (s, [])" if "op_gen o' \<noteq> generation s"
    using live_stale[OF assms(2,3) that] .
  have cur: "live s (fs @ gs) \<and> chain (fs @ gs) gen = 0 \<and> \<not> reconnectScheduled s
      \<and> in_flight (fs @ gs) (PingWait gen) = 0 \<and> live_result (fs @ gs) (handleError gen s)"
    if "gen = generation s" "o' \<in> {Resolve gen, Connect gen, TlsHandshake gen, Handshake gen}"
  proof -
    have l: "live s (fs @ gs)" using live_remove[OF assms(2)] that by auto
    moreover have "chain (fs @ gs) gen = 0 \<and> in_flight (fs @ gs) (PingWait gen) = 0"
      using assms(1) that by (auto simp: safe_def Let_def)
    moreover have "\<not> reconnectScheduled s" using assms(2) that by (auto simp: live_def Let_def)
    ultimately show ?thesis using live_handleError[OF l that(1)] by blast
  qed
  note 0 = in_flight_0[of "fs @ gs" "PingWait gen"]
  show "o' = Resolve gen \<Longrightarrow> live_result (fs @ gs) (onResolve gen e s)"
    using stale cur by (auto simp: onResolve_def) (auto simp: live_result_def live_def carried_on_def)
  show "o' = Connect gen \<Longrightarrow> live_result (fs @ gs) (onConnect gen e s)"
    using stale cur by (auto simp: onConnect_def) (auto simp: live_result_def live_def carried_on_def)
  show "o' = TlsHandshake gen \<Longrightarrow> live_result (fs @ gs) (onSSLHandshake gen e s)"
    using stale cur by (auto simp: onSSLHandshake_def) (auto simp: live_result_def live_def carried_on_def)
  show "o' = Handshake gen \<Longrightarrow> live_result (fs @ gs) (onHandshake gen e s)"
    using stale cur 0
    by (auto simp: onHandshake_def) (auto simp: live_result_def live_def carried_on_def Let_def cancel_mem)
qed

lemma live_onRead:
  assumes "safe s (fs @ (Read gen, c) # gs)" "live s (fs @ (Read gen, c) # gs)"
    "carried_on s (fs @ (Read gen, c) # gs)"
  shows "live_result (fs @ gs) (snd (onRead C gen e s))"
proof (cases "gen = generation s")
  case True
  let ?fs = "fs @ gs" and ?s1 = "s\<lparr>lastActivity := ev_now e\<rparr>"
  have l: "live s ?fs" "carried_on s ?fs"
    using live_remove[OF assms(2)] carried_on_remove[OF assms(3)] by auto
  have z: "chain ?fs gen = 0" using assms(1) True by (auto simp: safe_def Let_def)
  have err: "live_result (fly acts ?fs) (handleError gen t)"
    if "phase t = phase s" "quiet acts" for t acts
  proof (rule live_handleError)
    show "live t (fly acts ?fs)" using live_quiet[of "(t, acts)" s ?fs] that l by simp
    show "gen = generation t" using that True by (simp add: phase_def)
    show "chain (fly acts ?fs) gen = 0" using quiet_fly[OF that(2), of ?fs gen] z by simp
  qed
  have keep: "live_result ?fs (t, acts)" if "phase t = phase s" "quiet acts" for t acts
    using live_result_quiet[of "(t, acts)" s ?fs] that l by simp
  have catch: "live_result ?fs (snd (catch_json gen x t acts))" if "phase t = phase s" "quiet acts" for x t acts
    using err[OF that] keep[OF that]
    by (simp add: catch_json_def live_result_def case_prod_unfold Let_def split: exn.split)
  have after: "live_result ?fs (fst (after_dispatch gen t), acts @ snd (after_dispatch gen t))"
    if "phase t = phase s" "quiet acts" for t acts
    using keep[OF that] that True
    by (auto simp: after_dispatch_def live_result_def live_def carried_on_def Let_def phase_def)
  show ?thesis
  proof (cases "parse C (ev_raw e)")
    case (Inl x)
    show ?thesis using catch[of ?s1 "[]" x] err[of s "[]"] Inl True
      by (simp add: onRead_def Let_def case_prod_unfold phase_def)
  next
    case (Inr j)
    obtain r s2 acts where d: "dispatch C e j ?s1 = (r, s2, acts)" by (metis prod_cases3)
    have 2: "phase s2 = phase s" using dispatch_phase[of C e j ?s1] d by (simp add: phase_def)
    have 3: "quiet acts" using dispatch_quiet[of C e j ?s1] d by simp
    show ?thesis using catch[OF 2 3] after[OF 2 3] after[of ?s1 "[]"] err[of s "[]"] Inr True d
      by (auto simp: onRead_def Let_def case_prod_unfold phase_def split: sum.splits)
  qed
next
  case False
  then show ?thesis using live_stale[OF assms(2,3)] by (simp add: onRead_def)
qed

lemma live_onWrite:
  assumes "safe s (fs @ (Write gen, c) # gs)" "live s (fs @ (Write gen, c) # gs)"
    "carried_on s (fs @ (Write gen, c) # gs)"
  shows "live_result (fs @ gs) (onWrite gen e s)"
proof (cases "gen = generation s")
  case True
  let ?s1 = "s\<lparr>writeInFlight := False\<rparr>"
  have l: "live ?s1 (fs @ gs)" "carried_on ?s1 (fs @ gs)"
    using live_remove[OF assms(2)] carried_on_remove[OF assms(3)]
      live_phase[of s ?s1] carried_on_phase[of s ?s1] by (auto simp: phase_def)
  have z: "chain (fs @ gs) gen = 0" using assms(1) True by (auto simp: safe_def Let_def)
  show ?thesis
    using True live_handleError[OF l(1)] z live_result_quiet[OF pump_quiet pump_phase l]
    by (simp add: onWrite_def Let_def)
next
  case False
  then show ?thesis using live_stale[OF assms(2,3)] by (simp add: onWrite_def)
qed

text \<open>The keepalive frame is plain ASCII, so \<open>dump\<close> does not throw on it.\<close>

definition dumps_ping :: "codec \<Rightarrow> bool" where
  "dumps_ping C \<longleftrightarrow> (\<exists>m. dump C (JObject [(''type'', JString ''ping'')]) = Inr m)"

lemma live_onPingTimer:
  assumes "safe s (fs @ (PingWait gen, c) # gs)" "live s (fs @ (PingWait gen, c) # gs)"
    "carried_on s (fs @ (PingWait gen, c) # gs)" "ev_error e \<longrightarrow> c" "dumps_ping C"
  shows "live_result (fs @ gs) (snd (onPingTimer C gen e s))"
proof (cases "gen = generation s")
  case True
  let ?fs = "fs @ gs"
  have l: "live s ?fs" using live_remove[OF assms(2)] by auto
  have z: "chain ?fs gen = 0" "in_flight ?fs (PingWait gen) = 0"
    using assms(1) True by (auto simp: safe_def Let_def)
  obtain m where m: "dump C (JObject [(''type'', JString ''ping'')]) = Inr m"
    using assms(5) by (auto simp: dumps_ping_def)
  let ?r = "pump (ev_open e) (enqueueOp m s)"
  have closed: "live_result ?fs (s, [])" if "userClosed s" using l that by (simp add: live_result_def carried_on_def)
  have idle: "live_result ?fs (s, [])" if "\<not> connected s"
  proof -
    have "carried_on s ?fs" using assms(3) that by (auto simp: carried_on_def split: if_splits)
    with l show ?thesis by (simp add: live_result_def)
  qed
  have cancelled: "connected s \<Longrightarrow> ev_error e \<Longrightarrow> userClosed s"
    using assms(2,4) True by (auto simp: live_def Let_def)
  have rearm: "live_result ?fs (t, acts @ [Cancel_ping, Start (PingWait gen)])"
    if "phase t = phase s" "quiet acts" for t acts
  proof -
    have lt: "live t (fly acts ?fs)" using live_quiet[of "(t, acts)" s ?fs] that l by simp
    have g: "generation t = gen" "connected t = connected s" using that True by (simp_all add: phase_def)
    have p: "in_flight (fly acts ?fs) (PingWait gen) = 0" "chain (fly acts ?fs) gen = 0"
      using quiet_fly[OF that(2), of ?fs gen] z by auto
    have "connected s \<or> carried_on t (fly acts ?fs)"
      using idle live_result_quiet[of "(t, acts)" s ?fs] that l by (auto simp: live_result_def)
    then show ?thesis using lt g p in_flight_0[OF p(1)]
      by (auto simp: live_result_def live_def carried_on_def Let_def cancel_mem)
  qed
  show ?thesis
    using closed idle cancelled rearm[of s "[]"] rearm[of "fst ?r" "snd ?r"] pump_quiet pump_phase[of "ev_open e" "enqueueOp m s"]
      live_handleError[OF l True z(1)] m True
    by (auto simp: onPingTimer_def Let_def case_prod_unfold phase_def)
next
  case False
  then show ?thesis using live_stale[OF assms(2,3)] by (simp add: onPingTimer_def)
qed

lemma live_onReconnectTimer:
  assumes "safe s (fs @ (ReconnectWait gen, c) # gs)" "live s (fs @ (ReconnectWait gen, c) # gs)"
    "carried_on s (fs @ (ReconnectWait gen, c) # gs)" "ev_error e \<longrightarrow> c"
  shows "live_result (fs @ gs) (onReconnectTimer gen e s)"
proof (cases "gen = generation s")
  case True
  let ?s1 = "s\<lparr>reconnectScheduled := False\<rparr>"
  have l: "live ?s1 (fs @ gs)" using assms(2) True by (auto simp: live_def Let_def split: if_splits)
  have s: "safe ?s1 (fs @ gs)" using safe_remove[OF assms(1)] by (simp cong: safe_cong)
  have closed: "ev_error e \<Longrightarrow> userClosed s" using assms(2,4) True by (auto simp: live_def Let_def)
  show ?thesis using live_startConnect[OF s l] l closed True
    by (auto simp: onReconnectTimer_def Let_def live_result_def carried_on_def)
next
  case False
  then show ?thesis using live_stale[OF assms(2,3)] by (simp add: onReconnectTimer_def)
qed

lemma live_handler:
  assumes "safe s (fs @ (o', c) # gs)" "live s (fs @ (o', c) # gs)" "carried_on s (fs @ (o', c) # gs)"
    "is_timer o' \<and> ev_error e \<longrightarrow> c" "dumps_ping C"
  shows "live_result (fs @ gs) (handler C o' e s)"
  using assms live_chain_handlers[OF assms(1-3)] live_onRead live_onWrite live_onPingTimer live_onReconnectTimer
  by (cases o') (auto simp: handler_def is_timer_def)

text \<open>No handler posts the initial connect.\<close>

definition no_boot :: "act list \<Rightarrow> bool" where
  "no_boot acts \<longleftrightarrow> Post Start_connect \<notin> set acts"

lemma no_boot_simps [simp]:
  "no_boot []" "no_boot (a # as) \<longleftrightarrow> a \<noteq> Post Start_connect \<and> no_boot as"
  "no_boot (as @ bs) \<longleftrightarrow> no_boot as \<and> no_boot bs"
  by (auto simp: no_boot_def)

lemma no_boot_api_call: "no_boot (snd (api_call c s))"
  by (cases c; simp add: subscribe_def unsubscribe_def removeTopic_def Let_def case_prod_unfold)

lemma no_boot_api_calls: "no_boot (snd (api_calls cs s))"
proof (induction cs arbitrary: s)
  case (Cons c cs)
  with no_boot_api_call show ?case by (simp add: case_prod_unfold Let_def)
qed simp

lemma no_boot_parts [simp]:
  "no_boot (snd (pump b s))" "no_boot (snd (handleError g s))" "no_boot (snd (startConnect s))"
  "no_boot (snd (closeByUser e s))" "no_boot (snd (after_dispatch g s))"
  by (auto simp: pump_def handleError_def startConnect_def closeByUser_def after_dispatch_def Let_def
      split: list.splits)

lemma no_boot_flush [simp]:
  "no_boot (snd (snd (flushTopics C e s)))" "no_boot (snd (snd (send_unsubscribe C e c s)))"
  "no_boot (snd (snd (dispatch C e j s)))"
  by (auto simp: flushTopics_def send_unsubscribe_def dispatch_def Let_def case_prod_unfold no_boot_api_calls
      split: sum.splits)

lemma no_boot_catch [simp]: "no_boot acts \<Longrightarrow> no_boot (snd (snd (catch_json g x s acts)))"
  by (auto simp: catch_json_def Let_def case_prod_unfold split: exn.splits)

lemma no_boot_handler: "no_boot (snd (handler C o' e s))"
proof (cases o')
  case (Read g)
  show ?thesis
  proof (cases "parse C (ev_raw e)")
    case (Inr j)
    obtain r s2 acts where d: "dispatch C e j (s\<lparr>lastActivity := ev_now e\<rparr>) = (r, s2, acts)"
      by (metis prod_cases3)
    then have "no_boot acts" using no_boot_flush(3) by (metis snd_conv)
    then show ?thesis using Read Inr d
      by (auto simp: handler_def onRead_def Let_def case_prod_unfold split: sum.splits)
  qed (auto simp: handler_def onRead_def Let_def case_prod_unfold Read)
qed (auto simp: handler_def onResolve_def onConnect_def onSSLHandshake_def onHandshake_def onWrite_def
    onPingTimer_def onReconnectTimer_def Let_def case_prod_unfold split: sum.splits)

lemma no_boot_run_task: "no_boot (snd (run_task C t e s))"
  by (cases t) (simp_all add: run_task_def)

lemma tasks_goes:
  assumes "no_boot (snd r)"
  shows "count_list (tasks (goes y r)) Start_connect = count_list (tasks y) Start_connect"
proof -
  have "no_boot acts \<Longrightarrow>
      count_list (tasks (fold perform acts y)) Start_connect = count_list (tasks y) Start_connect" for acts y
  proof (induction acts arbitrary: y)
    case (Cons a acts)
    then show ?case using Cons.IH[of "perform a y"] by (cases a) auto
  qed simp
  with assms show ?thesis by (simp add: goes_def performs_def)
qed

text \<open>Before \<open>run()\<close> has taken effect nothing is in flight.\<close>

definition boot :: "sys \<Rightarrow> nat" where
  "boot y = count_list (tasks y) Start_connect"

definition booting :: "sys \<Rightarrow> bool" where
  "booting y \<longleftrightarrow> flights y = [] \<and> \<not> reconnectScheduled (sess y) \<and> \<not> connected (sess y)"

definition live_sys :: "sys \<Rightarrow> bool" where
  "live_sys y \<longleftrightarrow> live (sess y) (flights y) \<and>
     (if started y then boot y \<le> 1 \<and> (boot y = 1 \<longrightarrow> booting y)
         \<and> (boot y = 0 \<longrightarrow> carried_on (sess y) (flights y))
      else boot y = 0 \<and> booting y)"

lemma boot_goes: "no_boot (snd r) \<Longrightarrow> boot (goes y r) = boot y"
  by (simp add: boot_def tasks_goes)

lemma booting_task:
  assumes "booting y" "t \<noteq> Start_connect"
  shows "booting (goes (y\<lparr>tasks := ts\<rparr>) (run_task C t e (sess y)))"
  using assms
  by (cases t) (auto simp: booting_def run_task_def flushTopics_def send_unsubscribe_def closeByUser_def cancel_def)

lemma booting_api: "booting y \<Longrightarrow> booting (goes y (api_call a (sess y)))"
  using api_call_control[of a "sess y"] by (simp add: booting_def control_def)

lemma live_run_task:
  assumes "live s fs" "carried_on s fs" "t \<noteq> Start_connect"
  shows "live_result fs (run_task C t e s)"
  using assms live_closeByUser[OF assms(1,2)]
    live_result_quiet[OF flushTopics_quiet flushTopics_phase assms(1,2)]
    live_result_quiet[OF send_unsubscribe_quiet send_unsubscribe_phase assms(1,2)]
  by (cases t) (simp_all add: run_task_def)

lemma live_run_task_weak:
  assumes "live s fs" "t \<noteq> Start_connect"
  shows "live (fst (run_task C t e s)) (fly (snd (run_task C t e s)) fs)"
  using assms live_quiet(1)[OF flushTopics_quiet flushTopics_phase]
    live_quiet(1)[OF send_unsubscribe_quiet send_unsubscribe_phase]
  by (cases t) (auto simp: run_task_def closeByUser_def live_def Let_def cancel_mem)

lemma live_api:
  "live (fst (api_call a s)) (fly (snd (api_call a s)) fs) = live s fs"
  "carried_on (fst (api_call a s)) (fly (snd (api_call a s)) fs) = carried_on s fs"
  using api_call_control(1)[of a s] live_phase[of "fst (api_call a s)" s]
    carried_on_phase[of "fst (api_call a s)" s]
  by (simp_all add: api_call_control(2) control_def phase_def)

lemma live_sys_step:
  assumes "ws_step C y z" "safe (sess y) (flights y)" "live_sys y" "dumps_ping C"
  shows "live_sys z"
  using assms
proof (induction rule: ws_step.induct)
  case (complete y fs o' c gs e)
  let ?r = "handler C o' e (sess y)"
  have nb: "boot (goes (y\<lparr>flights := fs @ gs\<rparr>) ?r) = boot y"
    using boot_goes[OF no_boot_handler] by (simp add: boot_def)
  have "\<not> booting y" using complete.hyps(1) by (simp add: booting_def)
  with complete.prems have st: "started y" "boot y = 0" "live (sess y) (flights y)" "carried_on (sess y) (flights y)"
    by (auto simp: live_sys_def split: if_splits)
  then have "live_result (fs @ gs) ?r"
    using live_handler complete.hyps complete.prems by simp
  with st nb show ?case by (simp add: live_sys_def live_result_def)
next
  case (task y t ts e)
  let ?z = "goes (y\<lparr>tasks := ts\<rparr>) (run_task C t e (sess y))"
  have nb: "boot ?z = boot (y\<lparr>tasks := ts\<rparr>)" using boot_goes[OF no_boot_run_task] .
  show ?case
  proof (cases "t = Start_connect")
    case True
    with task have b: "boot y = Suc (boot (y\<lparr>tasks := ts\<rparr>))" by (simp add: boot_def)
    with task.prems have st: "started y" "boot (y\<lparr>tasks := ts\<rparr>) = 0" "booting y" "live (sess y) (flights y)"
      by (auto simp: live_sys_def split: if_splits)
    then have "live_result (flights y) (run_task C t e (sess y))"
      using live_startConnect task.prems True by (simp add: run_task_def booting_def)
    with st nb show ?thesis by (simp add: live_sys_def live_result_def)
  next
    case False
    with task have b: "boot (y\<lparr>tasks := ts\<rparr>) = boot y" by (simp add: boot_def)
    show ?thesis
      using task.prems(2) b nb live_run_task[of "sess y" "flights y" t C e, OF _ _ False]
        live_run_task_weak[of "sess y" "flights y" t C e, OF _ False] booting_task[OF _ False, of y ts C e]
      by (auto simp: live_sys_def live_result_def)
  qed
next
  case (run y)
  then show ?case by (auto simp: live_sys_def boot_def booting_def)
next
  case (api y a)
  have nb: "boot (goes y (api_call a (sess y))) = boot y" using boot_goes[OF no_boot_api_call] .
  with api booting_api[of y a] show ?case by (auto simp: live_sys_def live_api)
next
  case (close y)
  then show ?case by (auto simp: live_sys_def boot_def booting_def)
qed

lemma live_sys_reachable: "ws_reachable C y \<Longrightarrow> dumps_ping C \<Longrightarrow> live_sys y"
proof (induction rule: ws_reachable.induct)
  case start
  show ?case by (simp add: sys_init_def ws_init_def live_sys_def live_def boot_def booting_def)
next
  case (step y z)
  then show ?case using live_sys_step safe_reachable by blast
qed

text \<open>Property C11: a session that was started and not closed by the user always has a pending
  operation that carries it on: its start is still queued, a step of the connect chain or the
  reconnect timer is in flight, or it is connected and its keepalive timer is armed.  When a
  reconnect is scheduled, its timer is armed and was not cancelled.\<close>

theorem ws_never_silent:
  assumes "ws_reachable C y" "dumps_ping C" "started y" "\<not> userClosed (sess y)"
  shows "(Start_connect \<in> set (tasks y) \<or>
     1 \<le> chain (flights y) (generation (sess y)) \<or>
     in_flight (flights y) (ReconnectWait (generation (sess y))) = 1 \<or>
     connected (sess y) \<and> in_flight (flights y) (PingWait (generation (sess y))) = 1) \<and>
    (reconnectScheduled (sess y) \<longrightarrow> (ReconnectWait (generation (sess y)), False) \<in> set (flights y))"
proof -
  let ?g = "generation (sess y)"
  have l: "live_sys y" using live_sys_reachable assms(1,2) .
  have "(ReconnectWait ?g, False) \<in> set (flights y)" if "reconnectScheduled (sess y)"
  proof -
    have "in_flight (flights y) (ReconnectWait ?g) \<noteq> 0"
      using l that by (simp add: live_sys_def live_def Let_def)
    then obtain c where "(ReconnectWait ?g, c) \<in> set (flights y)"
      by (auto simp: in_flight_def count_list_0_iff)
    moreover have "(ReconnectWait ?g, True) \<notin> set (flights y)"
      using l assms(4) by (auto simp: live_sys_def live_def Let_def)
    ultimately show ?thesis by (cases c) auto
  qed
  moreover have "Start_connect \<in> set (tasks y)" if "boot y = 1"
    using that by (auto simp: boot_def intro: ccontr[of "Start_connect \<in> _"] simp flip: count_list_0_iff)
  ultimately show ?thesis using l assms(3,4)
    by (auto simp: live_sys_def carried_on_def le_Suc_eq)
qed

theorem ws_never_silent_witness:
  "started demo_sys \<and> connected (sess demo_sys) \<and> in_flight (flights demo_sys) (PingWait 1) = 1"
proof -
  have "dumps_ping demo_codec" by (simp add: dumps_ping_def demo_codec_def)
  with ws_never_silent[OF demo_reachable] demo_sys_flights show ?thesis by simp
qed

end
