(* ===== verification/Ws_Close.thy ===== *)
theory Ws_Close
  imports Ws_Live
begin

text \<open>
  The end of a session: what is left to do after \<open>close()\<close> has taken effect is bounded (\<open>work\<close>).  The
  only thing relied on is that the reads of a closed stream fail.
\<close>

section \<open>The work that is left\<close>

text \<open>An operation counts the handlers it may still lead to, a queued frame its write and the start of it, a
  pending channel also the frame it becomes.\<close>

fun op_work :: "op \<Rightarrow> nat" where
  "op_work (Resolve g) = 4"
| "op_work (Connect g) = 3"
| "op_work (TlsHandshake g) = 2"
| "op_work _ = 1"

fun task_work :: "task \<Rightarrow> nat" where
  "task_work (Send_unsubscribe c) = 3"
| "task_work _ = 1"

fun act_work :: "act \<Rightarrow> nat" where
  "act_work (Start o') = op_work o'"
| "act_work (Start_write g m) = 1"
| "act_work (Post t) = task_work t"
| "act_work _ = 0"

definition acts_work :: "act list \<Rightarrow> nat" where
  "acts_work acts = sum_list (map act_work acts)"

definition kept_work :: "ws \<Rightarrow> nat" where
  "kept_work s = 2 * length (outboundQueue s) + 3 * length (pendingTopics s)"

definition work :: "sys \<Rightarrow> nat" where
  "work y = sum_list (map (\<lambda>(o', c). op_work o') (flights y)) + sum_list (map task_work (tasks y)) + kept_work (sess y)"

lemma acts_work_simps [simp]:
  "acts_work [] = 0" "acts_work (a # as) = act_work a + acts_work as" "acts_work (as @ bs) = acts_work as + acts_work bs"
  by (simp_all add: acts_work_def)

lemma cancel_work: "sum_list (map (\<lambda>(o', c). op_work o') (cancel p fs)) = sum_list (map (\<lambda>(o', c). op_work o') fs)"
  by (induction fs) (auto simp: cancel_def)

lemma work_goes:
  "work (goes y (s, acts)) = work (y\<lparr>sess := s\<rparr>) + acts_work acts"
proof -
  have "work (fold perform acts y) = work y + acts_work acts" for acts y
  proof (induction acts arbitrary: y)
    case (Cons a acts)
    have "work (perform a y) = work y + act_work a"
      by (cases a) (simp_all add: work_def cancel_work)
    with Cons show ?case by simp
  qed simp
  then show ?thesis by (simp add: goes_def performs_def)
qed

text \<open>\<open>shrinks n s r\<close>: \<open>r\<close> makes up for what it starts, with \<open>n\<close> to spare.\<close>

definition shrinks :: "nat \<Rightarrow> ws \<Rightarrow> ws \<times> act list \<Rightarrow> bool" where
  "shrinks n s r \<longleftrightarrow> kept_work (fst r) + acts_work (snd r) \<le> n + kept_work s \<and> userClosed (fst r)"

lemma shrinks_pump: "userClosed s \<Longrightarrow> shrinks 0 s (pump b s)"
  by (auto simp: pump_def shrinks_def kept_work_def split: list.split)

lemma shrinks_enqueue: "shrinks n (enqueueOp m s) r \<Longrightarrow> shrinks (n + 2) s r"
  by (simp add: shrinks_def enqueueOp_def kept_work_def)

lemma shrinks_mono: "shrinks n s r \<Longrightarrow> n \<le> k \<Longrightarrow> shrinks k s r"
  by (simp add: shrinks_def)

lemma shrinks_same [simp]: "shrinks n s (s, acts) \<longleftrightarrow> acts_work acts \<le> n \<and> userClosed s"
  by (simp add: shrinks_def)

lemma shrinks_error: "userClosed s \<Longrightarrow> shrinks n s (handleError gen s)"
  by (simp add: handleError_def shrinks_def)

lemma shrinks_connect: "userClosed s \<Longrightarrow> shrinks 0 s (startConnect s)"
  by (simp add: startConnect_def shrinks_def)

lemma enqueue_subscribes_work:
  "kept_work (snd (enqueue_subscribes C p cs s)) \<le> 2 * length cs + kept_work s \<and>
   userClosed (snd (enqueue_subscribes C p cs s)) = userClosed s"
proof (induction cs arbitrary: s)
  case (Cons c cs)
  show ?case
  proof (cases "subscribeMsg C p c")
    case (Inr m)
    then show ?thesis using Cons[of "enqueueOp m s"] by (simp add: enqueueOp_def kept_work_def)
  qed simp
qed simp

lemma shrinks_flush:
  assumes "userClosed s"
  shows "shrinks 0 s (snd (flushTopics C e s))"
proof -
  let ?s1 = "s\<lparr>subscriptions := subscriptions s @ pendingTopics s, pendingTopics := []\<rparr>"
  let ?q = "enqueue_subscribes C (ev_provider e) (pendingTopics s) ?s1"
  have q: "kept_work (snd ?q) \<le> kept_work s" "userClosed (snd ?q)"
    using enqueue_subscribes_work[of C "ev_provider e" "pendingTopics s" ?s1] assms by (simp_all add: kept_work_def)
  then show ?thesis using shrinks_pump[OF q(2), of "ev_open e"] assms
    by (auto simp: flushTopics_def Let_def case_prod_unfold shrinks_def split: sum.split)
qed

lemma shrinks_task:
  assumes "userClosed s"
  shows "shrinks (task_work t - 1) s (run_task C t e s)"
proof (cases t)
  case (Send_unsubscribe c)
  have u: "userClosed (enqueueOp m s)" for m using assms by (simp add: enqueueOp_def)
  have "shrinks 2 s (pump b (enqueueOp m s))" for b m
    using shrinks_enqueue[OF shrinks_pump[OF u]] by (simp add: eval_nat_numeral)
  then show ?thesis using assms Send_unsubscribe
    by (auto simp: run_task_def send_unsubscribe_def shrinks_def Let_def case_prod_unfold split: sum.split)
qed (use assms shrinks_connect shrinks_flush in \<open>simp_all add: run_task_def closeByUser_def shrinks_def\<close>)

fun is_read :: "op \<Rightarrow> bool" where
  "is_read (Read g) = True"
| "is_read _ = False"

lemma shrinks_handler:
  assumes "userClosed s" "is_read o' \<longrightarrow> ev_error e"
  shows "shrinks (op_work o' - 1) s (handler C o' e s)"
proof (cases o')
  case (Write g)
  have "shrinks 0 s (pump b (s\<lparr>writeInFlight := False\<rparr>))" "shrinks 0 s (handleError h (s\<lparr>writeInFlight := False\<rparr>))" for b h
    using shrinks_pump[of "s\<lparr>writeInFlight := False\<rparr>" b] shrinks_error[of "s\<lparr>writeInFlight := False\<rparr>" 0 h] assms(1)
    by (simp_all add: shrinks_def kept_work_def)
  then show ?thesis using assms(1) Write by (simp add: handler_def onWrite_def Let_def)
next
  case (Read g)
  then show ?thesis using assms shrinks_error[OF assms(1), of 0]
    by (simp add: handler_def onRead_def Let_def case_prod_unfold)
next
  case (ReconnectWait g)
  then show ?thesis using assms(1)
    by (simp add: handler_def onReconnectTimer_def shrinks_def kept_work_def Let_def)
qed (use assms(1) in \<open>simp_all add: handler_def onResolve_def onConnect_def onSSLHandshake_def
    onHandshake_def onPingTimer_def shrinks_error\<close>)

section \<open>Closed sessions\<close>

text \<open>The steps of the io thread on a session whose reads fail.\<close>

inductive close_step :: "codec \<Rightarrow> sys \<Rightarrow> sys \<Rightarrow> bool" for C :: codec where
  cs_complete: "flights y = fs @ (o', c) # gs \<Longrightarrow> (is_timer o' \<and> ev_error e \<longrightarrow> c) \<Longrightarrow> (is_read o' \<longrightarrow> ev_error e) \<Longrightarrow>
     close_step C y (goes (y\<lparr>flights := fs @ gs\<rparr>) (handler C o' e (sess y)))"
| cs_task: "tasks y = t # ts \<Longrightarrow> close_step C y (goes (y\<lparr>tasks := ts\<rparr>) (run_task C t e (sess y)))"

inductive close_run :: "codec \<Rightarrow> sys \<Rightarrow> nat \<Rightarrow> sys \<Rightarrow> bool" for C :: codec and y where
  cr_start: "close_run C y 0 y"
| cr_more: "close_run C y n x \<Longrightarrow> close_step C x z \<Longrightarrow> close_run C y (Suc n) z"

lemma close_step_ws: "close_step C y z \<Longrightarrow> ws_step C y z"
  by (induction rule: close_step.induct) (auto intro: ws_step.intros)

lemma close_step_works:
  assumes "close_step C y z" "userClosed (sess y)"
  shows "work z < work y \<and> userClosed (sess z)"
  using assms
proof (induction rule: close_step.induct)
  case (cs_complete y fs o' c gs e)
  let ?r = "handler C o' e (sess y)"
  have "shrinks (op_work o' - 1) (sess y) ?r" using shrinks_handler cs_complete.prems cs_complete.hyps(3) .
  moreover have "0 < op_work o'" by (cases o') simp_all
  moreover have "work (goes (y\<lparr>flights := fs @ gs\<rparr>) ?r) = work (y\<lparr>flights := fs @ gs, sess := fst ?r\<rparr>) + acts_work (snd ?r)"
    using work_goes[of "y\<lparr>flights := fs @ gs\<rparr>" "fst ?r" "snd ?r"] by simp
  ultimately show ?case using cs_complete.hyps(1) by (auto simp: work_def shrinks_def)
next
  case (cs_task y t ts e)
  let ?r = "run_task C t e (sess y)"
  have "shrinks (task_work t - 1) (sess y) ?r" using shrinks_task cs_task.prems .
  moreover have "0 < task_work t" by (cases t) simp_all
  moreover have "work (goes (y\<lparr>tasks := ts\<rparr>) ?r) = work (y\<lparr>tasks := ts, sess := fst ?r\<rparr>) + acts_work (snd ?r)"
    using work_goes[of "y\<lparr>tasks := ts\<rparr>" "fst ?r" "snd ?r"] by simp
  ultimately show ?case using cs_task.hyps(1) by (auto simp: work_def shrinks_def)
qed

lemma close_step_possible:
  assumes "flights y \<noteq> [] \<or> tasks y \<noteq> []"
  shows "\<exists>z. close_step C y z"
proof (cases "flights y")
  case Nil
  then obtain t ts where "tasks y = t # ts" using assms by (cases "tasks y") auto
  then show ?thesis by (blast intro: cs_task)
next
  case (Cons f fs)
  then have f: "flights y = [] @ (fst f, snd f) # fs" by simp
  show ?thesis
  proof (cases "is_read (fst f)")
    case True
    then have "\<not> is_timer (fst f)" by (cases "fst f") (simp_all add: is_timer_def)
    then have "close_step C y (goes (y\<lparr>flights := [] @ fs\<rparr>) (handler C (fst f) ((demo_event [])\<lparr>ev_error := True\<rparr>) (sess y)))"
      by (intro cs_complete[OF f]) simp_all
    then show ?thesis ..
  next
    case False
    then have "close_step C y (goes (y\<lparr>flights := [] @ fs\<rparr>) (handler C (fst f) (demo_event []) (sess y)))"
      by (intro cs_complete[OF f]) (simp_all add: demo_event_def)
    then show ?thesis ..
  qed
qed


lemma close_run_ends:
  assumes "userClosed (sess y)"
  shows "\<exists>n z. close_run C y n z \<and> flights z = [] \<and> tasks z = []"
proof -
  have "\<exists>n z. close_run C y n z \<and> flights z = [] \<and> tasks z = []" if "close_run C y k x" "userClosed (sess x)" for k x
    using that
  proof (induction "work x" arbitrary: k x rule: less_induct)
    case less
    show ?case
    proof (cases "flights x = [] \<and> tasks x = []")
      case False
      then obtain w where "close_step C x w" using close_step_possible by blast
      then show ?thesis using less close_step_works cr_more by blast
    qed (use less.prems in blast)
  qed
  then show ?thesis using assms cr_start by blast
qed

text \<open>The connected session of the examples, closed by its user.\<close>

definition closed_sys :: sys where
  "closed_sys = the (apply_moves demo_codec [Close, Run_task (demo_event [])] demo_sys)"

lemma closed_sys: "userClosed (sess closed_sys)" "work closed_sys = 3"
  by code_simp+


end
