(* ===== verification/Io_Thread.thy ===== *)
theory Io_Thread
  imports Ws_Close
begin

text \<open>
  The io thread that \<open>ensureSession\<close> of \<open>src/lighter_ws_stream_manager.cpp\<close> starts: a loop around \<open>ioc.run()\<close>
  that goes on after an exception has left a handler, and \<open>ioc.stop()\<close>, by which the destructor of the
  manager ends it before it joins the thread.
\<close>

section \<open>The loop\<close>

text \<open>\<open>Head\<close> is the test of \<open>ioc.stopped()\<close> at the head of the loop, \<open>In_run\<close> inside \<open>ioc.run()\<close>, \<open>Ended\<close> after the
  \<open>break\<close>.  \<open>stop_flag\<close> is the flag of the context: \<open>stop()\<close> sets it, \<open>restart()\<close> clears it, and \<open>run()\<close> sets it
  when it returns because nothing is left to run.\<close>

datatype io_pc = Head | In_run | Ended

record io_thread =
  pc :: io_pc
  stop_flag :: bool
  ctx :: sys
  lines :: "severity list"         \<comment> \<open>what the catch clause has logged\<close>

text \<open>Whether an exception leaves the handler of an operation, or a task.\<close>

fun handler_raises :: "codec \<Rightarrow> op \<Rightarrow> event \<Rightarrow> ws \<Rightarrow> bool" where
  "handler_raises C (Read g) e s = isl (fst (onRead C g e s))"
| "handler_raises C (PingWait g) e s = isl (fst (onPingTimer C g e s))"
| "handler_raises C _ e s = False"

fun task_raises :: "codec \<Rightarrow> task \<Rightarrow> event \<Rightarrow> ws \<Rightarrow> bool" where
  "task_raises C Flush_topics e s = isl (fst (flushTopics C e s))"
| "task_raises C (Send_unsubscribe c) e s = isl (fst (send_unsubscribe C e c s))"
| "task_raises C _ e s = False"

text \<open>After one handler: the next one, or the catch clause and the head of the loop.\<close>

definition ran :: "bool \<Rightarrow> sys \<Rightarrow> io_thread \<Rightarrow> io_thread" where
  "ran raised y t = (if raised then t\<lparr>pc := Head, ctx := y, lines := lines t @ [Error]\<rparr> else t\<lparr>ctx := y\<rparr>)"

inductive io_step :: "codec \<Rightarrow> io_thread \<Rightarrow> io_thread \<Rightarrow> bool" for C :: codec where
  io_enter: "pc t = Head \<Longrightarrow> io_step C t (t\<lparr>stop_flag := False, pc := In_run\<rparr>)"
| io_complete: "pc t = In_run \<Longrightarrow> \<not> stop_flag t \<Longrightarrow> flights (ctx t) = fs @ (o', c) # gs \<Longrightarrow>
     (is_timer o' \<and> ev_error e \<longrightarrow> c) \<Longrightarrow> (is_read o' \<and> userClosed (sess (ctx t)) \<longrightarrow> ev_error e) \<Longrightarrow>
     io_step C t (ran (handler_raises C o' e (sess (ctx t)))
       (goes ((ctx t)\<lparr>flights := fs @ gs\<rparr>) (handler C o' e (sess (ctx t)))) t)"
| io_task: "pc t = In_run \<Longrightarrow> \<not> stop_flag t \<Longrightarrow> tasks (ctx t) = x # xs \<Longrightarrow>
     io_step C t (ran (task_raises C x e (sess (ctx t)))
       (goes ((ctx t)\<lparr>tasks := xs\<rparr>) (run_task C x e (sess (ctx t)))) t)"
| io_idle: "pc t = In_run \<Longrightarrow> flights (ctx t) = [] \<Longrightarrow> tasks (ctx t) = [] \<Longrightarrow>
     io_step C t (t\<lparr>stop_flag := True, pc := Ended\<rparr>)"
| io_stopped: "pc t = In_run \<Longrightarrow> stop_flag t \<Longrightarrow> io_step C t (t\<lparr>pc := Ended\<rparr>)"

inductive io_run :: "codec \<Rightarrow> io_thread \<Rightarrow> nat \<Rightarrow> io_thread \<Rightarrow> bool" for C :: codec and t where
  io_start: "io_run C t 0 t"
| io_more: "io_run C t n u \<Longrightarrow> io_step C u v \<Longrightarrow> io_run C t (Suc n) v"

text \<open>\<open>ioc.stop()\<close>, from another thread at any time.\<close>

definition io_stop :: "io_thread \<Rightarrow> io_thread" where
  "io_stop t = t\<lparr>stop_flag := True\<rparr>"

section \<open>The loop ends\<close>

text \<open>What an exception that leaves a handler costs is one more turn of the loop.\<close>

fun turns :: "io_pc \<Rightarrow> nat" where
  "turns Head = 2"
| "turns In_run = 1"
| "turns Ended = 0"

definition io_work :: "io_thread \<Rightarrow> nat" where
  "io_work t = 2 * work (ctx t) + turns (pc t)"

text \<open>A step is a step of the closed session, with at most one turn to follow, or a turn of the loop.\<close>

lemma io_step_cases:
  assumes "io_step C t u" "userClosed (sess (ctx t))"
  obtains "close_step C (ctx t) (ctx u)" "turns (pc u) \<le> turns (pc t) + 1"
  | "ctx u = ctx t" "turns (pc u) < turns (pc t)"
  using assms
proof (induction rule: io_step.induct)
  case (io_complete t fs o' c gs e)
  have "is_read o' \<longrightarrow> ev_error e" using io_complete.hyps(5) io_complete.prems(3) by blast
  from cs_complete[OF io_complete.hyps(3,4) this, of C] io_complete.hyps(1) show ?case
    by (intro io_complete.prems(1)) (simp_all add: ran_def)
next
  case (io_task t x xs e)
  from cs_task[OF io_task.hyps(3), of C e] io_task.hyps(1) show ?case
    by (intro io_task.prems(1)) (simp_all add: ran_def)
qed simp_all

lemma io_step_works:
  assumes "io_step C t u" "userClosed (sess (ctx t))"
  shows "io_work u < io_work t \<and> userClosed (sess (ctx u))"
proof (rule io_step_cases[OF assms])
  assume c: "close_step C (ctx t) (ctx u)" and p: "turns (pc u) \<le> turns (pc t) + 1"
  note w = close_step_works[OF c assms(2)]
  then have "2 * work (ctx u) + 2 \<le> 2 * work (ctx t)" by arith
  with p w show ?thesis unfolding io_work_def by linarith
next
  assume "ctx u = ctx t" "turns (pc u) < turns (pc t)"
  then show ?thesis using assms(2) by (simp add: io_work_def)
qed

lemma io_step_possible:
  assumes "pc t \<noteq> Ended" "userClosed (sess (ctx t))"
  shows "\<exists>u. io_step C t u"
proof (cases "pc t")
  case Head
  then show ?thesis using io_enter by blast
next
  case In_run
  show ?thesis
  proof (cases "stop_flag t")
    case True
    then show ?thesis using In_run io_stopped by blast
  next
    case go: False
    show ?thesis
    proof (cases "flights (ctx t) = [] \<and> tasks (ctx t) = []")
      case True
      then show ?thesis using In_run io_idle by blast
    next
      case False
      then have "flights (ctx t) \<noteq> [] \<or> tasks (ctx t) \<noteq> []" by simp
      from close_step_possible[OF this] obtain y where "close_step C (ctx t) y" ..
      then show ?thesis
      proof (cases rule: close_step.cases)
        case (cs_complete fs o' c gs e)
        then have "is_read o' \<and> userClosed (sess (ctx t)) \<longrightarrow> ev_error e" by simp
        from io_complete[OF In_run go cs_complete(2,3) this] show ?thesis ..
      next
        case (cs_task x xs e)
        from io_task[OF In_run go cs_task(2)] show ?thesis by (rule exI)
      qed
    qed
  qed
qed (use assms(1) in simp)

inductive_cases from_run: "io_step C t u"

text \<open>Inside \<open>run()\<close>, after \<open>stop()\<close>, no handler runs any more.\<close>

lemma stopped_run:
  assumes "io_run C t n u" "pc t = In_run" "stop_flag t"
  shows "n = 0 \<and> u = t \<or> n = 1 \<and> pc u = Ended \<and> ctx u = ctx t"
  using assms(1)
proof (induction rule: io_run.induct)
  case (io_more n u v)
  from io_more.hyps(2) show ?case
    by (cases rule: from_run) (use io_more.IH assms(2,3) in auto)
qed simp

text \<open>At the head of the loop, \<open>stop()\<close> is undone: the thread only ends when nothing is left to run.\<close>

lemma ran_flags: "pc (ran b y t) = (if b then Head else pc t)" "stop_flag (ran b y t) = stop_flag t"
  by (simp_all add: ran_def)

definition restarted :: "io_thread \<Rightarrow> bool" where
  "restarted t \<longleftrightarrow> (pc t = In_run \<longrightarrow> \<not> stop_flag t) \<and> (pc t = Ended \<longrightarrow> flights (ctx t) = [] \<and> tasks (ctx t) = [])"

lemma restarted_step: "io_step C t u \<Longrightarrow> restarted t \<Longrightarrow> restarted u"
  by (induction rule: io_step.induct) (simp_all add: restarted_def ran_flags)

lemma restarted_run: "io_run C t n u \<Longrightarrow> pc t = Head \<Longrightarrow> restarted u"
  by (induction rule: io_run.induct) (simp add: restarted_def, rule restarted_step)


text \<open>The lost \<open>stop()\<close>: the closed session of the examples, with the thread back at the head of its loop.  The
  handlers that were in flight run after \<open>stop()\<close>, and then the thread ends.\<close>

definition caught_thread :: io_thread where
  "caught_thread = \<lparr>pc = Head, stop_flag = False, ctx = closed_sys, lines = [Error]\<rparr>"

lemma io_run_ends:
  assumes "userClosed (sess (ctx t))"
  shows "\<exists>n u. io_run C t n u \<and> pc u = Ended"
proof -
  have "\<exists>n u. io_run C t n u \<and> pc u = Ended" if "io_run C t k x" "userClosed (sess (ctx x))" for k x
    using that
  proof (induction "io_work x" arbitrary: k x rule: less_induct)
    case less
    show ?case
    proof (cases "pc x = Ended")
      case False
      then obtain w where "io_step C x w" using io_step_possible less.prems(2) by blast
      then show ?thesis using less io_step_works io_more by blast
    qed (use less.prems in blast)
  qed
  then show ?thesis using assms io_start by blast
qed


end
