(* ===== verification/Ws_Topics.thy ===== *)
theory Ws_Topics
  imports Ws_Safety
begin

text \<open>
  The subscription bookkeeping of a session.  \<open>topic_registry\<close> is the contract the stream manager
  relies on when it subscribes, unsubscribes and resubscribes a channel; \<open>registry\<close> interprets it
  on the session's \<open>subscribe\<close>, \<open>unsubscribe\<close> and \<open>isSubscribed\<close>.  \<open>topics_result\<close> shows that no handler
  loses or invents a channel: the set of channels a session keeps is what the calls made so far ask
  for, across any number of reconnects.  The flags and the reconnect delay follow.
\<close>

section \<open>Topics\<close>

definition topics :: "ws \<Rightarrow> string set" where
  "topics s = set (subscriptions s) \<union> set (pendingTopics s)"

definition topics_ok :: "ws \<Rightarrow> bool" where
  "topics_ok s \<longleftrightarrow> distinct (subscriptions s @ pendingTopics s)"

locale topic_registry =
  fixes sub unsub :: "string \<Rightarrow> 's \<Rightarrow> 's"
    and member :: "'s \<Rightarrow> string \<Rightarrow> bool"
    and ok :: "'s \<Rightarrow> bool"
  assumes sub_member: "ok s \<Longrightarrow> member (sub c s) d \<longleftrightarrow> d = c \<or> member s d"
    and unsub_member: "ok s \<Longrightarrow> member (unsub c s) d \<longleftrightarrow> d \<noteq> c \<and> member s d"
    and sub_ok: "ok s \<Longrightarrow> ok (sub c s)"
    and unsub_ok: "ok s \<Longrightarrow> ok (unsub c s)"
begin

lemma resubscribe_member: "ok s \<Longrightarrow> member (sub c (unsub c s)) d \<longleftrightarrow> d = c \<or> member s d"
  by (auto simp: sub_member unsub_member unsub_ok)

lemma resubscribe_ok: "ok s \<Longrightarrow> ok (sub c (unsub c s))"
  by (simp add: sub_ok unsub_ok)

end

lemma isSubscribed_topics: "isSubscribed s c \<longleftrightarrow> c \<in> topics s"
  by (simp add: isSubscribed_def topics_def)

lemma topics_subscribe [simp]: "topics (fst (subscribe c s)) = insert c (topics s)"
  by (auto simp: topics_def subscribe_def addTopic_def)

lemma topics_unsubscribe: "topics_ok s \<Longrightarrow> topics (fst (unsubscribe c s)) = topics s - {c}"
  by (auto simp: topics_def topics_ok_def unsubscribe_def removeTopic_def Let_def)

lemma topics_ok_subscribe: "topics_ok s \<Longrightarrow> topics_ok (fst (subscribe c s))"
  by (auto simp: topics_ok_def subscribe_def addTopic_def)

lemma topics_ok_unsubscribe: "topics_ok s \<Longrightarrow> topics_ok (fst (unsubscribe c s))"
  by (auto simp: topics_ok_def unsubscribe_def removeTopic_def Let_def)

interpretation registry: topic_registry "\<lambda>c s. fst (subscribe c s)" "\<lambda>c s. fst (unsubscribe c s)"
  isSubscribed topics_ok
  by unfold_locales
    (auto simp: isSubscribed_topics topics_unsubscribe topics_ok_subscribe topics_ok_unsubscribe)

fun wanted :: "api \<Rightarrow> string set \<Rightarrow> string set" where
  "wanted (Api_subscribe c) W = insert c W"
| "wanted (Api_unsubscribe c) W = W - {c}"

lemma api_call_topics:
  "topics_ok s \<Longrightarrow> topics (fst (api_call a s)) = wanted a (topics s) \<and> topics_ok (fst (api_call a s))"
  by (cases a) (simp_all add: topics_unsubscribe topics_ok_subscribe topics_ok_unsubscribe case_prod_unfold Let_def)

lemma api_calls_topics:
  "topics_ok s \<Longrightarrow> topics (fst (api_calls cs s)) = fold wanted cs (topics s) \<and> topics_ok (fst (api_calls cs s))"
proof (induction cs arbitrary: s)
  case (Cons c cs)
  then show ?case using api_call_topics[OF Cons.prems, of c] Cons.IH[of "fst (api_call c s)"]
    by (simp add: case_prod_unfold Let_def)
qed simp

section \<open>No handler loses a channel\<close>

fun called1 :: "act \<Rightarrow> api list" where
  "called1 (Called a) = [a]"
| "called1 _ = []"

definition called :: "act list \<Rightarrow> api list" where
  "called acts = concat (map called1 acts)"

lemma called_simps [simp]:
  "called [] = []" "called (a # as) = called1 a @ called as" "called (as @ bs) = called as @ called bs"
  by (simp_all add: called_def)

lemma calls_goes [simp]: "calls (goes y r) = calls y @ called (snd r)"
proof -
  have "calls (fold perform acts y) = calls y @ called acts" for acts y
  proof (induction acts arbitrary: y)
    case (Cons a acts)
    show ?case using Cons[of "perform a y"] by (cases a) simp_all
  qed simp
  then show ?thesis by (simp add: goes_def performs_def)
qed

text \<open>What a transition does to the channels, and the bounds on the flags and the delay.\<close>

definition steady :: "ws \<Rightarrow> bool" where
  "steady s \<longleftrightarrow> topics_ok s \<and> connectedFlag s = ready s \<and>
     1 \<le> reconnectDelayS s \<and> reconnectDelayS s \<le> RECONNECT_DELAY_MAX_IN_S"

definition topics_result :: "ws \<Rightarrow> ws \<times> act list \<Rightarrow> bool" where
  "topics_result s r \<longleftrightarrow> topics (fst r) = fold wanted (called (snd r)) (topics s) \<and> steady (fst r)"

lemmas topics_defs = topics_result_def steady_def topics_def topics_ok_def

lemma topics_result_stay: "steady s \<Longrightarrow> topics_result s (s, [])"
  by (simp add: topics_result_def)

lemma pump_called: "called (snd (pump b s)) = []"
  by (simp add: pump_def split: list.splits)

lemma topics_pump: "steady s \<Longrightarrow> topics_result s (pump b s)"
  by (simp add: topics_defs pump_frame pump_called)

lemma topics_handleError: "steady s \<Longrightarrow> topics_result s (handleError gen s)"
  by (auto simp: handleError_def topics_defs RECONNECT_DELAY_MAX_IN_S_def)

lemma topics_startConnect: "steady s \<Longrightarrow> topics_result s (startConnect s)"
  by (auto simp: startConnect_def topics_defs Let_def)

lemma topics_closeByUser: "steady s \<Longrightarrow> topics_result s (closeByUser e s)"
  by (auto simp: closeByUser_def topics_defs)

lemma topics_flushTopics: "steady s \<Longrightarrow> topics_result s (snd (flushTopics C e s))"
proof -
  assume s: "steady s"
  let ?s1 = "s\<lparr>subscriptions := subscriptions s @ pendingTopics s, pendingTopics := []\<rparr>"
  obtain r s2 where e: "enqueue_subscribes C (ev_provider e) (pendingTopics s) ?s1 = (r, s2)" by force
  show ?thesis using s enqueue_subscribes_frame[OF e] e
    by (auto simp: flushTopics_def Let_def case_prod_unfold topics_defs pump_frame pump_called split: sum.splits)
qed

lemma topics_send: "steady s \<Longrightarrow> topics_result s (snd (send_unsubscribe C e c s))"
  by (auto simp: send_unsubscribe_def Let_def case_prod_unfold topics_defs pump_frame pump_called split: sum.splits)

lemma called_api_calls: "called (snd (api_calls cs s)) = cs"
proof (induction cs arbitrary: s)
  case (Cons c cs)
  have "called (snd (api_call c s)) = [c]"
    by (cases c; simp add: subscribe_def unsubscribe_def removeTopic_def Let_def case_prod_unfold)
  with Cons show ?case by (simp add: case_prod_unfold Let_def)
qed simp

lemma topics_api_calls: "steady s \<Longrightarrow> topics_result s (api_calls cs s)"
  using api_calls_topics[of s cs] api_calls_control[of cs s]
  by (simp add: topics_result_def steady_def called_api_calls control_def)

lemma topics_dispatch: "steady s \<Longrightarrow> topics_result s (snd (dispatch C e j s))"
proof -
  assume s: "steady s"
  let ?t = "s\<lparr>ready := True, connectedFlag := True, reconnectDelayS := 1\<rparr>"
  have t: "steady ?t" "topics ?t = topics s"
    using s by (simp_all add: steady_def topics_ok_def topics_def RECONNECT_DELAY_MAX_IN_S_def)
  have p: "topics_result s (pump (ev_open e) (enqueueOp m s))" for m
    using s by (simp add: topics_defs pump_frame pump_called)
  show ?thesis using topics_flushTopics[OF t(1), of C e] p topics_api_calls[OF s, of "ev_calls e"] s t(2)
    by (auto simp: dispatch_def Let_def case_prod_unfold topics_result_def split: sum.splits)
qed

lemma topics_result_trans:
  "topics_result s (t, as) \<Longrightarrow> topics_result t (u, bs) \<Longrightarrow> topics_result s (u, as @ bs)"
  by (simp add: topics_result_def)

lemma topics_after_dispatch: "steady s \<Longrightarrow> topics_result s (after_dispatch gen s)"
  by (auto simp: after_dispatch_def topics_defs RECONNECT_DELAY_MAX_IN_S_def)

lemma topics_catch: "topics_result s (t, as) \<Longrightarrow> topics_result s (snd (catch_json gen x t as))"
  using topics_handleError[of t gen] topics_result_trans[of s t as "fst (handleError gen t)" "snd (handleError gen t)"]
  by (auto simp: catch_json_def case_prod_unfold topics_result_def Let_def split: exn.split)

lemma topics_onRead: "steady s \<Longrightarrow> topics_result s (snd (onRead C gen e s))"
proof -
  assume s: "steady s"
  let ?s1 = "s\<lparr>lastActivity := ev_now e\<rparr>"
  have s1: "steady ?s1" "topics_result ?s1 r = topics_result s r" for r
    using s by (simp_all add: topics_defs)
  show ?thesis
  proof (cases "parse C (ev_raw e)")
    case (Inl x)
    then show ?thesis
      using topics_catch[OF topics_result_stay[OF s1(1)], of gen x] s topics_handleError[OF s, of gen] topics_result_stay[OF s]
      by (auto simp: onRead_def case_prod_unfold Let_def s1(2))
  next
    case (Inr j)
    obtain r s2 as where d: "(if is_object j then dispatch C e j ?s1 else (Inr (), ?s1, [])) = (r, s2, as)"
      by (metis prod_cases3)
    have 2: "topics_result ?s1 (s2, as)"
      using topics_dispatch[OF s1(1), of C e j] topics_result_stay[OF s1(1)] d by (metis snd_conv)
    then have 3: "topics_result ?s1 (fst (after_dispatch gen s2), as @ snd (after_dispatch gen s2))"
      using topics_after_dispatch[of s2 gen] by (auto intro: topics_result_trans simp: topics_result_def)
    show ?thesis using topics_catch[OF 2] 3 d Inr s topics_handleError[OF s, of gen] topics_result_stay[OF s]
      by (auto simp: onRead_def case_prod_unfold Let_def s1(2) split: sum.splits)
  qed
qed

lemma topics_handler: "steady s \<Longrightarrow> topics_result s (handler C o' e s)"
proof -
  assume s: "steady s"
  note facts = s topics_result_stay[OF s] topics_handleError[OF s] topics_onRead[OF s]
  show ?thesis
  proof (cases o')
    case (Handshake g)
    then show ?thesis using facts by (auto simp: handler_def onHandshake_def topics_defs)
  next
    case (Write g)
    have "steady (s\<lparr>writeInFlight := False\<rparr>)" using s by (simp add: topics_defs)
    from topics_pump[OF this] topics_handleError[OF this] Write show ?thesis
      using facts by (auto simp: handler_def onWrite_def topics_result_def topics_def Let_def)
  next
    case (PingWait g)
    have "steady (enqueueOp m s)" "topics (enqueueOp m s) = topics s" for m
      using s by (simp_all add: topics_defs)
    with topics_pump[of "enqueueOp m s" "ev_open e" for m] PingWait show ?thesis
      using facts by (auto simp: handler_def onPingTimer_def topics_result_def case_prod_unfold Let_def split: sum.splits)
  next
    case (ReconnectWait g)
    have "steady (s\<lparr>reconnectScheduled := False\<rparr>)" using s by (simp add: topics_defs)
    from topics_startConnect[OF this] this ReconnectWait show ?thesis
      using facts by (auto simp: handler_def onReconnectTimer_def topics_result_def topics_def Let_def)
  qed (use facts in \<open>auto simp: handler_def onResolve_def onConnect_def onSSLHandshake_def topics_result_def\<close>)
qed

lemma topics_run_task: "steady s \<Longrightarrow> topics_result s (run_task C t e s)"
  by (cases t) (auto simp: run_task_def topics_startConnect topics_flushTopics topics_send topics_closeByUser)

lemma topics_api_call: "steady s \<Longrightarrow> topics_result s (api_call a s)"
  using topics_api_calls[of s "[a]"] by (simp add: case_prod_unfold Let_def)

lemma steady_step:
  "ws_step C y z \<Longrightarrow> steady (sess y) \<and> topics (sess y) = fold wanted (calls y) {} \<Longrightarrow>
     steady (sess z) \<and> topics (sess z) = fold wanted (calls z) {}"
  by (induction rule: ws_step.induct)
    (use topics_handler topics_run_task topics_api_call in \<open>auto simp: topics_result_def\<close>)

lemma steady_reachable:
  "ws_reachable C y \<Longrightarrow> steady (sess y) \<and> topics (sess y) = fold wanted (calls y) {}"
proof (induction rule: ws_reachable.induct)
  case start
  show ?case by (simp add: sys_init_def ws_init_def topics_defs RECONNECT_DELAY_MAX_IN_S_def)
next
  case (step y z)
  then show ?case using steady_step by blast
qed

section \<open>The property\<close>

text \<open>Property C20: across every interleaving of connects, errors, reconnects and messages, the
  channels a session holds (confirmed or pending) are exactly those its calls of \<open>subscribe\<close> and
  \<open>unsubscribe\<close>, in the order they were made, ask for; none is held twice; \<open>isConnected\<close> follows the
  greeting; and the reconnect delay stays between 1 s and 30 s.\<close>

theorem session_tracks_calls:
  assumes "ws_reachable C y"
  shows "{c. isSubscribed (sess y) c} = fold wanted (calls y) {} \<and>
    distinct (subscriptions (sess y) @ pendingTopics (sess y)) \<and>
    connectedFlag (sess y) = ready (sess y) \<and>
    1 \<le> reconnectDelayS (sess y) \<and> reconnectDelayS (sess y) \<le> 30"
  using steady_reachable[OF assms]
  by (simp add: isSubscribed_topics steady_def topics_ok_def RECONNECT_DELAY_MAX_IN_S_def)

theorem session_tracks_calls_witness:
  "{c. isSubscribed (sess demo_sys) c} = {''a''}"
proof -
  have "calls demo_sys = [Api_subscribe ''a'']" by code_simp
  with session_tracks_calls[OF demo_reachable] show ?thesis by simp
qed

end
