(* ===== verification/Ws_Replay.thy ===== *)
theory Ws_Replay
  imports Ws_Topics
begin

text \<open>
  What the session sends: the frames of a flush in the order of the pending channels, the replay
  of every subscription after a reconnect, and the back-off of a session whose connects fail.
\<close>

section \<open>Frames handed to the stream\<close>

fun sent1 :: "act \<Rightarrow> string list" where
  "sent1 (Start_write g m) = [m]"
| "sent1 _ = []"

definition sent :: "act list \<Rightarrow> string list" where
  "sent acts = concat (map sent1 acts)"

lemma sent_simps [simp]:
  "sent [] = []" "sent (a # as) = sent1 a @ sent as" "sent (as @ bs) = sent as @ sent bs"
  by (simp_all add: sent_def)

text \<open>The pump moves the head of the queue to the stream and keeps the order.\<close>

lemma pump_fifo: "sent (snd (pump b s)) @ outboundQueue (fst (pump b s)) = outboundQueue s"
  by (simp add: pump_def split: list.splits)

lemma pump_starts:
  "\<not> writeInFlight s \<Longrightarrow> connected s \<Longrightarrow> hasSocket s \<Longrightarrow> outboundQueue s = m # ms \<Longrightarrow>
     pump True s = (s\<lparr>writeBuffer := m, outboundQueue := ms, writeInFlight := True\<rparr>,
       [Start_write (generation s) m])"
  by (simp add: pump_def)

definition frames_ok ::
  "codec \<Rightarrow> (string \<Rightarrow> exn + string) option \<Rightarrow> (string \<Rightarrow> string) \<Rightarrow> string list \<Rightarrow> bool" where
  "frames_ok C p f cs \<longleftrightarrow> list_all (\<lambda>c. subscribeMsg C p c = Inr (f c)) cs"

lemma enqueue_subscribes_frames:
  "frames_ok C p f cs \<Longrightarrow>
     enqueue_subscribes C p cs s = (Inr (), s\<lparr>outboundQueue := outboundQueue s @ map f cs\<rparr>)"
  by (induction cs arbitrary: s) (simp_all add: frames_ok_def enqueueOp_def)

lemma flush_frames:
  assumes "connected s" "ready s" "frames_ok C (ev_provider e) f (pendingTopics s)"
    "flushTopics C e s = (r, s', acts)"
  shows "r = Inr () \<and> subscriptions s' = subscriptions s @ pendingTopics s \<and> pendingTopics s' = [] \<and>
    sent acts @ outboundQueue s' = outboundQueue s @ map f (pendingTopics s)"
proof -
  let ?s1 = "s\<lparr>subscriptions := subscriptions s @ pendingTopics s, pendingTopics := []\<rparr>"
  let ?s2 = "?s1\<lparr>outboundQueue := outboundQueue s @ map f (pendingTopics s)\<rparr>"
  have "flushTopics C e s = (Inr (), pump (ev_open e) ?s2)"
    using assms(1,2) enqueue_subscribes_frames[OF assms(3), of ?s1]
    by (simp add: flushTopics_def Let_def case_prod_unfold)
  with assms(4) have "r = Inr ()" "s' = fst (pump (ev_open e) ?s2)" "acts = snd (pump (ev_open e) ?s2)"
    by auto
  then show ?thesis using pump_fifo[of "ev_open e" ?s2] by (simp add: pump_frame)
qed

text \<open>A flush on an established, greeted connection marks every pending channel
  subscribed and hands over exactly one subscribe frame per pending channel, in order, behind the
  frames that were queued already; what the stream has not accepted yet stays queued.\<close>

theorem flush_sends_pending_in_order:
  assumes "connected s" "ready s" "frames_ok C (ev_provider e) f (pendingTopics s)"
    "flushTopics C e s = (r, s', acts)"
  shows "r = Inr () \<and> subscriptions s' = subscriptions s @ pendingTopics s \<and> pendingTopics s' = [] \<and>
    sent acts @ outboundQueue s' = outboundQueue s @ map f (pendingTopics s)"
  using flush_frames[OF assms] .

theorem flush_sends_pending_in_order_witness:
  "\<exists>s' acts. flushTopics demo_codec (demo_event [])
       (ws_init\<lparr>hasSocket := True, connected := True, ready := True, pendingTopics := [''a'', ''b'']\<rparr>) = (Inr (), s', acts)
     \<and> sent acts @ outboundQueue s' = [''subscribe a'', ''subscribe b'']"
proof -
  let ?s = "ws_init\<lparr>hasSocket := True, connected := True, ready := True, pendingTopics := [''a'', ''b'']\<rparr>"
  let ?f = "\<lambda>c. ''subscribe '' @ c"
  have 1: "connected ?s" "ready ?s" by simp_all
  have 2: "frames_ok demo_codec (ev_provider (demo_event [])) ?f (pendingTopics ?s)"
    by (simp add: frames_ok_def subscribeMsg_def demo_codec_def demo_event_def
        jstring_or_empty_def)
  obtain r s' acts where r: "flushTopics demo_codec (demo_event []) ?s = (r, s', acts)" by (metis prod_cases3)
  from flush_sends_pending_in_order[OF 1 2 r] r show ?thesis by (auto simp: ws_init_def)
qed

section \<open>Replay after a reconnect\<close>

text \<open>One reconnect as the handlers run it: the error, the reconnect timer, the connect chain and
  the venue's greeting.\<close>

definition reconnect :: "codec \<Rightarrow> event \<Rightarrow> event \<Rightarrow> ws \<Rightarrow> (exn + unit) \<times> ws \<times> act list" where
  "reconnect C ok greeting s =
     (let (s1, a1) = handleError (generation s) s;
          (s2, a2) = onReconnectTimer (generation s1) ok s1;
          (s3, a3) = onResolve (generation s2) ok s2;
          (s4, a4) = onConnect (generation s2) ok s3;
          (s5, a5) = onSSLHandshake (generation s2) ok s4;
          (s6, a6) = onHandshake (generation s2) ok s5;
          (r, s7, a7) = onRead C (generation s2) greeting s6
      in (r, s7, a1 @ a2 @ a3 @ a4 @ a5 @ a6 @ a7))"

definition greets :: "codec \<Rightarrow> event \<Rightarrow> bool" where
  "greets C e \<longleftrightarrow> \<not> ev_error e \<and> ev_open e \<and>
     (\<exists>j. parse C (ev_raw e) = Inr j \<and> is_object j \<and> jstring_or_empty ''type'' j = ''connected'')"

lemma onRead_greeting:
  assumes "greets C e" "gen = generation s" "connected s" "\<not> reconnectScheduled s"
    "frames_ok C (ev_provider e) f (pendingTopics s)"
  obtains s' acts where "onRead C gen e s = (Inr (), s', acts)"
    "subscriptions s' = subscriptions s @ pendingTopics s" "pendingTopics s' = []"
    "sent acts @ outboundQueue s' = outboundQueue s @ map f (pendingTopics s)"
    "ready s'" "connectedFlag s'" "reconnectDelayS s' = 1" "generation s' = generation s" "connected s'"
proof -
  let ?t = "s\<lparr>lastActivity := ev_now e, ready := True, connectedFlag := True, reconnectDelayS := 1\<rparr>"
  obtain j where j: "parse C (ev_raw e) = Inr j" "is_object j" "jstring_or_empty ''type'' j = ''connected''"
    "\<not> ev_error e" using assms(1) by (auto simp: greets_def)
  obtain r s1 acts where fl: "flushTopics C e ?t = (r, s1, acts)" by (metis prod_cases3)
  have fr: "r = Inr ()" "subscriptions s1 = subscriptions s @ pendingTopics s" "pendingTopics s1 = []"
      "sent acts @ outboundQueue s1 = outboundQueue s @ map f (pendingTopics s)"
    using flush_frames[OF _ _ _ fl] assms(3,5) by simp_all
  have "s1 = fst (pump (ev_open e) (?t\<lparr>subscriptions := subscriptions s @ pendingTopics s, pendingTopics := [],
      outboundQueue := outboundQueue s @ map f (pendingTopics s)\<rparr>))"
    using fl enqueue_subscribes_frames[OF assms(5)] assms(3)
    by (auto simp: flushTopics_def Let_def case_prod_unfold)
  then have fr2: "ready s1" "connectedFlag s1" "reconnectDelayS s1 = 1" "generation s1 = generation s" "connected s1"
      "\<not> reconnectScheduled s1"
    using assms(3,4) by (simp_all add: pump_frame)
  have "onRead C gen e s = (Inr (), s1, Log Info # acts @ [Start (Read gen)])"
    using j assms(2) fl fr fr2 by (simp add: onRead_def dispatch_def after_dispatch_def Let_def case_prod_unfold)
  then show thesis using that fr fr2 by simp
qed

text \<open>Property C21: after a transport error on a running session, a successful reconnect with the
  venue's greeting leaves every channel the session had, sent or pending, subscribed in its old
  order, sends one fresh subscribe frame for each and nothing else (frames queued for the old
  connection are dropped), resets the back-off, and reports itself connected.\<close>

theorem reconnect_replays_subscriptions:
  assumes "\<not> reconnectScheduled s" "\<not> userClosed s" "\<not> ev_error ok" "ev_sni ok" "greets C greeting"
    "frames_ok C (ev_provider greeting) f (subscriptions s @ pendingTopics s)"
    "reconnect C ok greeting s = (r, s', acts)"
  shows "r = Inr () \<and> subscriptions s' = subscriptions s @ pendingTopics s \<and> pendingTopics s' = [] \<and>
    sent acts @ outboundQueue s' = map f (subscriptions s @ pendingTopics s) \<and>
    generation s' = generation s + 1 \<and> connectedFlag s' \<and> reconnectDelayS s' = 1"
proof -
  let ?T = "subscriptions s @ pendingTopics s" and ?g = "generation s + 1"
  obtain s6 acts6 where s6: "\<And>r s7 a7. onRead C ?g greeting s6 = (r, s7, a7) \<Longrightarrow>
      reconnect C ok greeting s = (r, s7, acts6 @ a7)" "sent acts6 = []"
      "pendingTopics s6 = ?T" "subscriptions s6 = []" "outboundQueue s6 = []" "connected s6"
      "generation s6 = ?g" "\<not> reconnectScheduled s6"
  proof -
    let ?s6 = "s\<lparr>outboundQueue := [], pendingTopics := ?T, subscriptions := [],
        reconnectDelayS := min (reconnectDelayS s * 2) RECONNECT_DELAY_MAX_IN_S,
        reconnectScheduled := False, generation := ?g, ready := False, connectedFlag := False,
        writeInFlight := False, hasSocket := True, connected := True, lastActivity := ev_now ok\<rparr>"
    let ?a6 = "[Log Error, Cancel_ping] @ (if hasSocket s then [Close_socket] else []) @
        [Log Warning, Cancel_reconnect, Reconnect_in (reconnectDelayS s), Start (ReconnectWait (generation s)),
         Start (Resolve ?g), Start (Connect ?g), Start (TlsHandshake ?g), Start (Handshake ?g),
         Cancel_ping, Start (PingWait ?g), Start (Read ?g)]"
    have "reconnect C ok greeting s = (let (r, s7, a7) = onRead C ?g greeting ?s6 in (r, s7, ?a6 @ a7))"
      using assms(1-4)
      by (simp add: reconnect_def handleError_def onReconnectTimer_def startConnect_def onResolve_def
          onConnect_def onSSLHandshake_def onHandshake_def Let_def)
    then show thesis by (intro that[of ?s6 ?a6]) simp_all
  qed
  have "frames_ok C (ev_provider greeting) f (pendingTopics s6)" using assms(6) s6(3) by simp
  from onRead_greeting[OF assms(5) s6(7)[symmetric] s6(6,8) this]
  obtain s7 a7 where r: "onRead C ?g greeting s6 = (Inr (), s7, a7)"
      "subscriptions s7 = ?T" "pendingTopics s7 = []" "sent a7 @ outboundQueue s7 = map f ?T"
      "connectedFlag s7" "reconnectDelayS s7 = 1" "generation s7 = ?g"
    using s6(3-5,7) by (metis append_Nil)
  show ?thesis using s6(1)[OF r(1)] assms(7) r s6(2) by simp
qed

theorem reconnect_replays_subscriptions_witness:
  "\<exists>s' acts. reconnect demo_codec (demo_event []) (demo_event ''connected'') (sess demo_sys) = (Inr (), s', acts)
     \<and> sent acts @ outboundQueue s' = [''subscribe a''] \<and> generation s' = 2"
proof -
  let ?s = "sess demo_sys"
  have 0: "\<not> reconnectScheduled ?s \<and> \<not> userClosed ?s \<and> subscriptions ?s = [''a''] \<and> pendingTopics ?s = []
      \<and> generation ?s = 1" by code_simp
  have 1: "\<not> ev_error (demo_event [])" "ev_sni (demo_event [])" "greets demo_codec (demo_event ''connected'')"
    by (simp_all add: demo_event_def greets_def demo_codec_def is_object_def jstring_or_empty_def)
  have 2: "frames_ok demo_codec (ev_provider (demo_event ''connected'')) (\<lambda>c. ''subscribe '' @ c)
      (subscriptions ?s @ pendingTopics ?s)"
    using 0 by (simp add: frames_ok_def subscribeMsg_def demo_codec_def demo_event_def jstring_or_empty_def)
  obtain r s' acts where r: "reconnect demo_codec (demo_event []) (demo_event ''connected'') ?s = (r, s', acts)"
    by (metis prod_cases3)
  from reconnect_replays_subscriptions[OF _ _ 1 2 r] 0 r show ?thesis by auto
qed

section \<open>Back-off\<close>

definition delays :: "act list \<Rightarrow> int list" where
  "delays acts = concat (map (\<lambda>a. case a of Reconnect_in d \<Rightarrow> [d] | _ \<Rightarrow> []) acts)"

text \<open>\<open>n\<close> rounds in which the resolver fails and the reconnect timer then expires.\<close>

fun failed_rounds :: "event \<Rightarrow> event \<Rightarrow> nat \<Rightarrow> ws \<Rightarrow> ws \<times> act list" where
  "failed_rounds bad ok 0 s = (s, [])"
| "failed_rounds bad ok (Suc n) s =
     (let (s1, a1) = onResolve (generation s) bad s;
          (s2, a2) = onReconnectTimer (generation s1) ok s1;
          (s3, a3) = failed_rounds bad ok n s2
      in (s3, a1 @ a2 @ a3))"

definition backoff :: "nat \<Rightarrow> int" where
  "backoff i = min (2 ^ i) RECONNECT_DELAY_MAX_IN_S"

lemma backoff_Suc: "min (backoff i * 2) RECONNECT_DELAY_MAX_IN_S = backoff (Suc i)"
  by (auto simp: backoff_def RECONNECT_DELAY_MAX_IN_S_def min_def)

lemma failed_rounds_delays:
  assumes "\<not> userClosed s" "\<not> reconnectScheduled s" "reconnectDelayS s = backoff i" "ev_error bad" "\<not> ev_error ok"
  shows "delays (snd (failed_rounds bad ok n s)) = map backoff [i..<i + n]"
  using assms(1-3)
proof (induction n arbitrary: s i)
  case (Suc n)
  let ?s1 = "fst (onResolve (generation s) bad s)"
  let ?r = "onReconnectTimer (generation ?s1) ok ?s1"
  have d: "delays (snd (onResolve (generation s) bad s)) = [backoff i]" "delays (snd ?r) = []"
    using Suc.prems assms(4,5)
    by (auto simp: delays_def onResolve_def handleError_def onReconnectTimer_def startConnect_def Let_def)
  have "delays (snd (failed_rounds bad ok n (fst ?r))) = map backoff [Suc i..<Suc i + n]"
    using Suc.prems assms(4,5) backoff_Suc[of i]
    by (intro Suc.IH) (simp_all add: onResolve_def handleError_def onReconnectTimer_def startConnect_def Let_def)
  then have "delays (snd (failed_rounds bad ok (Suc n) s)) = backoff i # map backoff [Suc i..<Suc i + n]"
    using d by (simp add: delays_def case_prod_unfold Let_def)
  then show ?case by (simp add: upt_conv_Cons del: upt_Suc failed_rounds.simps)
qed (simp add: delays_def)



section \<open>Three surprises\<close>

text \<open>A read that completes while the session is backing off still runs \<open>onRead\<close>, since only the
  generation is checked: a greeting then makes \<open>isConnected\<close> true with no transport up.\<close>

definition late_greeting :: "move list" where
  "late_greeting = demo_moves @
     [Complete 1 (demo_event []\<lparr>ev_error := True\<rparr>), Complete 1 (demo_event ''connected'')]"

lemma greeting_during_backoff:
  "\<exists>y. ws_reachable demo_codec y \<and> connectedFlag (sess y) \<and> \<not> connected (sess y) \<and> reconnectScheduled (sess y)"
proof -
  have "\<exists>y. apply_moves demo_codec late_greeting sys_init = Some y \<and>
      connectedFlag (sess y) \<and> \<not> connected (sess y) \<and> reconnectScheduled (sess y)"
  proof -
    have "(case apply_moves demo_codec late_greeting sys_init of None \<Rightarrow> False
      | Some y \<Rightarrow> connectedFlag (sess y) \<and> \<not> connected (sess y) \<and> reconnectScheduled (sess y))" by code_simp
    then show ?thesis by (auto split: option.splits)
  qed
  then show ?thesis using apply_moves_reachable[OF ws_reachable.start] by blast
qed

text \<open>\<open>close()\<close> leaves \<open>isConnected\<close> true, also once the closed stream's read has failed.\<close>

lemma close_keeps_connected:
  "\<exists>y. ws_reachable demo_codec y \<and> userClosed (sess y) \<and> connectedFlag (sess y) \<and> in_flight (flights y) (Read 1) = 0"
proof -
  have "(case apply_moves demo_codec (demo_moves @ [Close, Run_task (demo_event []),
          Complete 2 (demo_event []\<lparr>ev_error := True\<rparr>)]) sys_init of None \<Rightarrow> False
      | Some y \<Rightarrow> userClosed (sess y) \<and> connectedFlag (sess y) \<and> in_flight (flights y) (Read 1) = 0)" by code_simp
  then show ?thesis using apply_moves_reachable[OF ws_reachable.start] by (auto split: option.splits)
qed

text \<open>A token provider that throws in \<open>flushTopics\<close> leaves the channel marked subscribed although no
  frame for it was queued or sent.\<close>

lemma failed_token_loses_subscribe:
  "\<exists>e s'. flushTopics demo_codec e (sess demo_sys\<lparr>writeInFlight := False, pendingTopics := [''b'']\<rparr>)
       = (Inl (Runtime_error ''no token''), s', []) \<and>
     ''b'' \<in> set (subscriptions s') \<and> pendingTopics s' = [] \<and> outboundQueue s' = []"
proof -
  let ?e = "demo_event []\<lparr>ev_provider := Some (\<lambda>c. Inl (Runtime_error ''no token''))\<rparr>"
  have "sess demo_sys = \<lparr>hasSocket = True, outboundQueue = [], writeInFlight = True,
       writeBuffer = ''subscribe a'', subscriptions = [''a''], pendingTopics = [], reconnectDelayS = 1,
       generation = 1, connected = True, ready = True, connectedFlag = True,
       reconnectScheduled = False, userClosed = False, lastActivity = 0\<rparr>" by code_simp
  then show ?thesis
    by (intro exI[of _ ?e]) (simp add: flushTopics_def subscribeMsg_def demo_event_def)
qed

end
