(* ===== verification/Ws_Stream.thy ===== *)
theory Ws_Stream
  imports Ws_Topics
begin

text \<open>
  \<open>src/lighter_ws_stream_manager.cpp\<close>: the local order books kept from snapshots and deltas, the
  dispatch of the venue's messages to the consumer's callbacks, and the lazy creation of the
  session.

  A side of a book is a \<open>std::map<double, double, Compare>\<close>: here the list of its entries in
  the order of the comparator.  \<open>lower_bound\<close>, \<open>operator[]\<close> and \<open>erase(key)\<close> use the comparator
  only, as the C++ containers do; two keys are equivalent when neither comes before the other.  A
  NaN key makes \<open>Compare\<close> no strict weak order, for which C++ promises nothing; the lemmas exclude
  it by \<open>no_nan\<close>.  \<open>price_side\<close> is the contract of a comparator, interpreted on the two the book
  uses: \<open>std::greater\<close> for the bids, \<open>std::less\<close> for the asks.

  The session is reached through the calls it gets (\<open>Session_call\<close>); \<open>Ws_Topics.registry\<close> says what they
  do to its channels.
\<close>

section \<open>Reading the wire\<close>

definition channelId :: "string \<Rightarrow> int" where
  "channelId channel =
     (case dropWhile (\<lambda>c. c \<noteq> CHR '':'' \<and> c \<noteq> CHR ''/'') channel of
        [] \<Rightarrow> - 1
      | _ # rest \<Rightarrow> (case stoi rest of None \<Rightarrow> - 1 | Some n \<Rightarrow> n))"

definition toDouble :: "json \<Rightarrow> double" where
  "toDouble v = (case v of
     JString s \<Rightarrow> (case stod s of None \<Rightarrow> 0 | Some x \<Rightarrow> x)
   | JInt i \<Rightarrow> of_integer i
   | JFloat x \<Rightarrow> x
   | _ \<Rightarrow> 0)"

lemma channelId_slash:
  assumes "\<forall>c\<in>set p. c \<noteq> CHR '':'' \<and> c \<noteq> CHR ''/''" "int32_range n" "sep = CHR '':'' \<or> sep = CHR ''/''"
  shows "channelId (p @ sep # fmt_int n) = n"
proof -
  have "dropWhile (\<lambda>c. c \<noteq> CHR '':'' \<and> c \<noteq> CHR ''/'') (p @ sep # fmt_int n) = sep # fmt_int n"
    using assms(1,3) by (subst dropWhile_append2) auto
  then show ?thesis using stoi_fmt_int[OF assms(2)] by (simp add: channelId_def)
qed

section \<open>A side of the book\<close>

type_synonym side = "(double \<times> double) list"

fun side_put :: "(double \<Rightarrow> double \<Rightarrow> bool) \<Rightarrow> double \<Rightarrow> double \<Rightarrow> side \<Rightarrow> side" where
  "side_put lt k v [] = [(k, v)]"
| "side_put lt k v ((k', v') # r) =
     (if lt k' k then (k', v') # side_put lt k v r
      else if lt k k' then (k, v) # (k', v') # r
      else (k', v) # r)"

definition side_erase :: "(double \<Rightarrow> double \<Rightarrow> bool) \<Rightarrow> double \<Rightarrow> side \<Rightarrow> side" where
  "side_erase lt k xs = filter (\<lambda>(k', v). lt k' k \<or> lt k k') xs"

text \<open>One level of the message, and the loop over them; \<open>lvl.value(...)\<close> throws on a level that
  is not an object, after the earlier levels have been applied.\<close>

definition applyLevel :: "(double \<Rightarrow> double \<Rightarrow> bool) \<Rightarrow> double \<Rightarrow> double \<Rightarrow> side \<Rightarrow> side" where
  "applyLevel lt price qty xs =
     (if price \<le> 0 then xs
      else if qty = 0 then side_erase lt price xs
      else side_put lt price qty xs)"

definition level_of :: "json \<Rightarrow> exn + double \<times> double" where
  "level_of lvl =
     and_then (jvalue lvl ''price'' (JInt 0)) (\<lambda>p.
     and_then (jvalue lvl ''size'' (JInt 0)) (\<lambda>q. Inr (toDouble p, toDouble q)))"

fun applyLevels :: "(double \<Rightarrow> double \<Rightarrow> bool) \<Rightarrow> side \<Rightarrow> json list \<Rightarrow> (exn + unit) \<times> side" where
  "applyLevels lt xs [] = (Inr (), xs)"
| "applyLevels lt xs (l # ls) = (case level_of l of
     Inl e \<Rightarrow> (Inl e, xs)
   | Inr (price, qty) \<Rightarrow> applyLevels lt (applyLevel lt price qty xs) ls)"

definition side_best :: "side \<Rightarrow> double" where
  "side_best xs = (case xs of [] \<Rightarrow> 0 | (k, v) # r \<Rightarrow> k)"

section \<open>The contract of a comparator\<close>

definition side_ok :: "(double \<Rightarrow> double \<Rightarrow> bool) \<Rightarrow> side \<Rightarrow> bool" where
  "side_ok lt xs \<longleftrightarrow> sorted_wrt lt (map fst xs) \<and> (\<forall>k\<in>set (map fst xs). 0 < k) \<and> (\<forall>v\<in>set (map snd xs). v \<noteq> 0)"

text \<open>What a level means for the map from prices to sizes.\<close>

definition level_map :: "double \<Rightarrow> double \<Rightarrow> (double \<rightharpoonup> double) \<Rightarrow> (double \<rightharpoonup> double)" where
  "level_map price qty m =
     (if price \<le> 0 then m else if qty = 0 then m(price := None) else m(price \<mapsto> qty))"

locale price_side =
  fixes lt :: "double \<Rightarrow> double \<Rightarrow> bool"
  assumes lt_trans: "lt a b \<Longrightarrow> lt b c \<Longrightarrow> lt a c"
    and lt_irrefl: "\<not> lt a a"
    and lt_total: "a \<noteq> NaN \<Longrightarrow> b \<noteq> NaN \<Longrightarrow> \<not> lt a b \<Longrightarrow> \<not> lt b a \<Longrightarrow> a = b"
begin

lemma put_entries:
  "(a, b) \<in> set (side_put lt k v xs) \<Longrightarrow> (a = k \<or> a \<in> fst ` set xs) \<and> (b = v \<or> b \<in> snd ` set xs)"
proof (induction xs)
  case (Cons x xs)
  then show ?case by (cases x) (force split: if_splits)
qed simp

lemma put_sorted: "sorted_wrt lt (map fst xs) \<Longrightarrow> sorted_wrt lt (map fst (side_put lt k v xs))"
proof (induction xs)
  case (Cons x xs)
  obtain k' v' where x: "x = (k', v')" by force
  have IH: "sorted_wrt lt (map fst (side_put lt k v xs))" using Cons by simp
  have tail: "lt k' y" if "y \<in> fst ` set xs" for y using that Cons.prems x by auto
  have put: "lt k' y" if "lt k' k" "y \<in> fst ` set (side_put lt k v xs)" for y
    using that tail put_entries by force
  have "lt k y" if "lt k k'" "y \<in> fst ` set xs" for y using lt_trans[OF that(1) tail[OF that(2)]] .
  then show ?case using Cons.prems IH put tail x by auto
qed simp

lemma put_map:
  assumes "sorted_wrt lt (map fst xs)" "\<forall>y\<in>fst ` set xs. y \<noteq> NaN" "k \<noteq> NaN"
  shows "map_of (side_put lt k v xs) = (map_of xs)(k \<mapsto> v)"
  using assms(1,2)
proof (induction xs)
  case (Cons x xs)
  obtain k' v' where x: "x = (k', v')" by force
  have IH: "map_of (side_put lt k v xs) = (map_of xs)(k \<mapsto> v)"
    by (rule Cons.IH) (use Cons.prems in simp_all)
  consider "lt k' k" "k' \<noteq> k" | "\<not> lt k' k" "lt k k'" "k' \<noteq> k" | "\<not> lt k' k" "\<not> lt k k'" "k' = k"
    using lt_total[of k' k] lt_irrefl Cons.prems x assms(3) by fastforce
  then show ?case by cases (use IH x in \<open>auto simp: fun_upd_twist fun_upd_def fun_eq_iff\<close>)
qed simp

lemma erase_map:
  assumes "\<forall>y\<in>fst ` set xs. y \<noteq> NaN" "k \<noteq> NaN"
  shows "map_of (side_erase lt k xs) = (map_of xs)(k := None)"
  using assms(1)
proof (induction xs)
  case (Cons x xs)
  obtain k' v' where x: "x = (k', v')" by force
  have "k' = k \<longleftrightarrow> \<not> lt k' k \<and> \<not> lt k k'" using lt_total lt_irrefl Cons.prems x assms(2) by auto
  then show ?case using Cons x by (auto simp: side_erase_def)
qed (simp add: side_erase_def)

lemma erase_sorted: "sorted_wrt lt (map fst xs) \<Longrightarrow> sorted_wrt lt (map fst (side_erase lt k xs))"
  by (induction xs) (auto simp: side_erase_def)

lemma side_ok_no_nan: "side_ok lt xs \<Longrightarrow> \<forall>y\<in>fst ` set xs. y \<noteq> NaN"
  by (auto simp: side_ok_def)

lemma applyLevel_ok:
  assumes "side_ok lt xs" "price \<noteq> NaN"
  shows "side_ok lt (applyLevel lt price qty xs)"
proof -
  have "0 < price" if "\<not> price \<le> 0"
    using that double_not_less[of 0 price] assms(2) by (auto simp: zero_double_def)
  then show ?thesis
    using assms put_sorted[of xs price qty] erase_sorted[of xs price]
    by (auto simp: applyLevel_def side_ok_def side_erase_def dest!: put_entries)
qed

lemma applyLevel_map:
  assumes "side_ok lt xs" "price \<noteq> NaN"
  shows "map_of (applyLevel lt price qty xs) = level_map price qty (map_of xs)"
  using assms side_ok_no_nan[OF assms(1)] put_map[of xs price qty] erase_map[of xs price]
  by (simp add: applyLevel_def level_map_def side_ok_def)

lemma best_first:
  assumes "side_ok lt xs" "map_of xs k = Some v"
  shows "side_best xs = k \<or> lt (side_best xs) k"
proof (cases xs)
  case (Cons x r)
  then obtain a b where x: "x = (a, b)" by force
  have "k \<in> fst ` set xs" using assms(2) by (meson domI domIff map_of_eq_None_iff)
  then show ?thesis using assms(1) Cons x by (auto simp: side_ok_def side_best_def)
qed (use assms in simp)

lemma best_member: "side_ok lt xs \<Longrightarrow> xs \<noteq> [] \<Longrightarrow> 0 < side_best xs \<and> map_of xs (side_best xs) \<noteq> None"
  by (cases xs) (auto simp: side_best_def side_ok_def)

end

interpretation bid: price_side "\<lambda>a b. b < (a :: double)"
  by unfold_locales (auto intro: double_less_trans dest: double_trichotomy)

interpretation ask: price_side "\<lambda>a b. a < (b :: double)"
  by unfold_locales (auto intro: double_less_trans dest: double_trichotomy)

text \<open>The loop, where no price is NaN.\<close>

definition level_no_nan :: "json \<Rightarrow> bool" where
  "level_no_nan l \<longleftrightarrow> (case level_of l of Inl e \<Rightarrow> True | Inr (p, s) \<Rightarrow> p \<noteq> NaN)"

definition no_nan :: "json list \<Rightarrow> bool" where
  "no_nan ls \<longleftrightarrow> list_all level_no_nan ls"

fun levels_map :: "json list \<Rightarrow> (double \<rightharpoonup> double) \<Rightarrow> (double \<rightharpoonup> double)" where
  "levels_map [] m = m"
| "levels_map (l # ls) m = (case level_of l of
     Inl e \<Rightarrow> m
   | Inr (p, s) \<Rightarrow> levels_map ls (level_map p s m))"

context price_side
begin

lemma applyLevels_ok:
  "side_ok lt xs \<Longrightarrow> no_nan ls \<Longrightarrow> side_ok lt (snd (applyLevels lt xs ls))"
  by (induction ls arbitrary: xs)
    (auto simp: no_nan_def level_no_nan_def applyLevel_ok split: sum.splits)

lemma applyLevels_map:
  "side_ok lt xs \<Longrightarrow> no_nan ls \<Longrightarrow> map_of (snd (applyLevels lt xs ls)) = levels_map ls (map_of xs)"
  by (induction ls arbitrary: xs)
    (auto simp: no_nan_def level_no_nan_def applyLevel_ok applyLevel_map split: sum.splits)

end

section \<open>The stream manager\<close>

record Book =
  bids :: side
  asks :: side

definition Book_init :: Book where
  "Book_init = \<lparr>bids = [], asks = []\<rparr>"

text \<open>\<open>hasSession\<close> is \<open>session != nullptr\<close>; of the callbacks it matters whether they are set.\<close>

record manager =
  books :: "int \<rightharpoonup> Book"
  hasSession :: bool
  running :: bool
  bookCB :: bool
  accountCB :: bool
  tokenProvider :: bool
  endpoint :: "string \<times> string \<times> string"

definition manager_init :: manager where
  "manager_init = \<lparr>books = Map.empty, hasSession = False, running = False, bookCB = False,
     accountCB = False, tokenProvider = False,
     endpoint = (''mainnet.zklighter.elliot.ai'', ''443'', ''/stream'')\<rparr>"

datatype out =
    Book_update int double double
  | Account_update json
  | Session_call api
  | Warn_crossed int double double
  | Log_error string
  | Enable_tls
  | New_session
  | Set_token_provider
  | Run_session "string \<times> string \<times> string"
  | Start_io_thread
  | Close_session
  | Stop_io

definition book_channel :: "int \<Rightarrow> string" where
  "book_channel marketId = ''order_book/'' @ fmt_int marketId"

definition level_list :: "string \<Rightarrow> json \<Rightarrow> json list" where
  "level_list k ob = (case jfind k ob of Some (JArray ls) \<Rightarrow> ls | _ \<Rightarrow> [])"

text \<open>The last part of \<open>onOrderBookMessage\<close>, from the best prices on.\<close>

definition emit :: "int \<Rightarrow> Book \<Rightarrow> manager \<Rightarrow> out list" where
  "emit marketId book m =
     (let bestBid = side_best (bids book); bestAsk = side_best (asks book) in
      if bestBid > 0 \<and> bestAsk > 0 \<and> bestBid > bestAsk then
        Warn_crossed marketId bestBid bestAsk #
        (if hasSession m then [Session_call (Api_unsubscribe (book_channel marketId)),
           Session_call (Api_subscribe (book_channel marketId))] else [])
      else (if bookCB m then [Book_update marketId bestBid bestAsk] else []))"

definition onOrderBookMessage ::
  "int \<Rightarrow> json \<Rightarrow> bool \<Rightarrow> manager \<Rightarrow> (exn + unit) \<times> manager \<times> out list" where
  "onOrderBookMessage marketId ob snapshot m =
     (let old = (case books m marketId of None \<Rightarrow> Book_init | Some b \<Rightarrow> b);
          b0 = (if snapshot then Book_init else old);
          (r1, bs) = applyLevels (\<lambda>a b. b < a) (bids b0) (level_list ''bids'' ob);
          b1 = b0\<lparr>bids := bs\<rparr>
      in case r1 of
           Inl e \<Rightarrow> (Inl e, m\<lparr>books := (books m)(marketId \<mapsto> b1)\<rparr>, [])
         | Inr _ \<Rightarrow>
             (let (r2, as) = applyLevels (\<lambda>a b. a < b) (asks b1) (level_list ''asks'' ob);
                  b2 = b1\<lparr>asks := as\<rparr>; m2 = m\<lparr>books := (books m)(marketId \<mapsto> b2)\<rparr>
              in case r2 of
                   Inl e \<Rightarrow> (Inl e, m2, [])
                 | Inr _ \<Rightarrow> (Inr (), m2, emit marketId b2 m2)))"

definition onMessage :: "codec \<Rightarrow> json \<Rightarrow> manager \<Rightarrow> (exn + unit) \<times> manager \<times> out list" where
  "onMessage C j m = (case jfind ''type'' j of
     Some (JString type) \<Rightarrow>
       (let channel = jstring_or_empty ''channel'' j in
        if type = ''subscribed/order_book'' \<or> type = ''update/order_book'' then
          (case jfind ''order_book'' j of
             Some (JObject kvs) \<Rightarrow>
               onOrderBookMessage (channelId channel) (JObject kvs) (type = ''subscribed/order_book'') m
           | _ \<Rightarrow> (Inr (), m, []))
        else if type = ''subscribed/account_all_orders'' \<or> type = ''update/account_all_orders'' \<or>
                type = ''subscribed/account_all'' \<or> type = ''update/account_all'' then
          (Inr (), m, if accountCB m then [Account_update j] else [])
        else if starts_with type ''error'' then
          (case dump C j of Inl e \<Rightarrow> (Inl e, m, []) | Inr s \<Rightarrow> (Inr (), m, [Log_error s]))
        else (Inr (), m, []))
   | _ \<Rightarrow> (Inr (), m, []))"

definition ensureSession :: "manager \<Rightarrow> manager \<times> out list" where
  "ensureSession m =
     (if hasSession m then (m, [])
      else (m\<lparr>hasSession := True, running := True\<rparr>,
        [Enable_tls, New_session] @ (if tokenProvider m then [Set_token_provider] else []) @
        [Run_session (endpoint m)] @ (if running m then [] else [Start_io_thread])))"

definition start_stream :: "manager \<Rightarrow> manager \<times> out list" where
  "start_stream m = ensureSession m"

definition subscribeOrderBook :: "int \<Rightarrow> manager \<Rightarrow> manager \<times> out list" where
  "subscribeOrderBook marketId m =
     (let (m1, os) = ensureSession m in (m1, os @ [Session_call (Api_subscribe (book_channel marketId))]))"

definition unsubscribeOrderBook :: "int \<Rightarrow> manager \<Rightarrow> manager \<times> out list" where
  "unsubscribeOrderBook marketId m =
     (m, if hasSession m then [Session_call (Api_unsubscribe (book_channel marketId))] else [])"

definition subscribeAccount :: "int \<Rightarrow> manager \<Rightarrow> manager \<times> out list" where
  "subscribeAccount accountIndex m =
     (let (m1, os) = ensureSession m
      in (m1, os @ [Session_call (Api_subscribe (''account_all/'' @ fmt_int accountIndex))]))"

definition subscribeAccountOrders :: "int \<Rightarrow> manager \<Rightarrow> manager \<times> out list" where
  "subscribeAccountOrders accountIndex m =
     (let (m1, os) = ensureSession (m\<lparr>tokenProvider := True\<rparr>)
      in (m1, os @ [Set_token_provider,
            Session_call (Api_subscribe (''account_all_orders/'' @ fmt_int accountIndex))]))"

definition setOrderBookCallback :: "manager \<Rightarrow> manager" where
  "setOrderBookCallback m = m\<lparr>bookCB := True\<rparr>"

definition setAccountCallback :: "manager \<Rightarrow> manager" where
  "setAccountCallback m = m\<lparr>accountCB := True\<rparr>"

definition setEndpoint :: "string \<Rightarrow> string \<Rightarrow> string \<Rightarrow> manager \<Rightarrow> manager" where
  "setEndpoint host port path m = m\<lparr>endpoint := (host, port, path)\<rparr>"

definition destroy_stream :: "manager \<Rightarrow> out list" where
  "destroy_stream m = (if hasSession m then [Close_session] else []) @ [Stop_io]"

definition stream_isConnected :: "manager \<Rightarrow> ws \<Rightarrow> bool" where
  "stream_isConnected m s \<longleftrightarrow> hasSession m \<and> connectedFlag s"

end
