(* ===== verification/Ws_Books.thy ===== *)
theory Ws_Books
  imports Ws_Stream
begin

text \<open>
  The local books against their specification: a side is the finite map from prices to sizes that
  the snapshot and the deltas since describe, what the consumer is given is its best entry, never
  of a crossed book, and a crossed book resubscribes without losing the channel.  \<open>stream_do\<close>
  sequences the public calls and the messages of a manager.
\<close>

section \<open>Sequences of calls and messages\<close>

datatype stream_op =
    Op_start
  | Op_subscribeOrderBook int
  | Op_unsubscribeOrderBook int
  | Op_subscribeAccount int
  | Op_subscribeAccountOrders int
  | Op_setOrderBookCallback
  | Op_setAccountCallback
  | Op_message json

text \<open>An exception that leaves a message handler is logged by the io thread, which runs on.\<close>

fun stream_do :: "codec \<Rightarrow> stream_op \<Rightarrow> manager \<Rightarrow> manager \<times> out list" where
  "stream_do C Op_start m = start_stream m"
| "stream_do C (Op_subscribeOrderBook i) m = subscribeOrderBook i m"
| "stream_do C (Op_unsubscribeOrderBook i) m = unsubscribeOrderBook i m"
| "stream_do C (Op_subscribeAccount i) m = subscribeAccount i m"
| "stream_do C (Op_subscribeAccountOrders i) m = subscribeAccountOrders i m"
| "stream_do C Op_setOrderBookCallback m = (setOrderBookCallback m, [])"
| "stream_do C Op_setAccountCallback m = (setAccountCallback m, [])"
| "stream_do C (Op_message j) m = snd (onMessage C j m)"

fun stream_run :: "codec \<Rightarrow> stream_op list \<Rightarrow> manager \<Rightarrow> manager \<times> out list" where
  "stream_run C [] m = (m, [])"
| "stream_run C (x # xs) m =
     (let (m1, os) = stream_do C x m; (m2, ps) = stream_run C xs m1 in (m2, os @ ps))"

section \<open>The invariant of the books\<close>

definition book_ok :: "Book \<Rightarrow> bool" where
  "book_ok b \<longleftrightarrow> side_ok (\<lambda>x y. y < x) (bids b) \<and> side_ok (\<lambda>x y. x < y) (asks b)"

definition manager_ok :: "manager \<Rightarrow> bool" where
  "manager_ok m \<longleftrightarrow> (\<forall>i b. books m i = Some b \<longrightarrow> book_ok b)"

definition book_of :: "manager \<Rightarrow> int \<Rightarrow> Book" where
  "book_of m i = (case books m i of None \<Rightarrow> Book_init | Some b \<Rightarrow> b)"

definition ob_no_nan :: "json \<Rightarrow> bool" where
  "ob_no_nan ob \<longleftrightarrow> no_nan (level_list ''bids'' ob) \<and> no_nan (level_list ''asks'' ob)"

definition op_no_nan :: "stream_op \<Rightarrow> bool" where
  "op_no_nan x \<longleftrightarrow> (case x of
     Op_message j \<Rightarrow> (case jfind ''order_book'' j of Some ob \<Rightarrow> ob_no_nan ob | None \<Rightarrow> True)
   | _ \<Rightarrow> True)"

lemma book_ok_init: "book_ok Book_init"
  by (simp add: book_ok_def Book_init_def side_ok_def)

lemma book_of_ok: "manager_ok m \<Longrightarrow> book_ok (book_of m i)"
  by (auto simp: manager_ok_def book_of_def book_ok_init split: option.splits)

text \<open>The book a message leaves behind, whether a level made it throw or not.\<close>

definition base_book :: "bool \<Rightarrow> manager \<Rightarrow> int \<Rightarrow> Book" where
  "base_book snapshot m i = (if snapshot then Book_init else book_of m i)"

definition next_book :: "int \<Rightarrow> json \<Rightarrow> bool \<Rightarrow> manager \<Rightarrow> Book" where
  "next_book i ob snapshot m = (let b = base_book snapshot m i;
       (r, bs) = applyLevels (\<lambda>a b. b < a) (bids b) (level_list ''bids'' ob)
     in b\<lparr>bids := bs, asks := (case r of Inl e \<Rightarrow> asks b
          | Inr _ \<Rightarrow> snd (applyLevels (\<lambda>a b. a < b) (asks b) (level_list ''asks'' ob)))\<rparr>)"

lemma onOrderBookMessage_eq:
  "onOrderBookMessage i ob snapshot m =
     (let b0 = base_book snapshot m i;
          (r1, bs) = applyLevels (\<lambda>a b. b < a) (bids b0) (level_list ''bids'' ob);
          (r2, as) = applyLevels (\<lambda>a b. a < b) (asks b0) (level_list ''asks'' ob);
          b1 = b0\<lparr>bids := bs\<rparr>; b2 = b1\<lparr>asks := as\<rparr>
      in case r1 of
           Inl e \<Rightarrow> (Inl e, m\<lparr>books := (books m)(i \<mapsto> b1)\<rparr>, [])
         | Inr _ \<Rightarrow> (case r2 of
             Inl e \<Rightarrow> (Inl e, m\<lparr>books := (books m)(i \<mapsto> b2)\<rparr>, [])
           | Inr _ \<Rightarrow> (Inr (), m\<lparr>books := (books m)(i \<mapsto> b2)\<rparr>, emit i b2 m)))"
  by (simp add: onOrderBookMessage_def base_book_def book_of_def emit_def Let_def case_prod_unfold split: sum.split)

lemma onOrderBookMessage_cases:
  obtains e where "onOrderBookMessage i ob snapshot m =
      (Inl e, m\<lparr>books := (books m)(i \<mapsto> next_book i ob snapshot m)\<rparr>, [])"
  | "onOrderBookMessage i ob snapshot m =
      (Inr (), m\<lparr>books := (books m)(i \<mapsto> next_book i ob snapshot m)\<rparr>, emit i (next_book i ob snapshot m) m)"
    "fst (applyLevels (\<lambda>a b. b < a) (bids (base_book snapshot m i)) (level_list ''bids'' ob)) = Inr ()"
proof -
  let ?b = "base_book snapshot m i"
  obtain r1 bs where b: "applyLevels (\<lambda>a b. b < a) (bids ?b) (level_list ''bids'' ob) = (r1, bs)" by force
  obtain r2 as where a: "applyLevels (\<lambda>a b. a < b) (asks ?b) (level_list ''asks'' ob) = (r2, as)" by force
  note eq = onOrderBookMessage_eq[of i ob snapshot m] and n = next_book_def[of i ob snapshot m]
  show thesis
  proof (cases r1)
    case (Inl x)
    show thesis by (rule that(1)[of x]) (simp add: eq n a b Inl Let_def)
  next
    case (Inr u)
    show thesis
    proof (cases r2)
      case (Inl x)
      show thesis by (rule that(1)[of x]) (simp add: eq n a b Inl \<open>r1 = Inr u\<close> Let_def)
    next
      case r2: (Inr v)
      show thesis by (rule that(2)) (simp_all add: eq n a b r2 Inr Let_def)
    qed
  qed
qed

lemma base_book_ok: "manager_ok m \<Longrightarrow> book_ok (base_book snapshot m i)"
  by (simp add: base_book_def book_of_ok book_ok_init)

lemma next_book_ok:
  assumes "manager_ok m" "ob_no_nan ob"
  shows "book_ok (next_book i ob snapshot m)"
  using base_book_ok[OF assms(1), of snapshot i] assms(2) bid.applyLevels_ok ask.applyLevels_ok
  by (auto simp: next_book_def book_ok_def ob_no_nan_def Let_def case_prod_unfold split: sum.split)

lemma onOrderBookMessage_ok:
  assumes "manager_ok m" "ob_no_nan ob"
  shows "manager_ok (fst (snd (onOrderBookMessage i ob snapshot m)))"
  using next_book_ok[OF assms, of i snapshot] assms(1)
  by (rule_tac onOrderBookMessage_cases[of i ob snapshot m]) (auto simp: manager_ok_def)

lemma onMessage_state:
  "fst (snd (onMessage C j m)) = m \<or>
     (\<exists>i ob snapshot. jfind ''order_book'' j = Some ob \<and> onMessage C j m = onOrderBookMessage i ob snapshot m)"
proof (cases "jfind ''type'' j")
  case (Some v)
  show ?thesis
  proof (cases v)
    case (JString type)
    show ?thesis
    proof (cases "type = ''subscribed/order_book'' \<or> type = ''update/order_book''")
      case True
      then show ?thesis using Some JString
        by (auto simp: onMessage_def Let_def split: option.split json.split)
    next
      case False
      then show ?thesis using Some JString by (simp add: onMessage_def Let_def split: sum.split)
    qed
  qed (use Some in \<open>simp_all add: onMessage_def\<close>)
qed (simp add: onMessage_def)

lemma onMessage_ok:
  assumes "manager_ok m" "op_no_nan (Op_message j)"
  shows "manager_ok (fst (snd (onMessage C j m)))"
  using onMessage_state[of C j m] assms onOrderBookMessage_ok[OF assms(1)]
  by (auto simp: op_no_nan_def)

lemma stream_do_books:
  "\<forall>j. x \<noteq> Op_message j \<Longrightarrow> books (fst (stream_do C x m)) = books m"
  by (cases x) (simp_all add: start_stream_def subscribeOrderBook_def unsubscribeOrderBook_def
      subscribeAccount_def subscribeAccountOrders_def setOrderBookCallback_def setAccountCallback_def
      ensureSession_def Let_def case_prod_unfold)

lemma stream_do_ok:
  assumes "manager_ok m" "op_no_nan x"
  shows "manager_ok (fst (stream_do C x m))"
proof (cases "\<exists>j. x = Op_message j")
  case True
  then show ?thesis using onMessage_ok assms by auto
next
  case False
  then show ?thesis using stream_do_books[of x C m] assms(1) by (simp add: manager_ok_def)
qed

lemma stream_run_ok:
  "manager_ok m \<Longrightarrow> list_all op_no_nan xs \<Longrightarrow> manager_ok (fst (stream_run C xs m))"
proof (induction xs arbitrary: m)
  case (Cons x xs)
  then show ?case using stream_do_ok[of m x C] by (simp add: Let_def case_prod_unfold)
qed simp

lemma manager_ok_init: "manager_ok manager_init"
  by (simp add: manager_ok_def manager_init_def)

section \<open>What the consumer sees\<close>

definition is_top :: "(double \<Rightarrow> double \<Rightarrow> bool) \<Rightarrow> (double \<rightharpoonup> double) \<Rightarrow> double \<Rightarrow> bool" where
  "is_top lt m p \<longleftrightarrow> (if m = Map.empty then p = 0
     else 0 < p \<and> p \<in> dom m \<and> (\<forall>q\<in>dom m. q = p \<or> lt p q))"

lemma bid_top: "side_ok (\<lambda>a b. b < a) xs \<Longrightarrow> is_top (\<lambda>a b. b < a) (map_of xs) (side_best xs)"
proof (cases "xs = []")
  case False
  assume s: "side_ok (\<lambda>a b. b < a) xs"
  have "q = side_best xs \<or> q < side_best xs" if "q \<in> dom (map_of xs)" for q
    using that bid.best_first[OF s] by blast
  with bid.best_member[OF s False] show ?thesis by (auto simp: is_top_def)
qed (simp add: is_top_def side_best_def)

lemma ask_top: "side_ok (\<lambda>a b. a < b) xs \<Longrightarrow> is_top (\<lambda>a b. a < b) (map_of xs) (side_best xs)"
proof (cases "xs = []")
  case False
  assume s: "side_ok (\<lambda>a b. a < b) xs"
  have "q = side_best xs \<or> side_best xs < q" if "q \<in> dom (map_of xs)" for q
    using that ask.best_first[OF s] by blast
  with ask.best_member[OF s False] show ?thesis by (auto simp: is_top_def)
qed (simp add: is_top_def side_best_def)

text \<open>A snapshot with two bids and an ask, and a delta that deletes the best bid and moves the ask.\<close>

definition demo_level :: "rat \<Rightarrow> rat \<Rightarrow> json" where
  "demo_level p s = JObject [(''price'', JFloat (Fin p)), (''size'', JFloat (Fin s))]"

definition demo_ops :: "stream_op list" where
  "demo_ops = [Op_setOrderBookCallback, Op_subscribeOrderBook 1,
     Op_message (JObject [(''type'', JString ''subscribed/order_book''), (''channel'', JString ''order_book:1''),
       (''order_book'', JObject [(''bids'', JArray [demo_level 9 1, demo_level 10 2]),
          (''asks'', JArray [demo_level 11 3])])])]"

definition demo_delta :: json where
  "demo_delta = JObject [(''bids'', JArray [demo_level 10 0]),
     (''asks'', JArray [demo_level 11 0, demo_level 12 1])]"

text \<open>Property C17: after any sequence of calls and messages (prices not NaN), the next order book
  message of a market calls the consumer only for that market, only with the best bid and the best
  ask of the book whose sides are exactly the previous maps (empty for a snapshot) with the levels of
  the message applied in order (a zero size deletes, any other size replaces, a price that is not
  positive is ignored), with 0 for an empty side, and never with a bid above the ask.\<close>

theorem book_update_is_top_of_book:
  assumes "list_all op_no_nan xs" "stream_run C xs manager_init = (m, ps)" "ob_no_nan ob"
    "onOrderBookMessage i ob snapshot m = (r, m', os)" "Book_update i' b a \<in> set os"
  shows "i' = i \<and>
    is_top (\<lambda>x y. y < x) (map_of (bids (book_of m' i))) b \<and>
    is_top (\<lambda>x y. x < y) (map_of (asks (book_of m' i))) a \<and>
    map_of (bids (book_of m' i)) = levels_map (level_list ''bids'' ob)
      (if snapshot then Map.empty else map_of (bids (book_of m i))) \<and>
    map_of (asks (book_of m' i)) = levels_map (level_list ''asks'' ob)
      (if snapshot then Map.empty else map_of (asks (book_of m i))) \<and>
    \<not> (0 < b \<and> 0 < a \<and> a < b)"
proof -
  let ?n = "next_book i ob snapshot m" and ?o = "base_book snapshot m i"
  have mok: "manager_ok m" using stream_run_ok[OF manager_ok_init assms(1), of C] assms(2) by simp
  have ok: "book_ok ?n" "book_ok ?o" using next_book_ok base_book_ok mok assms(3) by auto
  from assms(4,5) have m': "book_of m' i = ?n" and e: "Book_update i' b a \<in> set (emit i ?n m)"
    and r: "fst (applyLevels (\<lambda>a b. b < a) (bids ?o) (level_list ''bids'' ob)) = Inr ()"
    by (rule_tac [!] onOrderBookMessage_cases[of i ob snapshot m]) (auto simp: book_of_def)
  from e have x: "i' = i" "b = side_best (bids ?n)" "a = side_best (asks ?n)" "\<not> (0 < b \<and> 0 < a \<and> a < b)"
    by (auto simp: emit_def Let_def split: if_splits)
  have maps: "map_of (bids ?n) = levels_map (level_list ''bids'' ob) (map_of (bids ?o))"
    "map_of (asks ?n) = levels_map (level_list ''asks'' ob) (map_of (asks ?o))"
    using ok(2) assms(3) r bid.applyLevels_map ask.applyLevels_map
    by (auto simp: next_book_def book_ok_def ob_no_nan_def Let_def case_prod_unfold)
  have tops: "is_top (\<lambda>x y. y < x) (map_of (bids ?n)) b" "is_top (\<lambda>x y. x < y) (map_of (asks ?n)) a"
    unfolding x(2,3) using ok(1) bid_top ask_top by (simp_all add: book_ok_def)
  have olds: "map_of (bids ?o) = (if snapshot then Map.empty else map_of (bids (book_of m i)))"
    "map_of (asks ?o) = (if snapshot then Map.empty else map_of (asks (book_of m i)))"
    by (simp_all add: base_book_def Book_init_def)
  show ?thesis unfolding m' using x(1,4) maps[unfolded olds] tops by (intro conjI)
qed

lemma demo_delta_runs:
  "list_all op_no_nan demo_ops \<and> ob_no_nan demo_delta \<and>
   fst (onOrderBookMessage 1 demo_delta False (fst (stream_run demo_codec demo_ops manager_init))) = Inr () \<and>
   snd (snd (onOrderBookMessage 1 demo_delta False (fst (stream_run demo_codec demo_ops manager_init))))
     = [Book_update 1 (Fin 9) (Fin 12)]"
  by code_simp

theorem book_update_is_top_of_book_witness:
  "\<exists>m' os. onOrderBookMessage 1 demo_delta False (fst (stream_run demo_codec demo_ops manager_init)) = (Inr (), m', os)
     \<and> Book_update 1 (Fin 9) (Fin 12) \<in> set os \<and> is_top (\<lambda>x y. y < x) (map_of (bids (book_of m' 1))) (Fin 9)"
proof -
  obtain m ps where m: "stream_run demo_codec demo_ops manager_init = (m, ps)" by force
  obtain r m' os where r: "onOrderBookMessage 1 demo_delta False m = (r, m', os)" by (metis prod_cases3)
  have o: "r = Inr ()" "os = [Book_update 1 (Fin 9) (Fin 12)]" using demo_delta_runs m r by auto
  then have "Book_update 1 (Fin 9) (Fin 12) \<in> set os" by simp
  from book_update_is_top_of_book[OF _ m _ r this] demo_delta_runs m r o show ?thesis by auto
qed

section \<open>A crossed book\<close>

text \<open>The calls a message makes on the session, in order.\<close>

definition session_calls :: "out list \<Rightarrow> api list" where
  "session_calls os = concat (map (\<lambda>x. case x of Session_call a \<Rightarrow> [a] | _ \<Rightarrow> []) os)"

lemma crossed_emit:
  assumes "hasSession m" "0 < side_best (bids b)" "0 < side_best (asks b)" "side_best (asks b) < side_best (bids b)"
  shows "emit i b m = [Warn_crossed i (side_best (bids b)) (side_best (asks b)),
    Session_call (Api_unsubscribe (book_channel i)), Session_call (Api_subscribe (book_channel i))]"
  using assms by (simp add: emit_def Let_def)

text \<open>Property C36: when a message leaves the local book of a market crossed, the consumer gets no
  update; the manager asks the session for a fresh snapshot by unsubscribing and subscribing the
  market's channel, after which the session holds that channel and every other channel it held, each
  once.\<close>

theorem crossed_book_resubscribes:
  assumes "hasSession m" "onOrderBookMessage i ob snapshot m = (Inr (), m', os)"
    "0 < side_best (bids (book_of m' i))" "side_best (asks (book_of m' i)) < side_best (bids (book_of m' i))"
    "0 < side_best (asks (book_of m' i))" "topics_ok s"
  shows "(\<forall>j b a. Book_update j b a \<notin> set os) \<and>
    session_calls os = [Api_unsubscribe (book_channel i), Api_subscribe (book_channel i)] \<and>
    topics_ok (fst (api_calls (session_calls os) s)) \<and>
    (\<forall>c. isSubscribed (fst (api_calls (session_calls os) s)) c = (c = book_channel i \<or> isSubscribed s c))"
proof -
  have n: "book_of m' i = next_book i ob snapshot m" "os = emit i (next_book i ob snapshot m) m"
    using assms(2) by (rule_tac [!] onOrderBookMessage_cases[of i ob snapshot m]) (auto simp: book_of_def)
  let ?b = "book_of m' i"
  have os: "os = [Warn_crossed i (side_best (bids ?b)) (side_best (asks ?b)),
      Session_call (Api_unsubscribe (book_channel i)), Session_call (Api_subscribe (book_channel i))]"
    using crossed_emit[OF assms(1,3,5,4)] n by simp
  have "fst (api_calls (session_calls os) s) = fst (subscribe (book_channel i) (fst (unsubscribe (book_channel i) s)))"
    by (simp add: os session_calls_def case_prod_unfold Let_def)
  then show ?thesis using registry.resubscribe_member[OF assms(6)] registry.resubscribe_ok[OF assms(6)] os
    by (auto simp: session_calls_def)
qed

definition demo_cross :: json where
  "demo_cross = JObject [(''bids'', JArray [demo_level 13 1])]"

definition demo_manager :: manager where
  "demo_manager = fst (stream_run demo_codec demo_ops manager_init)"

lemma demo_cross_runs:
  "hasSession demo_manager \<and>
   fst (onOrderBookMessage 1 demo_cross False demo_manager) = Inr () \<and>
   side_best (bids (book_of (fst (snd (onOrderBookMessage 1 demo_cross False demo_manager))) 1)) = Fin 13 \<and>
   side_best (asks (book_of (fst (snd (onOrderBookMessage 1 demo_cross False demo_manager))) 1)) = Fin 11"
  by code_simp

theorem crossed_book_resubscribes_witness:
  "\<exists>m' os. onOrderBookMessage 1 demo_cross False demo_manager = (Inr (), m', os) \<and>
     session_calls os = [Api_unsubscribe ''order_book/1'', Api_subscribe ''order_book/1''] \<and>
     isSubscribed (fst (api_calls (session_calls os) (sess demo_sys))) ''a''"
proof -
  obtain r m' os where r: "onOrderBookMessage 1 demo_cross False demo_manager = (r, m', os)" by (metis prod_cases3)
  have s: "topics_ok (sess demo_sys)" "isSubscribed (sess demo_sys) ''a''"
    using steady_reachable[OF demo_reachable] session_calls_def by (simp_all add: steady_def) code_simp
  have c: "book_channel 1 = ''order_book/1''" by code_simp
  have "r = Inr ()" "hasSession demo_manager" "side_best (bids (book_of m' 1)) = Fin 13"
    "side_best (asks (book_of m' 1)) = Fin 11" using demo_cross_runs r by auto
  with crossed_book_resubscribes[OF _ _ _ _ _ s(1), of demo_manager 1 demo_cross False m' os] r s(2) c
  show ?thesis by (auto simp: zero_double_def)
qed

section \<open>Channels\<close>

text \<open>The market id survives the channel name in both spellings: the subscribe form
  \<open>order_book/<id>\<close> the manager sends and the form \<open>order_book:<id>\<close> the venue answers with.\<close>

theorem channel_id_roundtrip:
  assumes "int32_range i"
  shows "channelId (book_channel i) = i \<and> channelId (''order_book:'' @ fmt_int i) = i"
  using channelId_slash[of "''order_book''" i "CHR ''/''"] channelId_slash[of "''order_book''" i "CHR '':''"] assms
  by (simp add: book_channel_def)

theorem channel_id_roundtrip_witness: "channelId (book_channel 42) = 42 \<and> channelId (''order_book:'' @ fmt_int 42) = 42"
  by (rule channel_id_roundtrip) (simp add: int32_range_def)

section \<open>One session\<close>

definition created :: "out list \<Rightarrow> nat" where
  "created os = length (filter (\<lambda>x. x = New_session) os)"

definition threads :: "out list \<Rightarrow> nat" where
  "threads os = length (filter (\<lambda>x. x = Start_io_thread) os)"

lemma created_simps [simp]:
  "created [] = 0" "created (x # os) = (if x = New_session then Suc (created os) else created os)"
  "created (os @ ps) = created os + created ps"
  "threads [] = 0" "threads (x # os) = (if x = Start_io_thread then Suc (threads os) else threads os)"
  "threads (os @ ps) = threads os + threads ps"
  by (simp_all add: created_def threads_def)

lemma emit_created: "created (emit i b m) = 0" "threads (emit i b m) = 0"
  by (simp_all add: emit_def Let_def)

lemma onMessage_created:
  "created (snd (snd (onMessage C j m))) = 0 \<and> threads (snd (snd (onMessage C j m))) = 0 \<and>
   hasSession (fst (snd (onMessage C j m))) = hasSession m \<and> running (fst (snd (onMessage C j m))) = running m"
proof -
  have ob: "created (snd (snd (onOrderBookMessage i ob s m))) = 0 \<and> threads (snd (snd (onOrderBookMessage i ob s m))) = 0 \<and>
      hasSession (fst (snd (onOrderBookMessage i ob s m))) = hasSession m \<and>
      running (fst (snd (onOrderBookMessage i ob s m))) = running m" for i ob s
    by (rule onOrderBookMessage_cases[of i ob s m]) (simp_all add: emit_created)
  show ?thesis
  proof (cases "jfind ''type'' j")
    case (Some v)
    then show ?thesis using ob
      by (cases v) (simp_all add: onMessage_def Let_def split: option.split json.split sum.split)
  qed (simp add: onMessage_def)
qed

lemma stream_do_created:
  assumes "hasSession m \<longrightarrow> running m" "\<not> hasSession m \<longrightarrow> \<not> running m" "stream_do C x m = (m', os)"
  shows "(hasSession m' \<longrightarrow> running m') \<and> (\<not> hasSession m' \<longrightarrow> \<not> running m') \<and>
    created os + (if hasSession m then 1 else 0) = (if hasSession m' then 1 else 0) \<and>
    threads os + (if hasSession m then 1 else 0) = (if hasSession m' then 1 else 0)"
proof (cases "\<exists>j. x = Op_message j")
  case True
  then obtain j where "x = Op_message j" ..
  then have e: "m' = fst (snd (onMessage C j m))" "os = snd (snd (onMessage C j m))" using assms(3) by simp_all
  show ?thesis unfolding e using onMessage_created[of C j m] assms(1,2) by simp
next
  case False
  have e: "m' = fst (stream_do C x m)" "os = snd (stream_do C x m)" using assms(3) by simp_all
  show ?thesis unfolding e using assms(1,2) False
    by (cases x; cases "hasSession m"; simp add: start_stream_def subscribeOrderBook_def unsubscribeOrderBook_def
        subscribeAccount_def subscribeAccountOrders_def setOrderBookCallback_def setAccountCallback_def
        ensureSession_def Let_def case_prod_unfold)
qed

lemma stream_run_created:
  assumes "hasSession m = running m" "stream_run C xs m = (m', os)"
  shows "created os + (if hasSession m then 1 else 0) = (if hasSession m' then 1 else 0) \<and>
    threads os + (if hasSession m then 1 else 0) = (if hasSession m' then 1 else 0)"
  using assms
proof (induction xs arbitrary: m os)
  case (Cons x xs)
  obtain m1 o1 where 1: "stream_do C x m = (m1, o1)" by force
  obtain m2 o2 where 2: "stream_run C xs m1 = (m2, o2)" by force
  have "hasSession m1 = running m1" using stream_do_created[OF _ _ 1] Cons.prems(1) by auto
  from Cons.IH[OF this, of o2] stream_do_created[OF _ _ 1] Cons.prems 1 2 show ?case
    by (auto simp: Let_def split: if_splits)
qed simp

text \<open>Whatever calls and messages a manager gets, it creates at most one session and
  starts at most one io thread, and it has done both exactly when it has a session.\<close>

theorem one_session_one_thread:
  "created (snd (stream_run C xs manager_init)) = (if hasSession (fst (stream_run C xs manager_init)) then 1 else 0) \<and>
   threads (snd (stream_run C xs manager_init)) = (if hasSession (fst (stream_run C xs manager_init)) then 1 else 0)"
  using stream_run_created[of manager_init C xs "fst (stream_run C xs manager_init)" "snd (stream_run C xs manager_init)"]
  by (simp add: manager_init_def)

end
