(* ===== verification/Rest_Client.thy ===== *)
theory Rest_Client
  imports Http_Session Models
begin

text \<open>
  \<open>src/lighter_rest_client.cpp\<close>: pacing, envelopes, the symbol cache, the paginated histories,
  balances, nonces and transactions.

  The record \<open>env\<close> holds what the client uses from outside: the transport, the steady clock (in ns)
  and \<open>sleep_for\<close>, the JSON library and the readers of stonky-cpp-common.  The record \<open>rest\<close> is the
  state of \<open>RESTClient::P\<close> together with the world \<open>'w\<close> these act on.  An operation maps a state to a
  result or an exception and the new state.  The locks are left out: they
  only serialise \<open>throttle\<close>.  64-bit sums are integers; the inputs for which the source would
  overflow (timestamps within one window of \<open>2 ^ 63\<close> ms) have no defined behaviour in C++.
\<close>

section \<open>State\<close>

record 'w env =
  net :: "'w net"
  steady_now :: "'w \<Rightarrow> int \<times> 'w"
  sleep_for :: "int \<Rightarrow> 'w \<Rightarrow> 'w"
  json_parse :: "string \<Rightarrow> exn + json"
  json_dump :: "json \<Rightarrow> exn + string"
  utils :: json_utils

record 'w rest =
  uri :: string
  symbolToMarketId :: "string \<rightharpoonup> int"
  symbolCachePopulated :: bool
  authToken :: string
  minRequestInterval :: int   \<comment> \<open>ms\<close>
  lastRequestAt :: int        \<comment> \<open>ns\<close>
  world :: 'w

type_synonym ('w, 'a) rest_op = "'w rest \<Rightarrow> (exn + 'a) \<times> 'w rest"

definition RESTClient_init :: "'w \<Rightarrow> 'w rest" where
  "RESTClient_init w = \<lparr>uri = HTTPSession_uri [], symbolToMarketId = Map.empty,
     symbolCachePopulated = False, authToken = [], minRequestInterval = 1000, lastRequestAt = 0, world = w\<rparr>"

text \<open>The authenticated constructor: an interval that is not positive keeps the default.\<close>

definition RESTClient_auth :: "string \<Rightarrow> int \<Rightarrow> 'w \<Rightarrow> 'w rest" where
  "RESTClient_auth token interval w =
     (let s = (RESTClient_init w)\<lparr>authToken := token\<rparr>
      in if 0 < interval then s\<lparr>minRequestInterval := interval\<rparr> else s)"

definition setAuthToken :: "string \<Rightarrow> 'w rest \<Rightarrow> 'w rest" where
  "setAuthToken token s = s\<lparr>authToken := token\<rparr>"

definition kMaxBarsPerCall :: int where "kMaxBarsPerCall = 500"

section \<open>Percent encoding\<close>

definition hex_digit :: "int \<Rightarrow> char" where
  "hex_digit d = (if d < 10 then char_of (48 + d) else char_of (55 + d))"

definition unreserved :: "char \<Rightarrow> bool" where
  "unreserved c \<longleftrightarrow> isalnum c \<or> c = CHR ''-'' \<or> c = CHR ''_'' \<or> c = CHR ''.'' \<or> c = CHR ''~''"

definition encode_char :: "char \<Rightarrow> string" where
  "encode_char c = (if unreserved c then [c]
     else [CHR ''%'', hex_digit (char_code c div 16), hex_digit (char_code c mod 16)])"

definition urlEncode :: "string \<Rightarrow> string" where
  "urlEncode s = concat (map encode_char s)"

section \<open>One request\<close>

definition quoted :: "string \<Rightarrow> string" where
  "quoted s = [char_of (39 :: int)] @ s @ [char_of (39 :: int)]"

definition throttle :: "'w env \<Rightarrow> 'w rest \<Rightarrow> 'w rest" where
  "throttle E s =
     (let (now, w1) = steady_now E (world s);
          elapsed = now - lastRequestAt s;
          interval = minRequestInterval s * 1000000;
          w2 = (if elapsed < interval then sleep_for E (interval - elapsed) w1 else w1);
          (now2, w3) = steady_now E w2
      in s\<lparr>lastRequestAt := now2, world := w3\<rparr>)"

definition checkTransport :: "http_response \<Rightarrow> exn + http_response" where
  "checkTransport r =
     (if rs_status r \<noteq> 200
      then Inl (Runtime_error (''Lighter HTTP error, code '' @ fmt_int (rs_status r) @ '', msg: '' @ rs_body r))
      else Inr r)"

definition parseEnvelope :: "'w env \<Rightarrow> http_response \<Rightarrow> exn + json" where
  "parseEnvelope E r =
     and_then (json_parse E (rs_body r)) (\<lambda>j.
       if \<not> is_object j then Inl (Runtime_error ''Lighter API returned a non-object response envelope'')
       else (case jfind ''code'' j of
           Some (JInt c) \<Rightarrow>
             if to_int32 c \<noteq> 200 then
               and_then (readString (utils E) j ''message'' []) (\<lambda>msg.
                 Inl (Runtime_error (''Lighter API error, code '' @ fmt_int (to_int32 c) @ '', msg: '' @ msg)))
             else Inr j
         | _ \<Rightarrow> Inl (Runtime_error (''Lighter API response is missing integer field '' @ quoted ''code''))))"

text \<open>\<open>httpSession->get\<close> and \<open>postForm\<close> on the state, and the sequence every query starts with.\<close>

definition http_get :: "'w env \<Rightarrow> string \<Rightarrow> json \<Rightarrow> ('w, http_response) rest_op" where
  "http_get E path q s =
     (let (r, w) = HTTPSession_get (net E) (uri s) path q (authToken s) (world s) in (r, s\<lparr>world := w\<rparr>))"

definition http_post :: "'w env \<Rightarrow> string \<Rightarrow> string \<Rightarrow> ('w, http_response) rest_op" where
  "http_post E path body s =
     (let (r, w) = HTTPSession_postForm (net E) (uri s) path body (authToken s) (world s) in (r, s\<lparr>world := w\<rparr>))"

definition query_api :: "'w env \<Rightarrow> string \<Rightarrow> json \<Rightarrow> ('w, json) rest_op" where
  "query_api E path q s =
     seq (http_get E path q) (\<lambda>r. pure (and_then (checkTransport r) (parseEnvelope E))) (throttle E s)"

section \<open>Markets\<close>

definition fill_cache :: "PerpAsset list \<Rightarrow> 'w rest \<Rightarrow> 'w rest" where
  "fill_cache as s = s\<lparr>symbolToMarketId := fold (\<lambda>a m. m(pa_symbol a \<mapsto> pa_marketId a)) as Map.empty,
     symbolCachePopulated := True\<rparr>"

definition loadAssets :: "'w env \<Rightarrow> bool \<Rightarrow> ('w, PerpAsset list) rest_op" where
  "loadAssets E populateCache =
     seq (query_api E ''/api/v1/orderBookDetails'' (JObject [])) (\<lambda>j.
     seq (pure (map_throw (\<lambda>x. PerpAsset_fromJson (utils E) x PerpAsset_init)
                  (array_items ''order_book_details'' j))) (\<lambda>as s.
       (Inr as, if populateCache then fill_cache as s else s)))"

definition ensureSymbolCache :: "'w env \<Rightarrow> ('w, unit) rest_op" where
  "ensureSymbolCache E s =
     (if symbolCachePopulated s then (Inr (), s) else seq (loadAssets E True) (\<lambda>_. pure (Inr ())) s)"

definition resolveMarketId :: "'w env \<Rightarrow> string \<Rightarrow> ('w, int) rest_op" where
  "resolveMarketId E symb =
     seq (ensureSymbolCache E) (\<lambda>_ s. case symbolToMarketId s symb of
         Some i \<Rightarrow> (Inr i, s)
       | None \<Rightarrow> seq (loadAssets E True) (\<lambda>_ s. case symbolToMarketId s symb of
             Some i \<Rightarrow> (Inr i, s)
           | None \<Rightarrow> (Inl (Runtime_error (''Lighter: unknown symbol '' @ quoted symb)), s)) s)"

definition getPerpetualAssets :: "'w env \<Rightarrow> bool \<Rightarrow> ('w, PerpAsset list) rest_op" where
  "getPerpetualAssets E includeDelisted =
     seq (loadAssets E True) (\<lambda>as. pure (Inr
       (if includeDelisted then as else filter (\<lambda>a. \<not> isDelisted a) as)))"

section \<open>Histories\<close>

text \<open>The query object; its members are iterated in the order of their names.\<close>

definition window_query :: "int \<Rightarrow> string \<Rightarrow> int \<Rightarrow> int \<Rightarrow> int \<Rightarrow> json" where
  "window_query marketId resolution startSec endSec countBack = JObject
     [(''count_back'', JInt countBack), (''end_timestamp'', JInt endSec), (''market_id'', JInt marketId),
      (''resolution'', JString resolution), (''start_timestamp'', JInt startSec)]"

definition getCandlesBatch ::
  "'w env \<Rightarrow> int \<Rightarrow> CandleInterval \<Rightarrow> int \<Rightarrow> int \<Rightarrow> int \<Rightarrow> ('w, Candle list) rest_op" where
  "getCandlesBatch E marketId interval startSec endSec countBack =
     seq (query_api E ''/api/v1/candles'' (window_query marketId (enum_name interval) startSec endSec countBack)) (\<lambda>j.
     pure (case jfind ''c'' j of
         Some (JArray xs) \<Rightarrow> map_throw (\<lambda>x. Candle_fromJson (utils E) x Candle_init) xs
       | _ \<Rightarrow> Inl (Runtime_error (''Lighter candle response is missing array field '' @ quoted ''c''))))"

definition getFundingBatch ::
  "'w env \<Rightarrow> int \<Rightarrow> int \<Rightarrow> int \<Rightarrow> int \<Rightarrow> ('w, FundingRate list) rest_op" where
  "getFundingBatch E marketId startSec endSec countBack =
     seq (query_api E ''/api/v1/fundings'' (window_query marketId ''1h'' startSec endSec countBack)) (\<lambda>j.
     pure (case jfind ''fundings'' j of
         Some (JArray xs) \<Rightarrow> map_throw (\<lambda>x.
           and_then (FundingRate_fromJson (utils E) x FundingRate_init) (\<lambda>f.
             Inr (if fr_marketId f < 0 then f\<lparr>fr_marketId := marketId\<rparr> else f))) xs
       | _ \<Rightarrow> Inl (Runtime_error (''Lighter funding response is missing array field '' @ quoted ''fundings''))))"

text \<open>The three \<open>continue\<close> filters of the candle loop, with the running \<open>lastOpenTime\<close>.\<close>

fun keep_candles :: "int \<Rightarrow> int \<Rightarrow> int \<Rightarrow> int \<Rightarrow> Candle list \<Rightarrow> Candle list \<times> int" where
  "keep_candles from' to' intervalMs last' [] = ([], last')"
| "keep_candles from' to' intervalMs last' (c # cs) =
     (if openTime c < from' \<or> openTime c + intervalMs > to' \<or> openTime c \<le> last'
      then keep_candles from' to' intervalMs last' cs
      else (let (ks, l) = keep_candles from' to' intervalMs (openTime c) cs in (c # ks, l)))"

type_synonym 'w writer = "(Candle list \<Rightarrow> 'w \<Rightarrow> (exn + unit) \<times> 'w) option"

definition write_batch :: "'w writer \<Rightarrow> Candle list \<Rightarrow> ('w, unit) rest_op" where
  "write_batch writer kept s = (case writer of
     Some f \<Rightarrow> if kept = [] then (Inr (), s)
       else (let (r, w) = f kept (world s) in (r, s\<lparr>world := w\<rparr>))
   | None \<Rightarrow> (Inr (), s))"

text \<open>One pass of the loop: the end of the window, the candles kept and the new \<open>lastOpenTime\<close>.\<close>

definition batch_end :: "int \<Rightarrow> int \<Rightarrow> int \<Rightarrow> int" where
  "batch_end windowSec toSec cursorSec = min (cursorSec + windowSec) toSec"

definition count_back :: "int \<Rightarrow> int \<Rightarrow> int \<Rightarrow> int" where
  "count_back intervalSec cursorSec batchEndSec =
     (let countBack = cdiv (batchEndSec - cursorSec) intervalSec + 1
      in if countBack > kMaxBarsPerCall then kMaxBarsPerCall else countBack)"

definition candle_pass ::
  "'w env \<Rightarrow> int \<Rightarrow> CandleInterval \<Rightarrow> int \<Rightarrow> int \<Rightarrow> int \<Rightarrow> 'w writer \<Rightarrow> int \<Rightarrow> int \<Rightarrow> int \<Rightarrow> int \<Rightarrow>
     ('w, Candle list \<times> int) rest_op" where
  "candle_pass E marketId interval intervalMs from' to' writer intervalSec cursorSec batchEndSec last' =
     seq (getCandlesBatch E marketId interval cursorSec batchEndSec (count_back intervalSec cursorSec batchEndSec)) (\<lambda>batch.
     (let (kept, l) = keep_candles from' to' intervalMs last' batch
      in seq (write_batch writer kept) (\<lambda>_. pure (Inr (kept, l)))))"

partial_function (option) candle_loop ::
  "'w env \<Rightarrow> int \<Rightarrow> CandleInterval \<Rightarrow> int \<Rightarrow> int \<Rightarrow> int \<Rightarrow> 'w writer \<Rightarrow> int \<Rightarrow> int \<Rightarrow> int \<Rightarrow> int \<Rightarrow> int \<Rightarrow>
     Candle list \<Rightarrow> 'w rest \<Rightarrow> ((exn + Candle list) \<times> 'w rest) option" where
  "candle_loop E marketId interval intervalMs from' to' writer intervalSec windowSec toSec cursorSec last' retVal s =
     (if cursorSec < toSec then
        (let batchEndSec = batch_end windowSec toSec cursorSec;
             r = candle_pass E marketId interval intervalMs from' to' writer intervalSec cursorSec batchEndSec last' s
         in case fst r of
              Inl e \<Rightarrow> Some (Inl e, snd r)
            | Inr p \<Rightarrow> candle_loop E marketId interval intervalMs from' to' writer intervalSec windowSec toSec
                batchEndSec (snd p) (retVal @ fst p) (snd r))
      else Some (Inr retVal, s))"

definition getHistoricalPrices ::
  "'w env \<Rightarrow> int \<Rightarrow> CandleInterval \<Rightarrow> int \<Rightarrow> int \<Rightarrow> 'w writer \<Rightarrow> 'w rest \<Rightarrow> ((exn + Candle list) \<times> 'w rest) option" where
  "getHistoricalPrices E marketId interval from' to' writer s =
     (let intervalMs = numberOfMsForCandleInterval interval in
      if intervalMs \<le> 0 then Some (Inl (Runtime_error ''Lighter: invalid candle interval''), s)
      else (let intervalSec = cdiv intervalMs 1000 in
        candle_loop E marketId interval intervalMs from' to' writer intervalSec
          (intervalSec * (kMaxBarsPerCall - 1)) (cdiv to' 1000) (cdiv from' 1000) (- 1) [] s))"

definition getHistoricalPrices_by_symbol ::
  "'w env \<Rightarrow> string \<Rightarrow> CandleInterval \<Rightarrow> int \<Rightarrow> int \<Rightarrow> 'w writer \<Rightarrow> 'w rest \<Rightarrow> ((exn + Candle list) \<times> 'w rest) option" where
  "getHistoricalPrices_by_symbol E symb interval from' to' writer s =
     (case resolveMarketId E symb s of
        (Inl e, s1) \<Rightarrow> Some (Inl e, s1)
      | (Inr i, s1) \<Rightarrow> getHistoricalPrices E i interval from' to' writer s1)"

text \<open>Funding: timestamps that look like seconds are turned into ms first.\<close>

definition normalise_time :: "FundingRate \<Rightarrow> FundingRate" where
  "normalise_time f =
     (if fundingTime f > 0 \<and> fundingTime f < 100000000000 then f\<lparr>fundingTime := fundingTime f * 1000\<rparr> else f)"

fun keep_rates :: "int \<Rightarrow> int \<Rightarrow> int \<Rightarrow> FundingRate list \<Rightarrow> FundingRate list \<times> int" where
  "keep_rates startTime endTime last' [] = ([], last')"
| "keep_rates startTime endTime last' (f # fs) =
     (if fundingTime f < startTime \<or> fundingTime f > endTime \<or> fundingTime f \<le> last'
      then keep_rates startTime endTime last' fs
      else (let (ks, l) = keep_rates startTime endTime (fundingTime f) fs in (f # ks, l)))"

definition fundingIntervalSec :: int where "fundingIntervalSec = 3600"

definition funding_pass ::
  "'w env \<Rightarrow> int \<Rightarrow> int \<Rightarrow> int \<Rightarrow> int \<Rightarrow> int \<Rightarrow> int \<Rightarrow> ('w, FundingRate list \<times> int) rest_op" where
  "funding_pass E marketId startTime endTime cursorSec batchEndSec last' =
     seq (getFundingBatch E marketId cursorSec batchEndSec (count_back fundingIntervalSec cursorSec batchEndSec)) (\<lambda>batch.
     pure (Inr (keep_rates startTime endTime last' (map normalise_time batch))))"

partial_function (option) funding_loop ::
  "'w env \<Rightarrow> int \<Rightarrow> int \<Rightarrow> int \<Rightarrow> int \<Rightarrow> int \<Rightarrow> int \<Rightarrow> int \<Rightarrow> FundingRate list \<Rightarrow> 'w rest \<Rightarrow>
     ((exn + FundingRate list) \<times> 'w rest) option" where
  "funding_loop E marketId startTime endTime windowSec toSec cursorSec last' retVal s =
     (if cursorSec < toSec then
        (let batchEndSec = batch_end windowSec toSec cursorSec;
             r = funding_pass E marketId startTime endTime cursorSec batchEndSec last' s
         in case fst r of
              Inl e \<Rightarrow> Some (Inl e, snd r)
            | Inr p \<Rightarrow> funding_loop E marketId startTime endTime windowSec toSec
                batchEndSec (snd p) (retVal @ fst p) (snd r))
      else Some (Inr retVal, s))"

definition getFundingRates ::
  "'w env \<Rightarrow> int \<Rightarrow> int \<Rightarrow> int \<Rightarrow> 'w rest \<Rightarrow> ((exn + FundingRate list) \<times> 'w rest) option" where
  "getFundingRates E marketId startTime endTime s =
     funding_loop E marketId startTime endTime (fundingIntervalSec * (kMaxBarsPerCall - 1))
       (cdiv endTime 1000) (cdiv startTime 1000) (- 1) [] s"

definition getFundingRates_by_symbol ::
  "'w env \<Rightarrow> string \<Rightarrow> int \<Rightarrow> int \<Rightarrow> 'w rest \<Rightarrow> ((exn + FundingRate list) \<times> 'w rest) option" where
  "getFundingRates_by_symbol E symb startTime endTime s =
     (case resolveMarketId E symb s of
        (Inl e, s1) \<Rightarrow> Some (Inl e, s1)
      | (Inr i, s1) \<Rightarrow> getFundingRates E i startTime endTime s1)"

section \<open>Current funding\<close>

fun current_rates :: "json_utils \<Rightarrow> json list \<Rightarrow> exn + FundingRate list" where
  "current_rates U [] = Inr []"
| "current_rates U (x # xs) =
     and_then (readString U x ''exchange'' []) (\<lambda>ex.
       if ex \<noteq> ''lighter'' then current_rates U xs
       else and_then (FundingRate_fromJson U x FundingRate_init) (\<lambda>f.
         and_then (current_rates U xs) (\<lambda>fs.
           Inr (f\<lparr>fundingRate := fundingRate f / fl 8\<rparr> # fs))))"

definition getCurrentFundingRates :: "'w env \<Rightarrow> ('w, FundingRate list) rest_op" where
  "getCurrentFundingRates E =
     seq (query_api E ''/api/v1/funding-rates'' (JObject [])) (\<lambda>j.
     pure (current_rates (utils E) (array_items ''funding_rates'' j)))"

section \<open>Accounts, nonces, transactions\<close>

definition getAccountBalance :: "'w env \<Rightarrow> string \<Rightarrow> string \<Rightarrow> bool \<Rightarrow> ('w, AccountBalance) rest_op" where
  "getAccountBalance E byKey byValue activeOnly =
     seq (query_api E ''/api/v1/account'' (JObject
       ((if activeOnly then [(''active_only'', JBool True)] else []) @
        [(''by'', JString byKey), (''value'', JString byValue)]))) (\<lambda>j.
     pure (case jfind ''accounts'' j of
         Some (JArray (x # xs)) \<Rightarrow> AccountBalance_fromJson (utils E) x AccountBalance_init
       | _ \<Rightarrow> Inl (Runtime_error (''Lighter: no account found for '' @ byKey @ ''='' @ byValue))))"

definition getBalance_by_index :: "'w env \<Rightarrow> int \<Rightarrow> bool \<Rightarrow> ('w, AccountBalance) rest_op" where
  "getBalance_by_index E accountIndex activeOnly =
     getAccountBalance E ''index'' (fmt_int accountIndex) activeOnly"

definition getBalance_by_address :: "'w env \<Rightarrow> string \<Rightarrow> bool \<Rightarrow> ('w, AccountBalance) rest_op" where
  "getBalance_by_address E l1 activeOnly = getAccountBalance E ''l1_address'' l1 activeOnly"

definition getNextNonce :: "'w env \<Rightarrow> int \<Rightarrow> int \<Rightarrow> ('w, int) rest_op" where
  "getNextNonce E accountIndex apiKeyIndex =
     seq (query_api E ''/api/v1/nextNonce'' (JObject
       [(''account_index'', JInt accountIndex), (''api_key_index'', JInt apiKeyIndex)])) (\<lambda>j.
     pure (and_then (readInt64 (utils E) j ''nonce'' (- 1)) (\<lambda>nonce.
       if nonce < 0 then and_then (json_dump E j) (\<lambda>d.
         Inl (Runtime_error (''Lighter nextNonce: no nonce in response: '' @ d)))
       else Inr nonce)))"

definition tx_body :: "int \<Rightarrow> string \<Rightarrow> string" where
  "tx_body txType txInfo = ''tx_type='' @ fmt_int txType @ ''&tx_info='' @ urlEncode txInfo"

definition sendTx :: "'w env \<Rightarrow> int \<Rightarrow> string \<Rightarrow> ('w, SendTxResult) rest_op" where
  "sendTx E txType txInfo s =
     seq (http_post E ''/api/v1/sendTx'' (tx_body txType txInfo)) (\<lambda>r.
     pure (and_then (checkTransport r) (\<lambda>r.
       and_then (json_parse E (rs_body r)) (\<lambda>j.
         SendTxResult_fromJson (utils E) j SendTxResult_init)))) (throttle E s)"

end
