(* ===== verification/Paging.thy ===== *)
theory Paging
  imports Rest_Client
begin

text \<open>
  The paginated downloads share one contract.  \<open>keeper\<close> is the filter of a batch: items in the
  wanted range whose time is above the running last time.  \<open>paged_loop\<close> is the loop that walks the
  end of the window forward.  \<open>paging\<close> joins them and shows, once for candles and funding, that the
  loop returns, that its result ascends strictly and stays in range, and that it misses nothing when
  the venue answers by its \<open>count_back\<close> rule.  Both loops of \<open>Rest_Client\<close> are interpretations.
\<close>

section \<open>Lists by time\<close>

definition ascending :: "('a \<Rightarrow> int) \<Rightarrow> 'a list \<Rightarrow> bool" where
  "ascending key xs \<longleftrightarrow> sorted_wrt (\<lambda>x y. key x < key y) xs"

definition spaced :: "('a \<Rightarrow> int) \<Rightarrow> int \<Rightarrow> 'a list \<Rightarrow> bool" where
  "spaced key d xs \<longleftrightarrow> sorted_wrt (\<lambda>x y. key x + d \<le> key y) xs"

definition take_last :: "int \<Rightarrow> 'a list \<Rightarrow> 'a list" where
  "take_last n xs = drop (length xs - nat n) xs"

lemma spaced_ascending: "0 < d \<Longrightarrow> spaced key d xs \<Longrightarrow> ascending key xs"
  unfolding spaced_def ascending_def by (erule sorted_wrt_mono_rel[rotated]) simp

lemma spaced_filter: "spaced key d xs \<Longrightarrow> spaced key d (filter P xs)"
  by (simp add: spaced_def sorted_wrt_filter)

lemma ascending_append: "ascending key (xs @ ys) \<longleftrightarrow>
    ascending key xs \<and> ascending key ys \<and> (\<forall>x\<in>set xs. \<forall>y\<in>set ys. key x < key y)"
  by (auto simp: ascending_def sorted_wrt_append)

lemma spaced_length:
  assumes "spaced key d xs" "0 < d" "\<forall>x\<in>set xs. a \<le> key x \<and> key x \<le> b" "a \<le> b"
  shows "int (length xs) \<le> (b - a) div d + 1"
  using assms(1,3,4)
proof (induction xs arbitrary: a)
  case (Cons x xs)
  show ?case
  proof (cases xs)
    case Nil
    have "0 \<le> (b - a) div d" using Cons.prems(3) assms(2) by (simp add: pos_imp_zdiv_nonneg_iff)
    then show ?thesis using Nil by simp
  next
    case (Cons y ys)
    have tail: "\<forall>z\<in>set xs. a + d \<le> key z \<and> key z \<le> b" "spaced key d xs"
      using Cons.prems(1,2) by (auto simp: spaced_def)
    then have "a + d \<le> b" using Cons by force
    from Cons.IH[OF tail(2,1) this] have "int (length xs) \<le> (b - a - d) div d + 1" by (simp add: algebra_simps)
    moreover have "(b - a) div d = (b - a - d) div d + 1"
      using div_add_self2[of d "b - a - d"] assms(2) by simp
    ultimately show ?thesis by simp
  qed
next
  case Nil
  have "0 \<le> (b - a) div d" using Nil.prems assms(2) by (simp add: pos_imp_zdiv_nonneg_iff)
  then show ?case by simp
qed

text \<open>What a bounded suffix cannot drop.\<close>

lemma filter_take_last:
  assumes "ascending key xs" "int (length (filter (\<lambda>x. K \<le> key x) xs)) \<le> n" "\<And>x. x \<in> set xs \<Longrightarrow> P x \<Longrightarrow> K \<le> key x"
  shows "filter P (take_last n xs) = filter P xs"
proof -
  define k where "k = length xs - nat n"
  have "filter P (take k xs) = []"
  proof -
    have "\<not> P x" if x: "x \<in> set (take k xs)" for x
    proof
      assume "P x"
      have "x \<in> set xs" using x by (rule in_set_takeD)
      then have "K \<le> key x" using assms(3) \<open>P x\<close> by blast
      moreover have "\<forall>y\<in>set (drop k xs). key x < key y"
        using assms(1) x append_take_drop_id[of k xs] ascending_append[of key "take k xs" "drop k xs"] by auto
      ultimately have "filter (\<lambda>x. K \<le> key x) (drop k xs) = drop k xs"
        by (intro filter_True) (auto intro: order_trans less_imp_le)
      moreover have "filter (\<lambda>x. K \<le> key x) (take k xs) \<noteq> []"
        using x \<open>K \<le> key x\<close> by (auto simp: filter_empty_conv)
      moreover have "filter (\<lambda>x. K \<le> key x) xs
          = filter (\<lambda>x. K \<le> key x) (take k xs) @ filter (\<lambda>x. K \<le> key x) (drop k xs)"
        by (metis append_take_drop_id filter_append)
      ultimately have "length (drop k xs) < length (filter (\<lambda>x. K \<le> key x) xs)" by simp
      then have "length xs - k < nat n" using assms(2) by simp
      moreover have "0 < k" using x by (cases k) auto
      ultimately show False unfolding k_def by arith
    qed
    then show ?thesis by (simp add: filter_empty_conv)
  qed
  then show ?thesis unfolding take_last_def k_def[symmetric]
    by (metis append_Nil append_take_drop_id filter_append)
qed

lemma filter_split_time:
  assumes "ascending key H" "\<And>x. x \<in> set H \<Longrightarrow> P x \<Longrightarrow> key x \<le> D \<Longrightarrow> key x \<le> B"
  shows "filter (\<lambda>x. P x \<and> key x \<le> D) H @ filter (\<lambda>x. P x \<and> D < key x \<and> key x \<le> B) H
    = filter (\<lambda>x. P x \<and> key x \<le> B) H"
  using assms
proof (induction H)
  case (Cons x H)
  have IH: "filter (\<lambda>x. P x \<and> key x \<le> D) H @ filter (\<lambda>x. P x \<and> D < key x \<and> key x \<le> B) H
      = filter (\<lambda>x. P x \<and> key x \<le> B) H"
    using Cons by (auto simp: ascending_def)
  show ?case
  proof (cases "key x \<le> D")
    case True
    then show ?thesis using IH Cons.prems(2)[of x] by auto
  next
    case False
    then have "filter (\<lambda>x. P x \<and> key x \<le> D) H = []"
      using Cons.prems(1) by (auto simp: ascending_def filter_empty_conv)
    then show ?thesis using IH False by simp
  qed
qed simp

section \<open>The filter of a batch\<close>

locale keeper =
  fixes key :: "'a \<Rightarrow> int"
    and ok :: "'a \<Rightarrow> bool"
    and keep :: "int \<Rightarrow> 'a list \<Rightarrow> 'a list \<times> int"
  assumes keep_Nil: "keep l [] = ([], l)"
    and keep_Cons: "keep l (x # xs) = (if \<not> ok x \<or> key x \<le> l then keep l xs
      else (x # fst (keep (key x) xs), snd (keep (key x) xs)))"
begin

definition last_time :: "int \<Rightarrow> 'a list \<Rightarrow> int" where
  "last_time l xs = (if xs = [] then l else key (last xs))"

lemma keep_spec:
  "ascending key (fst (keep l xs)) \<and> (\<forall>x\<in>set (fst (keep l xs)). x \<in> set xs \<and> ok x \<and> l < key x) \<and>
   snd (keep l xs) = last_time l (fst (keep l xs))"
proof (induction xs arbitrary: l)
  case (Cons x xs)
  show ?case
  proof (cases "\<not> ok x \<or> key x \<le> l")
    case False
    with Cons[of "key x"] show ?thesis by (auto simp: keep_Cons ascending_def last_time_def)
  qed (use Cons[of l] in \<open>auto simp: keep_Cons\<close>)
qed (simp add: keep_Nil ascending_def last_time_def)

lemma keep_filter: "ascending key xs \<Longrightarrow> fst (keep l xs) = filter (\<lambda>x. ok x \<and> l < key x) xs"
proof (induction xs arbitrary: l)
  case (Cons x xs)
  have *: "l < key x \<Longrightarrow> filter (\<lambda>y. ok y \<and> key x < key y) xs = filter (\<lambda>y. ok y \<and> l < key y) xs"
    using Cons.prems by (intro filter_cong) (auto simp: ascending_def)
  have "ascending key xs" using Cons.prems by (simp add: ascending_def)
  then show ?case using Cons.IH * by (auto simp: keep_Cons)
qed (simp add: keep_Nil)

end

section \<open>The loop over the windows\<close>

locale paged_loop =
  fixes loop :: "int \<Rightarrow> int \<Rightarrow> 'a list \<Rightarrow> 's \<Rightarrow> ((exn + 'a list) \<times> 's) option"
    and pass :: "int \<Rightarrow> int \<Rightarrow> int \<Rightarrow> 's \<Rightarrow> (exn + 'a list \<times> int) \<times> 's"
    and windowSec toSec :: int
  assumes loop_eq: "loop c l acc s = (if c < toSec then
       (case fst (pass c (batch_end windowSec toSec c) l s) of
          Inl e \<Rightarrow> Some (Inl e, snd (pass c (batch_end windowSec toSec c) l s))
        | Inr p \<Rightarrow> loop (batch_end windowSec toSec c) (snd p) (acc @ fst p)
            (snd (pass c (batch_end windowSec toSec c) l s)))
     else Some (Inr acc, s))"
begin

lemma batch_end_bounds:
  "0 < windowSec \<Longrightarrow> c < toSec \<Longrightarrow> c < batch_end windowSec toSec c \<and> batch_end windowSec toSec c \<le> toSec"
  by (simp add: batch_end_def)

lemma loop_returns:
  assumes "0 < windowSec"
  shows "\<exists>r. loop c l acc s = Some r"
proof (induction "nat (toSec - c)" arbitrary: c l acc s rule: less_induct)
  case less
  show ?case
  proof (cases "c < toSec")
    case True
    let ?r = "pass c (batch_end windowSec toSec c) l s"
    show ?thesis
    proof (cases "fst ?r")
      case (Inr p)
      have "nat (toSec - batch_end windowSec toSec c) < nat (toSec - c)"
        using batch_end_bounds[OF assms True] by simp
      from less[OF this] True Inr show ?thesis by (subst loop_eq) simp
    qed (use True in \<open>subst loop_eq, simp\<close>)
  qed (subst loop_eq, simp)
qed

lemma loop_invariant:
  assumes "0 < windowSec" "loop c l acc s = Some (Inr xs, s')" "I l acc"
    "\<And>c b l acc s ks l' s'. pass c b l s = (Inr (ks, l'), s') \<Longrightarrow> I l acc \<Longrightarrow> I l' (acc @ ks)"
  shows "\<exists>l'. I l' xs"
  using assms(2,3)
proof (induction "nat (toSec - c)" arbitrary: c l acc s rule: less_induct)
  case less
  show ?case
  proof (cases "c < toSec")
    case True
    let ?b = "batch_end windowSec toSec c"
    have m: "nat (toSec - ?b) < nat (toSec - c)" using batch_end_bounds[OF assms(1) True] by simp
    obtain ks l' s1 where p: "pass c ?b l s = (Inr (ks, l'), s1)" "loop ?b l' (acc @ ks) s1 = Some (Inr xs, s')"
      using less.prems(1) True loop_eq[of c l acc s] by (cases "pass c ?b l s") (auto split: sum.splits)
    from less.hyps[OF m p(2) assms(4)[OF p(1) less.prems(2)]] show ?thesis .
  next
    case False
    then show ?thesis using less.prems loop_eq[of c l acc s] by auto
  qed
qed

lemma loop_succeeds:
  assumes "0 < windowSec" "J c l acc" "c \<le> toSec"
    "\<And>c l acc s. c < toSec \<Longrightarrow> J c l acc \<Longrightarrow>
       \<exists>ks l' s'. pass c (batch_end windowSec toSec c) l s = (Inr (ks, l'), s') \<and> J (batch_end windowSec toSec c) l' (acc @ ks)"
  shows "\<exists>xs l' s'. loop c l acc s = Some (Inr xs, s') \<and> J toSec l' xs"
  using assms(2,3)
proof (induction "nat (toSec - c)" arbitrary: c l acc s rule: less_induct)
  case less
  show ?case
  proof (cases "c < toSec")
    case True
    let ?b = "batch_end windowSec toSec c"
    have m: "nat (toSec - ?b) < nat (toSec - c)" "?b \<le> toSec" using batch_end_bounds[OF assms(1) True] by simp_all
    obtain ks l' s1 where p: "pass c ?b l s = (Inr (ks, l'), s1)" "J ?b l' (acc @ ks)"
      using assms(4)[OF True less.prems(1)] by blast
    from less.hyps[OF m(1) p(2) m(2)] p(1) True show ?thesis by (subst loop_eq) simp
  next
    case False
    then show ?thesis using less.prems loop_eq[of c l acc s] by auto
  qed
qed

end

section \<open>Both together\<close>

locale paging = keeper key ok keep + paged_loop loop pass windowSec toSec
  for key :: "'a \<Rightarrow> int" and ok :: "'a \<Rightarrow> bool" and keep :: "int \<Rightarrow> 'a list \<Rightarrow> 'a list \<times> int"
    and loop :: "int \<Rightarrow> int \<Rightarrow> 'a list \<Rightarrow> 's \<Rightarrow> ((exn + 'a list) \<times> 's) option"
    and pass :: "int \<Rightarrow> int \<Rightarrow> int \<Rightarrow> 's \<Rightarrow> (exn + 'a list \<times> int) \<times> 's"
    and windowSec toSec :: int +
  assumes pass_keeps: "pass c b l s = (Inr p, s') \<Longrightarrow> \<exists>xs. p = keep l xs"
begin

definition good :: "'a \<Rightarrow> bool" where
  "good x \<longleftrightarrow> ok x \<and> - 1 < key x"

lemma last_time_append:
  "last_time l (xs @ ys) = (if ys = [] then last_time l xs else key (last ys))"
  by (simp add: last_time_def)

lemma ascending_last: "ascending key xs \<Longrightarrow> x \<in> set xs \<Longrightarrow> key x \<le> last_time l xs"
  by (induction xs) (auto simp: ascending_def last_time_def intro: less_imp_le)

lemma last_time_ge: "\<forall>x\<in>set acc. good x \<Longrightarrow> - 1 \<le> last_time (- 1) acc"
  using last_in_set[of acc] by (auto simp: last_time_def good_def intro: less_imp_le)

lemma kept_step:
  assumes "ascending key acc \<and> (\<forall>x\<in>set acc. good x) \<and> l = last_time (- 1) acc" "(ks, l') = keep l xs"
  shows "ascending key (acc @ ks) \<and> (\<forall>x\<in>set (acc @ ks). good x) \<and> l' = last_time (- 1) (acc @ ks)"
proof -
  have k: "ascending key ks" "\<forall>x\<in>set ks. ok x \<and> l < key x" "l' = last_time l ks"
    using keep_spec[of l xs] assms(2)[symmetric] by auto
  have l: "- 1 \<le> l" using assms(1) last_time_ge by simp
  have "\<forall>x\<in>set acc. \<forall>y\<in>set ks. key x < key y"
    using assms(1) k(2) ascending_last[of acc _ "- 1"] by (auto intro: le_less_trans)
  moreover have "\<forall>x\<in>set ks. good x" using k(2) l by (force simp: good_def)
  ultimately show ?thesis using assms(1) k(1,3)
    by (auto simp: ascending_append last_time_append last_time_def split: if_splits)
qed

lemma loop_ascending:
  assumes "0 < windowSec" "loop c (- 1) [] s = Some (Inr xs, s')"
  shows "ascending key xs \<and> (\<forall>x\<in>set xs. ok x \<and> 0 \<le> key x)"
proof -
  let ?I = "\<lambda>l acc. ascending key acc \<and> (\<forall>x\<in>set acc. good x) \<and> l = last_time (- 1) acc"
  have "\<exists>l'. ?I l' xs"
  proof (rule loop_invariant[OF assms])
    show "?I (- 1) []" by (simp add: ascending_def last_time_def)
    show "?I l' (acc @ ks)" if p: "pass c b l s = (Inr (ks, l'), s')" and I: "?I l acc" for c b l acc s ks l' s'
    proof -
      obtain xs where "(ks, l') = keep l xs" using pass_keeps[OF p] by blast
      from kept_step[OF I this] show ?thesis .
    qed
  qed
  then show ?thesis by (auto simp: good_def)
qed

text \<open>What the venue answers: the last \<open>n\<close> items of its history that end by the end of the
  window.\<close>

definition answer :: "'a list \<Rightarrow> int \<Rightarrow> int \<Rightarrow> 'a list" where
  "answer H n b = take_last n (filter (\<lambda>x. key x \<le> b * 1000) H)"

text \<open>\<open>acc\<close> holds the good items up to the time \<open>D\<close>; the next ones come at the cursor or later.\<close>

definition taken :: "'a list \<Rightarrow> int \<Rightarrow> int \<Rightarrow> int \<Rightarrow> 'a list \<Rightarrow> bool" where
  "taken H D c l acc \<longleftrightarrow> acc = filter (\<lambda>x. good x \<and> key x \<le> D) H \<and> l = last_time (- 1) acc \<and>
     (\<forall>x\<in>set H. good x \<longrightarrow> (key x \<le> D \<longrightarrow> key x \<le> c * 1000) \<and> (D < key x \<longrightarrow> c * 1000 \<le> key x))"

lemma taken_step:
  assumes H: "spaced key (isec * 1000) H" "0 < isec" and J: "taken H D c l acc" and cb: "c < b"
    and n: "(b - c) div isec + 1 \<le> n" and k: "(ks, l') = keep l (answer H n b)"
  shows "taken H (b * 1000) b l' (acc @ ks)"
proof -
  let ?F = "filter (\<lambda>x. key x \<le> b * 1000) H"
  have asc: "ascending key H" using spaced_ascending[OF _ H(1)] H(2) by simp
  then have ascF: "ascending key ?F" by (simp add: ascending_def sorted_wrt_filter)
  have J': "acc = filter (\<lambda>x. good x \<and> key x \<le> D) H" "l = last_time (- 1) acc" using J by (simp_all add: taken_def)
  have gl: "ok x \<and> l < key x \<longleftrightarrow> good x \<and> D < key x" if x: "x \<in> set H" for x
  proof
    assume a: "ok x \<and> l < key x"
    have "- 1 \<le> l" using J' last_time_ge[of acc] by auto
    moreover have "x \<notin> set acc" using a ascending_last[of acc x "- 1"] J' asc
      by (auto simp: ascending_def sorted_wrt_filter)
    ultimately show "good x \<and> D < key x" using a x J' by (auto simp: good_def)
  next
    assume a: "good x \<and> D < key x"
    have "l < key x"
    proof (cases "acc = []")
      case False
      then have "last acc \<in> set acc" by simp
      then have "key (last acc) \<le> D" using J'(1) by simp
      then show ?thesis using a False J'(2) by (simp add: last_time_def)
    qed (use a J' in \<open>simp add: last_time_def good_def\<close>)
    then show "ok x \<and> l < key x" using a by (simp add: good_def)
  qed
  have asca: "ascending key (answer H n b)"
    using ascF by (simp add: answer_def take_last_def ascending_def sorted_wrt_drop)
  have "ks = filter (\<lambda>x. ok x \<and> l < key x) (answer H n b)" using keep_filter[OF asca] k by (metis fst_conv)
  also have "\<dots> = filter (\<lambda>x. ok x \<and> l < key x) ?F"
    unfolding answer_def
  proof (rule filter_take_last[OF ascF, where K = "c * 1000"])
    have "int (length (filter (\<lambda>x. c * 1000 \<le> key x) ?F)) \<le> (b * 1000 - c * 1000) div (isec * 1000) + 1"
      using H cb by (intro spaced_length spaced_filter) auto
    also have "(b * 1000 - c * 1000) div (isec * 1000) = (b - c) div isec"
      using div_mult_mult2[of "1000" "b - c" isec] by (simp add: left_diff_distrib)
    finally show "int (length (filter (\<lambda>x. c * 1000 \<le> key x) ?F)) \<le> n" using n by simp
    show "c * 1000 \<le> key x" if "x \<in> set ?F" "ok x \<and> l < key x" for x
      using that gl J by (auto simp: taken_def)
  qed
  also have "\<dots> = filter (\<lambda>x. good x \<and> D < key x \<and> key x \<le> b * 1000) H"
    unfolding filter_filter by (rule filter_cong[OF refl]) (simp add: gl conj_commute conj_left_commute)
  finally have ks: "ks = filter (\<lambda>x. good x \<and> D < key x \<and> key x \<le> b * 1000) H" .
  have D: "x \<in> set H \<Longrightarrow> good x \<Longrightarrow> key x \<le> D \<Longrightarrow> key x \<le> b * 1000" for x
    using J cb by (force simp: taken_def)
  have 1: "acc @ ks = filter (\<lambda>x. good x \<and> key x \<le> b * 1000) H"
    unfolding J'(1) ks by (rule filter_split_time[OF asc D])
  have "ascending key acc \<and> (\<forall>x\<in>set acc. good x) \<and> l = last_time (- 1) acc"
    using asc unfolding J'(2) J'(1) by (simp add: ascending_def sorted_wrt_filter)
  from kept_step[OF this k] have 2: "l' = last_time (- 1) (acc @ ks)" by blast
  show ?thesis unfolding taken_def using 1 2 by simp
qed

lemma loop_complete:
  assumes "spaced key (isec * 1000) H" "0 < isec" "0 < windowSec" "c0 < toSec"
    "\<And>x. x \<in> set H \<Longrightarrow> good x \<Longrightarrow> c0 * 1000 \<le> key x \<and> key x \<le> toSec * 1000"
    "\<And>c l s. c0 \<le> c \<Longrightarrow> c < toSec \<Longrightarrow> \<exists>n s'. (batch_end windowSec toSec c - c) div isec + 1 \<le> n \<and>
       pass c (batch_end windowSec toSec c) l s = (Inr (keep l (answer H n (batch_end windowSec toSec c))), s')"
  shows "\<exists>s'. loop c0 (- 1) [] s = Some (Inr (filter good H), s')"
proof -
  let ?J = "\<lambda>c l acc. c0 \<le> c \<and> (\<exists>D. (c = c0 \<or> D = c * 1000) \<and> taken H D c l acc)"
  have "\<exists>xs l' s'. loop c0 (- 1) [] s = Some (Inr xs, s') \<and> ?J toSec l' xs"
  proof (rule loop_succeeds[OF assms(3)])
    have "taken H (- 1) c0 (- 1) []" using assms(5) by (auto simp: taken_def last_time_def good_def filter_empty_conv)
    then show "?J c0 (- 1) []" by blast
    show "c0 \<le> toSec" using assms(4) by simp
    show "\<exists>ks l' s'. pass c (batch_end windowSec toSec c) l s = (Inr (ks, l'), s') \<and>
        ?J (batch_end windowSec toSec c) l' (acc @ ks)" if c: "c < toSec" and J: "?J c l acc" for c l acc s
    proof -
      let ?b = "batch_end windowSec toSec c"
      obtain n s' where n: "(?b - c) div isec + 1 \<le> n" and p: "pass c ?b l s = (Inr (keep l (answer H n ?b)), s')"
        using assms(6) c J by blast
      obtain ks l' where k: "(ks, l') = keep l (answer H n ?b)" by (metis surj_pair)
      obtain D where D: "taken H D c l acc" using J by blast
      have b: "c < ?b" using batch_end_bounds[OF assms(3) c] by simp
      have "c0 \<le> ?b" using b J by simp
      moreover have "pass c ?b l s = (Inr (ks, l'), s')" using p k by simp
      ultimately show ?thesis using taken_step[OF assms(1,2) D b n k] by blast
    qed
  qed
  then obtain xs l' s' D where "loop c0 (- 1) [] s = Some (Inr xs, s')" "D = toSec * 1000" "taken H D toSec l' xs"
    using assms(4) by auto
  moreover from this have "xs = filter good H"
    using assms(5) unfolding taken_def by (simp cong: filter_cong conj_cong)
  ultimately show ?thesis by blast
qed

end

end
