(* ===== verification/Histories.thy ===== *)
theory Histories
  imports Paging
begin

text \<open>
  The two paginated downloads as instances of \<open>paging\<close>, and the theorems about what they return:
  they always return, strictly ascending and in range, and when the venue answers each window by its
  \<open>count_back\<close> rule they return exactly the items of its history in the range.
\<close>

section \<open>Seconds\<close>

lemma cdiv_1000_le: "a \<le> t \<Longrightarrow> 0 \<le> t \<Longrightarrow> cdiv a 1000 * 1000 \<le> t"
proof (cases "0 \<le> a")
  case True
  assume "a \<le> t"
  have "a div 1000 * 1000 \<le> a" by (simp add: minus_mod_eq_div_mult [symmetric])
  then show ?thesis using True \<open>a \<le> t\<close> by (simp add: cdiv_nonneg)
next
  case False
  assume "0 \<le> t"
  have "cdiv a 1000 \<le> 0" using False by (simp add: cdiv_def pos_imp_zdiv_nonneg_iff)
  then show ?thesis using \<open>0 \<le> t\<close> by linarith
qed

lemma cdiv_1000_gt: "0 \<le> t \<Longrightarrow> t < cdiv t 1000 * 1000 + 1000"
  using pos_mod_bound[of 1000 t] minus_mod_eq_div_mult[of t 1000] by (simp add: cdiv_nonneg)

lemma count_back_window:
  assumes "0 < isec" "c < b" "b - c \<le> isec * (kMaxBarsPerCall - 1)"
  shows "count_back isec c b = (b - c) div isec + 1"
proof -
  have "(b - c) div isec \<le> isec * 499 div isec"
    using assms by (intro zdiv_mono1) (auto simp: kMaxBarsPerCall_def)
  then show ?thesis using assms by (simp add: count_back_def cdiv_nonneg kMaxBarsPerCall_def)
qed

section \<open>Candles\<close>

definition candle_ok :: "int \<Rightarrow> int \<Rightarrow> int \<Rightarrow> Candle \<Rightarrow> bool" where
  "candle_ok from' to' intervalMs c \<longleftrightarrow> from' \<le> openTime c \<and> openTime c + intervalMs \<le> to'"

interpretation candle_keeper: keeper openTime "candle_ok from' to' intervalMs" "keep_candles from' to' intervalMs"
  for from' to' intervalMs
  by unfold_locales (auto simp: candle_ok_def case_prod_unfold Let_def)

lemma candle_pass_keeps:
  "candle_pass E mid iv ms from' to' writer isec c b l s = (Inr p, s') \<Longrightarrow> \<exists>xs. p = keep_candles from' to' ms l xs"
  by (auto simp: candle_pass_def seq_def pure_def case_prod_unfold Let_def split: sum.splits)

interpretation candles: paging openTime "candle_ok from' to' ms" "keep_candles from' to' ms"
  "candle_loop E mid iv ms from' to' writer isec wsec toSec"
  "candle_pass E mid iv ms from' to' writer isec" wsec toSec
  for from' to' ms E mid iv writer isec wsec toSec
proof unfold_locales
  show "candle_loop E mid iv ms from' to' writer isec wsec toSec c l acc s =
      (if c < toSec then
       (case fst (candle_pass E mid iv ms from' to' writer isec c (batch_end wsec toSec c) l s) of
          Inl e \<Rightarrow> Some (Inl e, snd (candle_pass E mid iv ms from' to' writer isec c (batch_end wsec toSec c) l s))
        | Inr p \<Rightarrow> candle_loop E mid iv ms from' to' writer isec wsec toSec (batch_end wsec toSec c) (snd p) (acc @ fst p)
            (snd (candle_pass E mid iv ms from' to' writer isec c (batch_end wsec toSec c) l s)))
     else Some (Inr acc, s))" for c l acc s
    by (subst candle_loop.simps) (simp add: Let_def)
qed (rule candle_pass_keeps)

lemma interval_sec:
  assumes "0 < numberOfMsForCandleInterval iv"
  shows "60 \<le> cdiv (numberOfMsForCandleInterval iv) 1000 \<and>
    cdiv (numberOfMsForCandleInterval iv) 1000 * 1000 = numberOfMsForCandleInterval iv"
  using assms by (cases iv) (simp_all add: numberOfMsForCandleInterval_def cdiv_nonneg)

text \<open>Property C23: downloading candles always returns, with candles or with an exception, whatever the
  venue answers and whatever the range.\<close>

theorem candle_download_returns: "\<exists>r. getHistoricalPrices E mid iv from' to' writer s = Some r"
proof (cases "numberOfMsForCandleInterval iv \<le> 0")
  case False
  then have "0 < cdiv (numberOfMsForCandleInterval iv) 1000 * (kMaxBarsPerCall - 1)"
    using interval_sec[of iv] by (simp add: kMaxBarsPerCall_def)
  from candles.loop_returns[OF this] False show ?thesis by (simp add: getHistoricalPrices_def Let_def)
qed (simp add: getHistoricalPrices_def)

text \<open>Property C24: the candles a download returns ascend strictly in their open time (so none occurs
  twice), none opens before \<open>from\<close>, and each has closed by \<open>to\<close>, whatever the venue answered.\<close>

theorem candle_download_ascending_in_range:
  assumes "getHistoricalPrices E mid iv from' to' writer s = Some (Inr cs, s')"
  shows "ascending openTime cs \<and>
    list_all (\<lambda>c. from' \<le> openTime c \<and> openTime c + numberOfMsForCandleInterval iv \<le> to' \<and> 0 \<le> openTime c) cs"
proof -
  let ?isec = "cdiv (numberOfMsForCandleInterval iv) 1000"
  have pos: "0 < numberOfMsForCandleInterval iv" using assms by (simp add: getHistoricalPrices_def Let_def split: if_splits)
  then have w: "0 < ?isec * (kMaxBarsPerCall - 1)" using interval_sec[OF pos] by (simp add: kMaxBarsPerCall_def)
  have "candle_loop E mid iv (numberOfMsForCandleInterval iv) from' to' writer ?isec (?isec * (kMaxBarsPerCall - 1))
      (cdiv to' 1000) (cdiv from' 1000) (- 1) [] s = Some (Inr cs, s')"
    using assms pos by (simp add: getHistoricalPrices_def Let_def)
  from candles.loop_ascending[OF w this] show ?thesis by (simp add: candle_ok_def list_all_iff)
qed

text \<open>The venue's rule for \<open>/candles\<close>: the last \<open>count_back\<close> candles of its history that open by
  \<open>end_timestamp\<close>, whatever \<open>start_timestamp\<close> is.\<close>

definition udf_candles :: "'w env \<Rightarrow> int \<Rightarrow> CandleInterval \<Rightarrow> Candle list \<Rightarrow> bool" where
  "udf_candles E mid iv H \<longleftrightarrow> (\<forall>c b n s. \<exists>s'. getCandlesBatch E mid iv c b n s =
     (Inr (take_last n (filter (\<lambda>x. openTime x \<le> b * 1000) H)), s'))"

definition writer_ok :: "'w writer \<Rightarrow> bool" where
  "writer_ok writer \<longleftrightarrow> (case writer of None \<Rightarrow> True | Some f \<Rightarrow> \<forall>ks w. fst (f ks w) = Inr ())"

lemma write_batch_ok: "writer_ok writer \<Longrightarrow> fst (write_batch writer ks s) = Inr ()"
  by (simp add: writer_ok_def write_batch_def case_prod_unfold Let_def split: option.splits)

lemma candle_pass_udf:
  assumes "udf_candles E mid iv H" "writer_ok writer"
  shows "\<exists>s'. candle_pass E mid iv ms from' to' writer isec c b l s =
    (Inr (keep_candles from' to' ms l (take_last (count_back isec c b) (filter (\<lambda>x. openTime x \<le> b * 1000) H))), s')"
proof -
  let ?A = "take_last (count_back isec c b) (filter (\<lambda>x. openTime x \<le> b * 1000) H)"
  obtain s1 where g: "getCandlesBatch E mid iv c b (count_back isec c b) s = (Inr ?A, s1)"
    using assms(1) unfolding udf_candles_def by blast
  obtain ks l' where k: "keep_candles from' to' ms l ?A = (ks, l')" by force
  obtain s2 where "write_batch writer ks s1 = (Inr (), s2)"
    using write_batch_ok[OF assms(2), of ks s1] by (metis prod.collapse)
  then show ?thesis using g k by (simp add: candle_pass_def seq_def pure_def)
qed

lemma candles_from_history:
  assumes "udf_candles E mid iv H" "writer_ok writer" "named iv"
    "spaced openTime (numberOfMsForCandleInterval iv) H"
  shows "\<exists>s'. getHistoricalPrices E mid iv from' to' writer s = Some (Inr (filter (\<lambda>c. from' \<le> openTime c \<and>
     openTime c + numberOfMsForCandleInterval iv \<le> to' \<and> 0 \<le> openTime c) H), s')"
proof -
  let ?ms = "numberOfMsForCandleInterval iv" and ?c0 = "cdiv from' 1000" and ?t = "cdiv to' 1000"
  let ?isec = "cdiv ?ms 1000" and ?w = "cdiv ?ms 1000 * (kMaxBarsPerCall - 1)"
  let ?good = "\<lambda>c. from' \<le> openTime c \<and> openTime c + ?ms \<le> to' \<and> 0 \<le> openTime c"
  have pos: "0 < ?ms" using assms(3) interval_ms_unnamed[of iv] by simp
  note sec = interval_sec[OF pos]
  have w: "0 < ?w" "0 < ?isec" using sec by (simp_all add: kMaxBarsPerCall_def)
  have eq: "getHistoricalPrices E mid iv from' to' writer s =
      candle_loop E mid iv ?ms from' to' writer ?isec ?w ?t ?c0 (- 1) [] s"
    using pos by (simp add: getHistoricalPrices_def Let_def)
  have g: "candles.good from' to' ?ms = ?good"
    by (auto simp: candles.good_def candle_ok_def fun_eq_iff)
  have bounds: "?c0 * 1000 \<le> openTime x \<and> openTime x < ?t * 1000" if "?good x" for x
    using that cdiv_1000_le[of from' "openTime x"] cdiv_1000_gt[of to'] sec by linarith
  show ?thesis
  proof (cases "?c0 < ?t")
    case True
    have "\<exists>s'. candle_loop E mid iv ?ms from' to' writer ?isec ?w ?t ?c0 (- 1) [] s = Some (Inr (filter (candles.good from' to' ?ms) H), s')"
    proof (rule candles.loop_complete[OF _ w(2,1) True])
      show "spaced openTime (?isec * 1000) H" using assms(4) sec by simp
      show "?c0 * 1000 \<le> openTime x \<and> openTime x \<le> ?t * 1000" if "candles.good from' to' ?ms x" for x
        using bounds[of x] that g by simp
      show "\<exists>n s'. (batch_end ?w ?t c - c) div ?isec + 1 \<le> n \<and>
          candle_pass E mid iv ?ms from' to' writer ?isec c (batch_end ?w ?t c) l s =
            (Inr (keep_candles from' to' ?ms l (candles.answer H n (batch_end ?w ?t c))), s')"
        if "c < ?t" for c l s
      proof -
        have "count_back ?isec c (batch_end ?w ?t c) = (batch_end ?w ?t c - c) div ?isec + 1"
          using w that by (intro count_back_window) (auto simp: batch_end_def)
        then show ?thesis
          using candle_pass_udf[OF assms(1,2), of ?ms from' to' ?isec c "batch_end ?w ?t c" l s]
          unfolding candles.answer_def by (metis order_refl)
      qed
    qed
    then show ?thesis unfolding eq g .
  next
    case False
    have "\<not> ?good x" for x using bounds[of x] False by (auto dest: less_le_trans)
    then have "filter ?good H = []" unfolding filter_empty_conv by blast
    then show ?thesis unfolding eq using False by (subst candle_loop.simps) simp
  qed
qed

text \<open>Property C22: when the venue answers every window by its \<open>count_back\<close> rule from a history of
  candles at least one interval apart, a download returns every closed candle of the history in the
  range, in order, each once, and nothing else, however many windows it takes.\<close>

theorem candle_download_complete:
  assumes "udf_candles E mid iv H" "writer_ok writer" "named iv"
    "spaced openTime (numberOfMsForCandleInterval iv) H"
  shows "\<exists>s'. getHistoricalPrices E mid iv from' to' writer s = Some (Inr (filter (\<lambda>c. from' \<le> openTime c \<and>
     openTime c + numberOfMsForCandleInterval iv \<le> to' \<and> 0 \<le> openTime c) H), s')"
  using candles_from_history[OF assms] .

section \<open>Funding rates\<close>

definition rate_ok :: "int \<Rightarrow> int \<Rightarrow> FundingRate \<Rightarrow> bool" where
  "rate_ok startTime endTime f \<longleftrightarrow> startTime \<le> fundingTime f \<and> fundingTime f \<le> endTime"

lemma funding_pass_keeps:
  "funding_pass E mid st en c b l s = (Inr p, s') \<Longrightarrow> \<exists>xs. p = keep_rates st en l xs"
  by (auto simp: funding_pass_def seq_def pure_def split: prod.splits sum.splits)

interpretation rates: paging fundingTime "rate_ok st en" "keep_rates st en"
  "funding_loop E mid st en wsec toSec" "funding_pass E mid st en" wsec toSec
  for st en E mid wsec toSec
proof unfold_locales
  show "funding_loop E mid st en wsec toSec c l acc s =
      (if c < toSec then
       (case fst (funding_pass E mid st en c (batch_end wsec toSec c) l s) of
          Inl e \<Rightarrow> Some (Inl e, snd (funding_pass E mid st en c (batch_end wsec toSec c) l s))
        | Inr p \<Rightarrow> funding_loop E mid st en wsec toSec (batch_end wsec toSec c) (snd p) (acc @ fst p)
            (snd (funding_pass E mid st en c (batch_end wsec toSec c) l s)))
     else Some (Inr acc, s))" for c l acc s
    by (subst funding_loop.simps) (simp add: Let_def)
  show "\<exists>xs. p = keep_rates st en l xs" if "funding_pass E mid st en c b l s = (Inr p, s')" for c b l s p s'
    using that by (rule funding_pass_keeps)
qed (auto simp: rate_ok_def case_prod_unfold Let_def)

lemma funding_window: "0 < fundingIntervalSec * (kMaxBarsPerCall - 1)"
  by (simp add: fundingIntervalSec_def kMaxBarsPerCall_def)

text \<open>Property C26: downloading funding rates always returns; when it returns rates they ascend strictly
  in time and lie in \<open>[startTime, endTime]\<close>, whatever the venue answered.\<close>

theorem funding_download_returns_in_range:
  "\<exists>r s'. getFundingRates E mid startTime endTime s = Some (r, s') \<and>
     (case r of Inl e \<Rightarrow> True | Inr fs \<Rightarrow> ascending fundingTime fs \<and>
        list_all (\<lambda>f. startTime \<le> fundingTime f \<and> fundingTime f \<le> endTime \<and> 0 \<le> fundingTime f) fs)"
proof -
  let ?w = "fundingIntervalSec * (kMaxBarsPerCall - 1)"
  obtain r s' where r: "funding_loop E mid startTime endTime ?w (cdiv endTime 1000) (cdiv startTime 1000) (- 1) [] s = Some (r, s')"
    using rates.loop_returns[OF funding_window] by (metis surj_pair)
  then have "getFundingRates E mid startTime endTime s = Some (r, s')" by (simp add: getFundingRates_def)
  moreover have "case r of Inl e \<Rightarrow> True | Inr fs \<Rightarrow> ascending fundingTime fs \<and>
        list_all (\<lambda>f. startTime \<le> fundingTime f \<and> fundingTime f \<le> endTime \<and> 0 \<le> fundingTime f) fs"
    using rates.loop_ascending[OF funding_window] r
    by (cases r) (simp_all add: rate_ok_def list_all_iff)
  ultimately show ?thesis by blast
qed

text \<open>The venue's rule for \<open>/fundings\<close>; timestamps may be in seconds.\<close>

definition udf_fundings :: "'w env \<Rightarrow> int \<Rightarrow> FundingRate list \<Rightarrow> bool" where
  "udf_fundings E mid H \<longleftrightarrow> (\<forall>c b n s. \<exists>s'. getFundingBatch E mid c b n s =
     (Inr (take_last n (filter (\<lambda>f. fundingTime (normalise_time f) \<le> b * 1000) H)), s'))"

lemma funding_pass_udf:
  assumes "udf_fundings E mid H"
  shows "\<exists>s'. funding_pass E mid st en c b l s = (Inr (keep_rates st en l
    (rates.answer (map normalise_time H) (count_back fundingIntervalSec c b) b)), s')"
proof -
  let ?n = "count_back fundingIntervalSec c b"
  let ?A = "take_last ?n (filter (\<lambda>f. fundingTime (normalise_time f) \<le> b * 1000) H)"
  obtain s1 where "getFundingBatch E mid c b ?n s = (Inr ?A, s1)"
    using assms unfolding udf_fundings_def by blast
  moreover have "map normalise_time ?A = rates.answer (map normalise_time H) ?n b"
    by (simp add: rates.answer_def take_last_def drop_map filter_map comp_def)
  ultimately show ?thesis by (simp add: funding_pass_def seq_def pure_def)
qed


section \<open>A venue that keeps the rule\<close>

text \<open>The transport echoes the query, the parser answers it; \<open>W e n\<close> is the response to
  \<open>end_timestamp = e\<close> and \<open>count_back = n\<close>.\<close>

definition demo_query :: "json \<Rightarrow> string" where
  "demo_query q = (case (jfind ''end_timestamp'' q, jfind ''count_back'' q) of
     (Some (JInt e), Some (JInt n)) \<Rightarrow> fmt_int e @ ''/'' @ fmt_int n | _ \<Rightarrow> [])"

definition demo_answer :: "(int \<Rightarrow> int \<Rightarrow> json) \<Rightarrow> string \<Rightarrow> exn + json" where
  "demo_answer W body = (let q = tl (dropWhile (\<lambda>c. c \<noteq> CHR ''?'') body) in
     case (strtol (takeWhile (\<lambda>c. c \<noteq> CHR ''/'') q), strtol (tl (dropWhile (\<lambda>c. c \<noteq> CHR ''/'') q))) of
       (Some e, Some n) \<Rightarrow> Inr (W e n) | _ \<Rightarrow> Inl (Json_exception []))"

definition demo_env :: "(int \<Rightarrow> int \<Rightarrow> json) \<Rightarrow> unit env" where
  "demo_env W = \<lparr>net = direct_net (\<lambda>r w. (Inr \<lparr>rs_status = 200, rs_body = rq_target r\<rparr>, w)) demo_query,
     steady_now = (\<lambda>w. (0, w)), sleep_for = (\<lambda>d w. w), json_parse = demo_answer W,
     json_dump = (\<lambda>j. Inr []), utils = plain_utils\<rparr>"

lemma fmt_int_no_slash: "c \<in> set (fmt_int n) \<Longrightarrow> c \<noteq> CHR ''/'' \<and> c \<noteq> CHR ''?''"
proof -
  assume c: "c \<in> set (fmt_int n)"
  have "isdigit c \<or> c = CHR ''-''"
    using c dec_digits_digits[of n] dec_digits_digits[of "- n"]
    by (auto simp: fmt_int_def list_all_iff split: if_splits)
  then show ?thesis by (auto simp: isdigit_def char_code_def)
qed

lemma demo_answer_query: "\<forall>c\<in>set path. c \<noteq> CHR ''?'' \<Longrightarrow>
  demo_answer W (path @ CHR ''?'' # fmt_int e @ CHR ''/'' # fmt_int n) = Inr (W e n)"
proof -
  assume p: "\<forall>c\<in>set path. c \<noteq> CHR ''?''"
  have 1: "dropWhile (\<lambda>c. c \<noteq> CHR ''?'') (path @ CHR ''?'' # r) = CHR ''?'' # r" for r
    using p by (subst dropWhile_append2) auto
  have 2: "takeWhile (\<lambda>c. c \<noteq> CHR ''/'') (fmt_int e @ CHR ''/'' # r) = fmt_int e"
    "dropWhile (\<lambda>c. c \<noteq> CHR ''/'') (fmt_int e @ CHR ''/'' # r) = CHR ''/'' # r" for r
    using fmt_int_no_slash[of _ e] by (auto simp: takeWhile_append2 dropWhile_append2)
  show ?thesis by (simp add: demo_answer_def 1 2 Let_def)
qed

lemma demo_query_api:
  assumes "\<forall>c\<in>set path. c \<noteq> CHR ''?''" "jfind ''code'' (W b n) = Some (JInt 200)"
  shows "\<exists>s'. query_api (demo_env W) path (window_query mid res c b n) s = (Inr (W b n), s')"
proof -
  have "is_object (W b n)" using assms(2) by (cases "W b n") (simp_all add: is_object_def)
  then show ?thesis using demo_answer_query[OF assms(1), of W b n] assms(2)
    by (simp add: query_api_def seq_def pure_def http_get_def HTTPSession_get_def P_request_transport get_target_def
        window_query_def demo_env_def demo_query_def checkTransport_def parseEnvelope_def to_int32_def
        case_prod_unfold Let_def)
qed

lemma map_throw_map: "(\<And>x. x \<in> set xs \<Longrightarrow> f (g x) = Inr (h x)) \<Longrightarrow> map_throw f (map g xs) = Inr (map h xs)"
  by (induction xs) simp_all

lemma take_last_map: "take_last n (map f xs) = map f (take_last n xs)"
  by (simp add: take_last_def drop_map)

lemma take_last_set: "x \<in> set (take_last n xs) \<Longrightarrow> x \<in> set xs"
  unfolding take_last_def by (rule in_set_dropD)

definition demo_candle :: "int \<Rightarrow> Candle" where
  "demo_candle t = Candle_init\<lparr>openTime := t\<rparr>"

definition demo_candles :: "int list \<Rightarrow> int \<Rightarrow> int \<Rightarrow> json" where
  "demo_candles ts e n = JObject [(''code'', JInt 200), (''c'', JArray (map (\<lambda>t. JObject [(''t'', JInt t)])
     (take_last n (filter (\<lambda>t. t \<le> e * 1000) ts))))]"

lemma demo_candles_udf:
  assumes "list_all int64_range ts"
  shows "udf_candles (demo_env (demo_candles ts)) mid iv (map demo_candle ts)"
proof -
  have "\<exists>s'. getCandlesBatch (demo_env (demo_candles ts)) mid iv c b n s =
     (Inr (take_last n (filter (\<lambda>x. openTime x \<le> b * 1000) (map demo_candle ts))), s')" for c b n s
  proof -
    let ?ts = "take_last n (filter (\<lambda>t. t \<le> b * 1000) ts)"
    obtain s' where q: "query_api (demo_env (demo_candles ts)) ''/api/v1/candles''
        (window_query mid (enum_name iv) c b n) s = (Inr (demo_candles ts b n), s')"
      using demo_query_api[of "''/api/v1/candles''" "demo_candles ts" b n mid "enum_name iv" c s]
      by (auto simp: demo_candles_def)
    have "map_throw (\<lambda>x. Candle_fromJson plain_utils x Candle_init) (map (\<lambda>t. JObject [(''t'', JInt t)]) ?ts)
        = Inr (map demo_candle ?ts)"
    proof (rule map_throw_map)
      fix t
      assume "t \<in> set ?ts"
      then have "int64_range t" using assms by (auto simp: list_all_iff dest!: take_last_set)
      then show "Candle_fromJson plain_utils (JObject [(''t'', JInt t)]) Candle_init = Inr (demo_candle t)"
        by (simp add: Candle_fromJson_def plain_utils_def demo_candle_def Candle_init_def to_int64_id)
    qed
    moreover have "map demo_candle ?ts = take_last n (filter (\<lambda>x. openTime x \<le> b * 1000) (map demo_candle ts))"
      by (simp add: take_last_map[symmetric] filter_map comp_def demo_candle_def)
    ultimately show ?thesis using q
      by (simp add: getCandlesBatch_def seq_def pure_def demo_candles_def demo_env_def)
  qed
  then show ?thesis unfolding udf_candles_def by blast
qed

definition demo_times :: "int list" where
  "demo_times = [0, 60000, 120000, 864000000, 1728000000]"

theorem candle_download_ascending_in_range_witness:
  "\<exists>cs s'. getHistoricalPrices (demo_env (demo_candles demo_times)) 1 I1m 60000 1728000000 None (RESTClient_init ()) = Some (Inr cs, s')
     \<and> ascending openTime cs"
proof -
  have "udf_candles (demo_env (demo_candles demo_times)) 1 I1m (map demo_candle demo_times)"
    by (rule demo_candles_udf) (simp add: demo_times_def int64_range_def)
  from candles_from_history[OF this, of None 60000 1728000000 "RESTClient_init ()"]
  obtain cs s' where "getHistoricalPrices (demo_env (demo_candles demo_times)) 1 I1m 60000 1728000000 None (RESTClient_init ())
      = Some (Inr cs, s')"
    by (auto simp: writer_ok_def named_def spaced_def demo_times_def demo_candle_def Candle_init_def
        numberOfMsForCandleInterval_def)
  with candle_download_ascending_in_range[OF this] show ?thesis by blast
qed

theorem candle_download_complete_witness:
  "\<exists>s'. getHistoricalPrices (demo_env (demo_candles demo_times)) 1 I1m 60000 1728000000 None (RESTClient_init ())
     = Some (Inr [demo_candle 60000, demo_candle 120000, demo_candle 864000000], s')"
proof -
  have "udf_candles (demo_env (demo_candles demo_times)) 1 I1m (map demo_candle demo_times)"
    by (rule demo_candles_udf) (simp add: demo_times_def int64_range_def)
  from candle_download_complete[OF this, of None 60000 1728000000 "RESTClient_init ()"] show ?thesis
    by (simp add: demo_times_def demo_candle_def Candle_init_def writer_ok_def named_def spaced_def
        numberOfMsForCandleInterval_def)
qed

definition demo_rate :: "int \<Rightarrow> int \<Rightarrow> FundingRate" where
  "demo_rate mid t = FundingRate_init\<lparr>fundingTime := t, fr_marketId := mid\<rparr>"

definition demo_rates :: "int list \<Rightarrow> int \<Rightarrow> int \<Rightarrow> json" where
  "demo_rates ts e n = JObject [(''code'', JInt 200), (''fundings'', JArray (map (\<lambda>t. JObject [(''timestamp'', JInt t)])
     (take_last n (filter (\<lambda>t. fundingTime (normalise_time (demo_rate 0 t)) \<le> e * 1000) ts))))]"

lemma normalise_demo: "fundingTime (normalise_time (demo_rate mid t)) = fundingTime (normalise_time (demo_rate 0 t))"
  by (simp add: normalise_time_def demo_rate_def)

lemma demo_rates_udf:
  assumes "list_all int64_range ts"
  shows "udf_fundings (demo_env (demo_rates ts)) mid (map (demo_rate mid) ts)"
proof -
  have "\<exists>s'. getFundingBatch (demo_env (demo_rates ts)) mid c b n s =
     (Inr (take_last n (filter (\<lambda>f. fundingTime (normalise_time f) \<le> b * 1000) (map (demo_rate mid) ts))), s')" for c b n s
  proof -
    let ?ts = "take_last n (filter (\<lambda>t. fundingTime (normalise_time (demo_rate 0 t)) \<le> b * 1000) ts)"
    obtain s' where q: "query_api (demo_env (demo_rates ts)) ''/api/v1/fundings''
        (window_query mid ''1h'' c b n) s = (Inr (demo_rates ts b n), s')"
      using demo_query_api[of "''/api/v1/fundings''" "demo_rates ts" b n mid "''1h''" c s]
      by (auto simp: demo_rates_def)
    have "map_throw (\<lambda>x. and_then (FundingRate_fromJson plain_utils x FundingRate_init) (\<lambda>f.
             Inr (if fr_marketId f < 0 then f\<lparr>fr_marketId := mid\<rparr> else f)))
          (map (\<lambda>t. JObject [(''timestamp'', JInt t)]) ?ts) = Inr (map (demo_rate mid) ?ts)"
    proof (rule map_throw_map)
      fix t
      assume "t \<in> set ?ts"
      then have "int64_range t" using assms by (auto simp: list_all_iff dest!: take_last_set)
      then show "and_then (FundingRate_fromJson plain_utils (JObject [(''timestamp'', JInt t)]) FundingRate_init)
          (\<lambda>f. Inr (if fr_marketId f < 0 then f\<lparr>fr_marketId := mid\<rparr> else f)) = Inr (demo_rate mid t)"
        by (simp add: FundingRate_fromJson_def plain_utils_def demo_rate_def FundingRate_init_def to_int64_id read_rate_def)
    qed
    moreover have "map (demo_rate mid) ?ts
        = take_last n (filter (\<lambda>f. fundingTime (normalise_time f) \<le> b * 1000) (map (demo_rate mid) ts))"
      by (simp add: take_last_map[symmetric] filter_map comp_def normalise_demo[of mid])
    ultimately show ?thesis using q
      by (simp add: getFundingBatch_def seq_def pure_def demo_rates_def demo_env_def)
  qed
  then show ?thesis unfolding udf_fundings_def by blast
qed


end
