(* ===== verification/Rest_Requests.thy ===== *)
theory Rest_Requests
  imports Histories
begin

text \<open>
  The single requests of the REST client: percent encoding and its inverse, the pacing of requests
  under the laws of a steady clock, what the envelope check lets through, and the results of the
  market, funding and nonce queries.
\<close>

section \<open>Percent encoding\<close>

fun url_decode :: "string \<Rightarrow> string" where
  "url_decode (c # a # b # r) = (if c = CHR ''%''
     then char_of (16 * digit_val a + digit_val b) # url_decode r else c # url_decode (a # b # r))"
| "url_decode r = r"

lemma url_decode_Cons: "c \<noteq> CHR ''%'' \<Longrightarrow> url_decode (c # r) = c # url_decode r"
  by (induction r rule: url_decode.induct) auto

lemma unreserved_percent: "\<not> unreserved (CHR ''%'')"
  by (simp add: unreserved_def isalnum_def isdigit_def isupper_def islower_def char_code_def)

lemma hex_digit_val: "0 \<le> d \<Longrightarrow> d < 16 \<Longrightarrow> digit_val (hex_digit d) = d"
  by (auto simp: hex_digit_def digit_val_def isdigit_def tolower_def isupper_def char_code_def take_bit_eq_mod)

lemma hex_digit_unreserved: "0 \<le> d \<Longrightarrow> d < 16 \<Longrightarrow> unreserved (hex_digit d)"
  by (auto simp: hex_digit_def unreserved_def isalnum_def isdigit_def isupper_def islower_def char_code_def take_bit_eq_mod)

lemma url_decode_encode_char: "url_decode (encode_char c @ r) = c # url_decode r"
proof (cases "unreserved c")
  case True
  then have "c \<noteq> CHR ''%''" using unreserved_percent by auto
  with True show ?thesis by (simp add: encode_char_def url_decode_Cons)
next
  case False
  have r: "0 \<le> char_code c" "char_code c < 256" using char_code_range[of c] by auto
  have "char_of (16 * (char_code c div 16) + char_code c mod 16) = c"
    by (simp add: char_code_def mult.commute)
  moreover have "digit_val (hex_digit (char_code c div 16)) = char_code c div 16"
    "digit_val (hex_digit (char_code c mod 16)) = char_code c mod 16"
    using r by (auto intro!: hex_digit_val)
  ultimately show ?thesis using False by (simp add: encode_char_def)
qed

text \<open>Property C39: \<open>urlEncode\<close> loses nothing (percent decoding gives the value back) and its output
  holds only unreserved characters and percent signs, so no value of a form body can end its field.\<close>

theorem url_encode_roundtrip:
  "url_decode (urlEncode s) = s \<and> list_all (\<lambda>c. unreserved c \<or> c = CHR ''%'') (urlEncode s) \<and>
   CHR ''&'' \<notin> set (urlEncode s)"
proof -
  have 1: "url_decode (urlEncode s) = s"
    by (induction s) (simp_all add: urlEncode_def url_decode_encode_char)
  have 2: "list_all (\<lambda>c. unreserved c \<or> c = CHR ''%'') (urlEncode s)"
  proof (induction s)
    case (Cons c s)
    have "0 \<le> char_code c" "char_code c < 256" using char_code_range[of c] by auto
    with Cons show ?case by (auto simp: urlEncode_def encode_char_def hex_digit_unreserved)
  qed (simp add: urlEncode_def)
  have "\<not> unreserved (CHR ''&'')"
    by (simp add: unreserved_def isalnum_def isdigit_def isupper_def islower_def char_code_def)
  with 1 2 show ?thesis by (auto simp: list_all_iff)
qed

section \<open>Pacing\<close>

text \<open>A steady clock: it never goes back, and sleeping for \<open>d\<close> lets at least \<open>d\<close> pass.  \<open>clk w\<close> is
  the true time in the world \<open>w\<close>.\<close>

definition clock_ok :: "'w env \<Rightarrow> ('w \<Rightarrow> int) \<Rightarrow> bool" where
  "clock_ok E clk \<longleftrightarrow> (\<forall>w t w'. steady_now E w = (t, w') \<longrightarrow> clk w \<le> t \<and> t \<le> clk w') \<and>
     (\<forall>d w. 0 \<le> d \<longrightarrow> clk w + d \<le> clk (sleep_for E d w))"

lemma throttle_spacing:
  assumes "clock_ok E clk"
  shows "lastRequestAt s + minRequestInterval s * 1000000 \<le> lastRequestAt (throttle E s) \<and>
    minRequestInterval (throttle E s) = minRequestInterval s"
proof -
  obtain now w1 where 1: "steady_now E (world s) = (now, w1)" by force
  define i where "i = minRequestInterval s * 1000000"
  define w2 where "w2 = (if now - lastRequestAt s < i then sleep_for E (i - (now - lastRequestAt s)) w1 else w1)"
  obtain now2 w3 where 2: "steady_now E w2 = (now2, w3)" by force
  have t: "throttle E s = s\<lparr>lastRequestAt := now2, world := w3\<rparr>"
    by (simp add: throttle_def 1 2[unfolded w2_def i_def] w2_def i_def Let_def)
  have "clk w2 \<le> now2" "now \<le> clk w1" using assms 1 2 unfolding clock_ok_def by blast+
  moreover have "now - lastRequestAt s < i \<Longrightarrow> clk w1 + (i - (now - lastRequestAt s)) \<le> clk w2"
    using assms unfolding clock_ok_def w2_def by simp
  ultimately have "lastRequestAt s + i \<le> now2" by (cases "now - lastRequestAt s < i") (auto simp: w2_def)
  then show ?thesis using t by (simp add: i_def)
qed

text \<open>The requests of a client one after the other, each paced by the mutex-guarded \<open>throttle\<close>, and
  the instants it records for them.\<close>

datatype api_request = Query string json | Tx int string

definition issue :: "'w env \<Rightarrow> api_request \<Rightarrow> 'w rest \<Rightarrow> 'w rest" where
  "issue E r s = (case r of Query path q \<Rightarrow> snd (query_api E path q s) | Tx ty info \<Rightarrow> snd (sendTx E ty info s))"

fun request_times :: "'w env \<Rightarrow> api_request list \<Rightarrow> 'w rest \<Rightarrow> int list" where
  "request_times E [] s = []"
| "request_times E (r # rs) s = (let s1 = issue E r s in lastRequestAt s1 # request_times E rs s1)"

lemma issue_throttle:
  "lastRequestAt (issue E r s) = lastRequestAt (throttle E s) \<and>
   minRequestInterval (issue E r s) = minRequestInterval (throttle E s)"
  by (cases r) (auto simp: issue_def query_api_def sendTx_def seq_def pure_def http_get_def http_post_def
      case_prod_unfold Let_def split: sum.splits)

lemma request_times_spaced:
  assumes "clock_ok E clk" "0 \<le> minRequestInterval s"
  shows "spaced (\<lambda>t. t) (minRequestInterval s * 1000000) (lastRequestAt s # request_times E rs s)"
  using assms(2)
proof (induction rs arbitrary: s)
  case (Cons r rs)
  let ?s1 = "issue E r s" and ?d = "minRequestInterval s * 1000000"
  have i: "minRequestInterval ?s1 = minRequestInterval s" "lastRequestAt s + ?d \<le> lastRequestAt ?s1"
    using throttle_spacing[OF assms(1), of s] issue_throttle[of E r s] by simp_all
  have "spaced (\<lambda>t. t) ?d (lastRequestAt ?s1 # request_times E rs ?s1)"
    using Cons.IH[of ?s1] i Cons.prems by simp
  then show ?case using i(2) Cons.prems by (auto simp: spaced_def Let_def)
qed (simp add: spaced_def)


text \<open>A world that is its own clock and ticks on every call.\<close>

definition tick_env :: "int env" where
  "tick_env = \<lparr>net = direct_net (\<lambda>r w. (Inr \<lparr>rs_status = 200, rs_body = []\<rparr>, w + 5)) (\<lambda>q. []),
     steady_now = (\<lambda>w. (w + 1, w + 1)), sleep_for = (\<lambda>d w. w + d + 1), json_parse = (\<lambda>s. Inr (JObject [])),
     json_dump = (\<lambda>j. Inr []), utils = plain_utils\<rparr>"


section \<open>The envelope\<close>

lemma parseEnvelope_Inr:
  "parseEnvelope E r = Inr j \<longleftrightarrow> json_parse E (rs_body r) = Inr j \<and> is_object j \<and>
     (\<exists>c. jfind ''code'' j = Some (JInt c) \<and> to_int32 c = 200)"
proof (cases "json_parse E (rs_body r)")
  case (Inr k)
  show ?thesis
  proof (cases "jfind ''code'' k")
    case (Some v)
    show ?thesis
    proof (cases v)
      case (JInt c)
      then show ?thesis using Inr Some
        by (cases "readString (utils E) k ''message'' []") (auto simp: parseEnvelope_def)
    qed (use Inr Some in \<open>auto simp: parseEnvelope_def\<close>)
  qed (use Inr in \<open>auto simp: parseEnvelope_def\<close>)
qed (simp add: parseEnvelope_def)

lemma checkTransport_Inr:
  "and_then (checkTransport r) f = Inr y \<longleftrightarrow> rs_status r = 200 \<and> f r = Inr y"
  by (simp add: checkTransport_def)

lemma query_accepts_envelope:
  "query_api E path q s = (Inr j, s') \<longleftrightarrow>
    (\<exists>r. http_get E path q (throttle E s) = (Inr r, s') \<and> rs_status r = 200 \<and> json_parse E (rs_body r) = Inr j \<and>
       is_object j \<and> (\<exists>c. jfind ''code'' j = Some (JInt c) \<and> to_int32 c = 200))"
  unfolding query_api_def seq_Inr pure_def prod.inject checkTransport_Inr parseEnvelope_Inr by blast

text \<open>A query gives its caller a document exactly when the transport answered with HTTP
  status 200 and a body that parses to an object whose integer \<open>code\<close> is 200, and then it is that object;
  everything else is an exception.\<close>

theorem query_accepts_only_ok_envelopes:
  "query_api E path q s = (Inr j, s') \<longleftrightarrow>
    (\<exists>r. http_get E path q (throttle E s) = (Inr r, s') \<and> rs_status r = 200 \<and> json_parse E (rs_body r) = Inr j \<and>
       is_object j \<and> (\<exists>c. jfind ''code'' j = Some (JInt c) \<and> to_int32 c = 200))"
  by (rule query_accepts_envelope)

section \<open>Markets and current funding\<close>

lemma loadAssets_cache:
  "loadAssets E True s = (Inr as, s') \<Longrightarrow> symbolCachePopulated s' \<and>
     symbolToMarketId s' = fold (\<lambda>a m. m(pa_symbol a \<mapsto> pa_marketId a)) as Map.empty"
  by (auto simp: loadAssets_def seq_Inr fill_cache_def)

lemma fold_upd_last:
  "fold (\<lambda>a m. m(k a \<mapsto> v a)) as m x = (case filter (\<lambda>a. k a = x) (rev as) of [] \<Rightarrow> m x | a # _ \<Rightarrow> Some (v a))"
proof (induction as arbitrary: m)
  case (Cons a as)
  then show ?case by (cases "filter (\<lambda>a. k a = x) (rev as)") auto
qed simp

text \<open>\<open>resolveMarketId\<close> answers from the cache without a request when it can; whatever it
  answers is what the cache of the state it leaves says, the market id of the last listed market with
  that symbol; it never answers for a symbol the venue does not list.\<close>

theorem resolve_market_id:
  assumes "resolveMarketId E symb s = (Inr i, s')"
  shows "symbolCachePopulated s' \<and> symbolToMarketId s' symb = Some i \<and>
    (if symbolCachePopulated s \<and> symbolToMarketId s symb \<noteq> None then s' = s \<and> symbolToMarketId s symb = Some i
     else \<exists>as s0. loadAssets E True s0 = (Inr as, s') \<and>
       (\<exists>a r. filter (\<lambda>a. pa_symbol a = symb) (rev as) = a # r \<and> pa_marketId a = i))"
proof -
  obtain s1 where 1: "ensureSymbolCache E s = (Inr (), s1)"
    and 2: "(case symbolToMarketId s1 symb of Some i \<Rightarrow> (Inr i, s1)
       | None \<Rightarrow> seq (loadAssets E True) (\<lambda>_ s. case symbolToMarketId s symb of
             Some i \<Rightarrow> (Inr i, s)
           | None \<Rightarrow> (Inl (Runtime_error (''Lighter: unknown symbol '' @ quoted symb)), s)) s1) = (Inr i, s')"
    using assms by (auto simp: resolveMarketId_def seq_Inr)
  have fresh: "\<exists>a r. filter (\<lambda>a. pa_symbol a = symb) (rev as) = a # r \<and> pa_marketId a = i"
    if "loadAssets E True s0 = (Inr as, t)" "symbolToMarketId t symb = Some i" for s0 as t
    using loadAssets_cache[OF that(1)] that(2) fold_upd_last[of pa_symbol pa_marketId as Map.empty symb]
    by (auto split: list.splits)
  have s1: "symbolCachePopulated s1" "symbolCachePopulated s \<Longrightarrow> s1 = s"
    "\<not> symbolCachePopulated s \<Longrightarrow> \<exists>as. loadAssets E True s = (Inr as, s1)"
    using 1 by (auto simp: ensureSymbolCache_def seq_Inr pure_def dest: loadAssets_cache split: if_splits)
  show ?thesis
  proof (cases "symbolToMarketId s1 symb")
    case (Some k)
    then have s': "s' = s1" "symbolToMarketId s1 symb = Some i" using 2 by auto
    show ?thesis
    proof (cases "symbolCachePopulated s")
      case True
      then show ?thesis using s1 s' by simp
    next
      case False
      then obtain as where "loadAssets E True s = (Inr as, s1)" using s1(3) by blast
      with fresh[OF this s'(2)] s1(1) s' False show ?thesis by auto
    qed
  next
    case None
    then obtain as where as: "loadAssets E True s1 = (Inr as, s')" "symbolToMarketId s' symb = Some i"
      using 2 by (auto simp: seq_Inr split: option.splits)
    then show ?thesis using None s1 fresh[OF as] loadAssets_cache[OF as(1)] by auto
  qed
qed

definition asset_doc :: json where
  "asset_doc = JObject [(''code'', JInt 200),
     (''order_book_details'', JArray [JObject [(''symbol'', JString ''BTC''), (''market_id'', JInt 1), (''status'', JString ''active'')]])]"

definition asset_env :: "unit env" where
  "asset_env = (demo_env (\<lambda>e n. JNull))\<lparr>json_parse := (\<lambda>b. Inr asset_doc)\<rparr>"

definition btc_asset :: PerpAsset where
  "btc_asset = PerpAsset_init\<lparr>pa_symbol := ''BTC'', pa_marketId := 1, pa_status := ''active'', isDelisted := False\<rparr>"

lemma asset_query: "query_api asset_env path (JObject []) s = (Inr asset_doc, s\<lparr>lastRequestAt := 0, world := ()\<rparr>)"
  by (simp add: query_api_def throttle_def http_get_def http_post_def HTTPSession_get_def HTTPSession_postForm_def P_request_transport asset_env_def demo_env_def checkTransport_def
      parseEnvelope_def get_target_def is_object_def asset_doc_def seq_def pure_def to_int32_def case_prod_unfold Let_def)

lemma asset_parse: "map_throw (\<lambda>x. PerpAsset_fromJson (utils asset_env) x PerpAsset_init)
    (array_items ''order_book_details'' asset_doc) = Inr [btc_asset]"
  by code_simp

lemma asset_run: "loadAssets asset_env True s = (Inr [btc_asset], fill_cache [btc_asset] (s\<lparr>lastRequestAt := 0, world := ()\<rparr>))"
  by (simp add: loadAssets_def asset_query seq_def pure_def asset_parse)

theorem resolve_market_id_witness:
  "\<exists>s'. resolveMarketId asset_env ''BTC'' (RESTClient_init ()) = (Inr 1, s') \<and> symbolToMarketId s' ''BTC'' = Some 1"
proof -
  obtain r s' where r: "resolveMarketId asset_env ''BTC'' (RESTClient_init ()) = (r, s')" by force
  have "fst (resolveMarketId asset_env ''BTC'' (RESTClient_init ())) = Inr 1"
    by (simp add: resolveMarketId_def ensureSymbolCache_def asset_run seq_def pure_def fill_cache_def RESTClient_init_def btc_asset_def)
  with r have "resolveMarketId asset_env ''BTC'' (RESTClient_init ()) = (Inr 1, s')" by simp
  with resolve_market_id[OF this] show ?thesis by blast
qed

lemma loadAssets_parsed:
  "loadAssets E b s = (Inr as, s') \<Longrightarrow> \<exists>xs. map_throw (\<lambda>x. PerpAsset_fromJson (utils E) x PerpAsset_init) xs = Inr as"
  unfolding loadAssets_def seq_Inr pure_def by blast

lemma PerpAsset_status:
  "PerpAsset_fromJson U x a = Inr b \<Longrightarrow> isDelisted b = (pa_status b \<noteq> ''active'')"
  unfolding PerpAsset_fromJson_def and_then_Inr_iff by (elim exE conjE, drule PerpAsset_config_frame) simp

text \<open>\<open>getPerpetualAssets(false)\<close> returns markets whose status is \<open>active\<close> only.\<close>

theorem tradeable_assets_are_active:
  assumes "getPerpetualAssets E False s = (Inr as, s')"
  shows "list_all (\<lambda>a. pa_status a = ''active'' \<and> \<not> isDelisted a) as"
proof -
  obtain all s1 where load: "loadAssets E True s = (Inr all, s1)" and as: "as = filter (\<lambda>a. \<not> isDelisted a) all"
    using assms by (auto simp: getPerpetualAssets_def seq_Inr pure_def)
  obtain xs where "map_throw (\<lambda>x. PerpAsset_fromJson (utils E) x PerpAsset_init) xs = Inr all"
    using loadAssets_parsed[OF load] ..
  then have all: "list_all2 (\<lambda>x a. PerpAsset_fromJson (utils E) x PerpAsset_init = Inr a) xs all"
    by (simp add: map_throw_Inr_iff)
  have "isDelisted a = (pa_status a \<noteq> ''active'')" if a: "a \<in> set all" for a
  proof -
    obtain x where "PerpAsset_fromJson (utils E) x PerpAsset_init = Inr a"
      using list_all2_nthD2[OF all] a by (auto simp: in_set_conv_nth)
    then show ?thesis by (rule PerpAsset_status)
  qed
  then show ?thesis using as by (auto simp: list_all_iff)
qed

theorem tradeable_assets_are_active_witness:
  "\<exists>as s'. getPerpetualAssets asset_env False (RESTClient_init ()) = (Inr as, s') \<and> length as = 1
     \<and> list_all (\<lambda>a. pa_status a = ''active'' \<and> \<not> isDelisted a) as"
proof -
  obtain r s' where r: "getPerpetualAssets asset_env False (RESTClient_init ()) = (r, s')" by force
  have "(case fst (getPerpetualAssets asset_env False (RESTClient_init ())) of Inr as \<Rightarrow> length as = 1 | _ \<Rightarrow> False)"
    by (simp add: getPerpetualAssets_def asset_run seq_def pure_def btc_asset_def)
  with r obtain as where run: "getPerpetualAssets asset_env False (RESTClient_init ()) = (Inr as, s')" "length as = 1"
    by (cases r) simp_all
  from run tradeable_assets_are_active[OF run(1)] show ?thesis by blast
qed

lemma current_rates_rows:
  "current_rates U xs = Inr fs \<Longrightarrow> list_all2 (\<lambda>x f. \<exists>g. FundingRate_fromJson U x FundingRate_init = Inr g \<and>
      f = g\<lparr>fundingRate := fundingRate g / fl 8\<rparr>)
    (filter (\<lambda>x. readString U x ''exchange'' [] = Inr ''lighter'') xs) fs"
  by (induction xs arbitrary: fs) (auto simp: and_then_Inr_iff split: if_splits)

text \<open>The current funding snapshot holds exactly Lighter's own rows, in the venue's
  order, each with the quoted 8-hour rate divided by 8 and otherwise as parsed; rows of other venues are
  skipped.\<close>

theorem current_funding_is_own_hourly:
  assumes "getCurrentFundingRates E s = (Inr fs, s')"
  shows "\<exists>j. query_api E ''/api/v1/funding-rates'' (JObject []) s = (Inr j, s') \<and>
    list_all2 (\<lambda>x f. \<exists>g. FundingRate_fromJson (utils E) x FundingRate_init = Inr g \<and>
        f = g\<lparr>fundingRate := fundingRate g / fl 8\<rparr>)
      (filter (\<lambda>x. readString (utils E) x ''exchange'' [] = Inr ''lighter'') (array_items ''funding_rates'' j)) fs"
  using assms current_rates_rows by (auto simp: getCurrentFundingRates_def seq_Inr pure_def)

definition snapshot_env :: "unit env" where
  "snapshot_env = (demo_env (\<lambda>e n. JNull))\<lparr>json_parse := (\<lambda>b. Inr (JObject [(''code'', JInt 200),
     (''funding_rates'', JArray [
        JObject [(''exchange'', JString ''bybit''), (''rate'', JFloat (Fin 3))],
        JObject [(''exchange'', JString ''lighter''), (''rate'', JFloat (Fin 0))]])]))\<rparr>"

lemma snapshot_runs:
  "\<exists>s'. query_api snapshot_env ''/api/v1/funding-rates'' (JObject []) (RESTClient_init ())
     = (Inr (JObject [(''code'', JInt 200), (''funding_rates'', JArray [
        JObject [(''exchange'', JString ''bybit''), (''rate'', JFloat (Fin 3))],
        JObject [(''exchange'', JString ''lighter''), (''rate'', JFloat (Fin 0))]])]), s')"
  by (simp add: query_accepts_envelope http_get_def HTTPSession_get_def P_request_transport snapshot_env_def demo_env_def
      case_prod_unfold Let_def is_object_def to_int32_def)

theorem current_funding_is_own_hourly_witness:
  "\<exists>s' fs. getCurrentFundingRates snapshot_env (RESTClient_init ()) = (Inr fs, s') \<and> length fs = 1"
proof -
  obtain s' where q: "query_api snapshot_env ''/api/v1/funding-rates'' (JObject []) (RESTClient_init ())
     = (Inr (JObject [(''code'', JInt 200), (''funding_rates'', JArray [
        JObject [(''exchange'', JString ''bybit''), (''rate'', JFloat (Fin 3))],
        JObject [(''exchange'', JString ''lighter''), (''rate'', JFloat (Fin 0))]])]), s')"
    using snapshot_runs by blast
  have u: "utils snapshot_env = plain_utils" by (simp add: snapshot_env_def demo_env_def)
  have "\<exists>fs. getCurrentFundingRates snapshot_env (RESTClient_init ()) = (Inr fs, s')"
    by (simp add: getCurrentFundingRates_def seq_def q pure_def array_items_def u plain_utils_def FundingRate_fromJson_def)
  then obtain fs where fs: "getCurrentFundingRates snapshot_env (RESTClient_init ()) = (Inr fs, s')" ..
  from current_funding_is_own_hourly[OF fs] q have "length fs = 1"
    by (auto simp: array_items_def u plain_utils_def dest!: list_all2_lengthD)
  with fs show ?thesis by blast
qed

end
