(* ===== verification/Signer.thy ===== *)
theory Signer
  imports Json_Model
begin

text \<open>
  \<open>src/lighter_signer.cpp\<close>: the marshalling between the native signer's C interface and C++.

  The native library is the parameter \<open>native\<close>: each entry point gets its arguments and the memory
  and gives its response (by value, with pointers into the heap) and the memory afterwards.  The heap
  maps the address of a live buffer to the C string it holds; reading or freeing an address that is
  not live sets \<open>faulted\<close>.  A null pointer is \<open>None\<close>.  \<open>fresh_buffers\<close> is what the library promises:
  the buffers of a response are new, live and pairwise different, and it touches no others.  Each entry point
  runs under the client's mutex.
\<close>

section \<open>Memory and the native interface\<close>

record 'v mem =
  heap :: "nat \<rightharpoonup> string"
  faulted :: bool
  rest_of_world :: 'v

type_synonym cptr = "nat option"

record StrOrErr =
  soe_str :: cptr
  soe_err :: cptr

record SignedTxResponse =
  sr_txType :: int
  sr_txInfo :: cptr
  sr_txHash :: cptr
  sr_messageToSign :: cptr
  sr_err :: cptr

record ApiKeyResponse =
  ak_privateKey :: cptr
  ak_publicKey :: cptr
  ak_err :: cptr

record create_args =
  ca_market :: int
  ca_clientOrderIndex :: int
  ca_baseAmount :: int
  ca_price :: int
  ca_isAsk :: int
  ca_orderType :: int
  ca_timeInForce :: int
  ca_reduceOnly :: int
  ca_triggerPrice :: int
  ca_orderExpiry :: int
  ca_integratorAccountIndex :: int
  ca_integratorTakerFee :: int
  ca_integratorMakerFee :: int
  ca_skipNonce :: int
  ca_nonce :: int
  ca_apiKeyIndex :: int
  ca_accountIndex :: int

record 'v native =
  GenerateAPIKey :: "'v mem \<Rightarrow> ApiKeyResponse \<times> 'v mem"
  CreateClient :: "string \<Rightarrow> string \<Rightarrow> int \<Rightarrow> int \<Rightarrow> int \<Rightarrow> 'v mem \<Rightarrow> cptr \<times> 'v mem"
  CheckClient :: "int \<Rightarrow> int \<Rightarrow> 'v mem \<Rightarrow> cptr \<times> 'v mem"
  SignCreateOrder :: "create_args \<Rightarrow> 'v mem \<Rightarrow> SignedTxResponse \<times> 'v mem"
  SignCancelOrder :: "int \<Rightarrow> int \<Rightarrow> int \<Rightarrow> int \<Rightarrow> int \<Rightarrow> int \<Rightarrow> 'v mem \<Rightarrow> SignedTxResponse \<times> 'v mem"
  SignCancelAllOrders :: "int \<Rightarrow> int \<Rightarrow> int \<Rightarrow> int \<Rightarrow> int \<Rightarrow> int \<Rightarrow> 'v mem \<Rightarrow> SignedTxResponse \<times> 'v mem"
  CreateAuthToken :: "int \<Rightarrow> int \<Rightarrow> int \<Rightarrow> 'v mem \<Rightarrow> StrOrErr \<times> 'v mem"

definition SKIP_NONCE_OFF :: int where "SKIP_NONCE_OFF = 0"

section \<open>Marshalling\<close>

definition takeString :: "cptr \<Rightarrow> 'v mem \<Rightarrow> string \<times> 'v mem" where
  "takeString p m = (case p of
     None \<Rightarrow> ([], m)
   | Some a \<Rightarrow> (case heap m a of
       None \<Rightarrow> ([], m\<lparr>faulted := True\<rparr>)
     | Some s \<Rightarrow> (s, m\<lparr>heap := (heap m)(a := None)\<rparr>)))"

record SignedTx =
  tx_type :: int
  tx_info :: string
  tx_hash :: string

definition takeSigned :: "SignedTxResponse \<Rightarrow> string \<Rightarrow> 'v mem \<Rightarrow> (exn + SignedTx) \<times> 'v mem" where
  "takeSigned resp what m =
     (let (info, m1) = takeString (sr_txInfo resp) m;
          (hash, m2) = takeString (sr_txHash resp) m1;
          (_, m3) = takeString (sr_messageToSign resp) m2;
          (err, m4) = takeString (sr_err resp) m3
      in (if err \<noteq> [] then Inl (Runtime_error (''Lighter '' @ what @ '': '' @ err))
          else Inr \<lparr>tx_type = sr_txType resp, tx_info = info, tx_hash = hash\<rparr>, m4))"

definition chainIdForUrl :: "string \<Rightarrow> int" where
  "chainIdForUrl url = (if contains url ''mainnet'' \<or> contains url ''api'' then 304 else 300)"

definition asSignedBits :: "32 word \<Rightarrow> int" where
  "asSignedBits v = sint v"

record ApiKeyPair =
  privateKey :: string
  publicKey :: string

definition generateApiKey :: "'v native \<Rightarrow> 'v mem \<Rightarrow> (exn + ApiKeyPair) \<times> 'v mem" where
  "generateApiKey N m =
     (let (resp, m0) = GenerateAPIKey N m;
          (priv, m1) = takeString (ak_privateKey resp) m0;
          (pub, m2) = takeString (ak_publicKey resp) m1;
          (err, m3) = takeString (ak_err resp) m2
      in (if err \<noteq> [] then Inl (Runtime_error (''Lighter GenerateAPIKey: '' @ err))
          else Inr \<lparr>privateKey = priv, publicKey = pub\<rparr>, m3))"

section \<open>The signer\<close>

datatype LighterOrderType =
  OT_Limit | OT_Market | OT_StopLoss | OT_StopLossLimit | OT_TakeProfit | OT_TakeProfitLimit | OT_Twap

fun order_type_code :: "LighterOrderType \<Rightarrow> int" where
  "order_type_code OT_Limit = 0"
| "order_type_code OT_Market = 1"
| "order_type_code OT_StopLoss = 2"
| "order_type_code OT_StopLossLimit = 3"
| "order_type_code OT_TakeProfit = 4"
| "order_type_code OT_TakeProfitLimit = 5"
| "order_type_code OT_Twap = 6"

datatype LighterTimeInForce = TIF_ImmediateOrCancel | TIF_GoodTillTime | TIF_PostOnly

fun tif_code :: "LighterTimeInForce \<Rightarrow> int" where
  "tif_code TIF_ImmediateOrCancel = 0"
| "tif_code TIF_GoodTillTime = 1"
| "tif_code TIF_PostOnly = 2"

definition LIGHTER_NIL_TRIGGER_PRICE :: "32 word" where "LIGHTER_NIL_TRIGGER_PRICE = 0"
definition LIGHTER_DEFAULT_28_DAY_EXPIRY :: int where "LIGHTER_DEFAULT_28_DAY_EXPIRY = - 1"
definition LIGHTER_DEFAULT_IOC_EXPIRY :: int where "LIGHTER_DEFAULT_IOC_EXPIRY = 0"

record signer =
  sg_apiKeyIndex :: int
  sg_accountIndex :: int
  sg_chainId :: int

definition trim_key :: "string \<Rightarrow> string" where
  "trim_key k = (if starts_with k ''0x'' then drop 2 k else k)"

definition LighterSigner ::
  "'v native \<Rightarrow> string \<Rightarrow> string \<Rightarrow> int \<Rightarrow> int \<Rightarrow> 'v mem \<Rightarrow> (exn + signer) \<times> 'v mem" where
  "LighterSigner N url apiPrivateKey apiKeyIndex accountIndex m =
     (let (err, m1) = CreateClient N url (trim_key apiPrivateKey) (chainIdForUrl url) apiKeyIndex accountIndex m;
          (errStr, m2) = takeString err m1
      in (if errStr \<noteq> [] then Inl (Runtime_error (''Lighter CreateClient: '' @ errStr))
          else Inr \<lparr>sg_apiKeyIndex = apiKeyIndex, sg_accountIndex = accountIndex,
                    sg_chainId = chainIdForUrl url\<rparr>, m2))"

definition checkClient :: "'v native \<Rightarrow> signer \<Rightarrow> 'v mem \<Rightarrow> string \<times> 'v mem" where
  "checkClient N g m =
     (let (p, m1) = CheckClient N (sg_apiKeyIndex g) (sg_accountIndex g) m in takeString p m1)"

definition signCreateOrder ::
  "'v native \<Rightarrow> signer \<Rightarrow> int \<Rightarrow> int \<Rightarrow> int \<Rightarrow> 32 word \<Rightarrow> bool \<Rightarrow> LighterOrderType \<Rightarrow> LighterTimeInForce \<Rightarrow> bool \<Rightarrow>
     int \<Rightarrow> 32 word \<Rightarrow> int \<Rightarrow> 'v mem \<Rightarrow> (exn + SignedTx) \<times> 'v mem" where
  "signCreateOrder N g marketIndex clientOrderIndex baseAmount price isAsk orderType timeInForce
       reduceOnly nonce triggerPrice orderExpiry m =
     (let (resp, m1) = SignCreateOrder N \<lparr>ca_market = marketIndex, ca_clientOrderIndex = clientOrderIndex,
            ca_baseAmount = baseAmount, ca_price = asSignedBits price, ca_isAsk = (if isAsk then 1 else 0),
            ca_orderType = order_type_code orderType, ca_timeInForce = tif_code timeInForce,
            ca_reduceOnly = (if reduceOnly then 1 else 0), ca_triggerPrice = asSignedBits triggerPrice,
            ca_orderExpiry = orderExpiry, ca_integratorAccountIndex = 0, ca_integratorTakerFee = 0,
            ca_integratorMakerFee = 0, ca_skipNonce = SKIP_NONCE_OFF, ca_nonce = nonce,
            ca_apiKeyIndex = sg_apiKeyIndex g, ca_accountIndex = sg_accountIndex g\<rparr> m
      in takeSigned resp ''SignCreateOrder'' m1)"

definition signCancelOrder ::
  "'v native \<Rightarrow> signer \<Rightarrow> int \<Rightarrow> int \<Rightarrow> int \<Rightarrow> 'v mem \<Rightarrow> (exn + SignedTx) \<times> 'v mem" where
  "signCancelOrder N g marketIndex orderIndex nonce m =
     (let (resp, m1) = SignCancelOrder N marketIndex orderIndex SKIP_NONCE_OFF nonce
            (sg_apiKeyIndex g) (sg_accountIndex g) m
      in takeSigned resp ''SignCancelOrder'' m1)"

definition signCancelAllOrders ::
  "'v native \<Rightarrow> signer \<Rightarrow> int \<Rightarrow> int \<Rightarrow> int \<Rightarrow> 'v mem \<Rightarrow> (exn + SignedTx) \<times> 'v mem" where
  "signCancelAllOrders N g timeInForce timeMs nonce m =
     (let (resp, m1) = SignCancelAllOrders N timeInForce timeMs SKIP_NONCE_OFF nonce
            (sg_apiKeyIndex g) (sg_accountIndex g) m
      in takeSigned resp ''SignCancelAllOrders'' m1)"

definition createAuthToken :: "'v native \<Rightarrow> signer \<Rightarrow> int \<Rightarrow> 'v mem \<Rightarrow> (exn + string) \<times> 'v mem" where
  "createAuthToken N g deadlineUnix m =
     (let (resp, m0) = CreateAuthToken N deadlineUnix (sg_apiKeyIndex g) (sg_accountIndex g) m;
          (token, m1) = takeString (soe_str resp) m0;
          (err, m2) = takeString (soe_err resp) m1
      in (if err \<noteq> [] then Inl (Runtime_error (''Lighter CreateAuthToken: '' @ err)) else Inr token, m2))"

section \<open>No leak, no double free\<close>

text \<open>The library's promise for a response with the pointers \<open>ps\<close>.\<close>

definition fresh_buffers :: "cptr list \<Rightarrow> 'v mem \<Rightarrow> 'v mem \<Rightarrow> bool" where
  "fresh_buffers ps m m' \<longleftrightarrow> (let as = concat (map (\<lambda>p. case p of None \<Rightarrow> [] | Some a \<Rightarrow> [a]) ps) in
     distinct as \<and> (\<forall>a\<in>set as. heap m a = None \<and> heap m' a \<noteq> None) \<and>
     (\<forall>a. a \<notin> set as \<longrightarrow> heap m' a = heap m a) \<and> faulted m' = faulted m)"

fun take_all :: "cptr list \<Rightarrow> 'v mem \<Rightarrow> 'v mem" where
  "take_all [] m = m"
| "take_all (p # ps) m = take_all ps (snd (takeString p m))"

lemma fresh_take:
  "fresh_buffers (p # ps) m m' \<Longrightarrow> fresh_buffers ps m (snd (takeString p m'))"
  by (cases p) (auto simp: fresh_buffers_def takeString_def Let_def split: option.splits)

lemma fresh_take_all:
  "fresh_buffers ps m m' \<Longrightarrow> heap (take_all ps m') = heap m \<and> faulted (take_all ps m') = faulted m"
proof (induction ps arbitrary: m')
  case (Cons p ps)
  from Cons.IH[OF fresh_take[OF Cons.prems]] show ?case by simp
qed (auto simp: fresh_buffers_def Let_def)

lemma takeSigned_mem:
  "snd (takeSigned resp what m) =
     take_all [sr_txInfo resp, sr_txHash resp, sr_messageToSign resp, sr_err resp] m"
  by (simp add: takeSigned_def Let_def case_prod_unfold)

text \<open>What a library promises for all its entry points.\<close>

definition tx_ok :: "'v mem \<Rightarrow> SignedTxResponse \<times> 'v mem \<Rightarrow> bool" where
  "tx_ok m r \<longleftrightarrow> fresh_buffers [sr_txInfo (fst r), sr_txHash (fst r), sr_messageToSign (fst r), sr_err (fst r)] m (snd r)"

definition native_ok :: "'v native \<Rightarrow> bool" where
  "native_ok N \<longleftrightarrow>
     (\<forall>m. fresh_buffers [ak_privateKey (fst (GenerateAPIKey N m)), ak_publicKey (fst (GenerateAPIKey N m)),
        ak_err (fst (GenerateAPIKey N m))] m (snd (GenerateAPIKey N m))) \<and>
     (\<forall>u k c i a m. fresh_buffers [fst (CreateClient N u k c i a m)] m (snd (CreateClient N u k c i a m))) \<and>
     (\<forall>i a m. fresh_buffers [fst (CheckClient N i a m)] m (snd (CheckClient N i a m))) \<and>
     (\<forall>x m. tx_ok m (SignCreateOrder N x m)) \<and>
     (\<forall>a b c d e f m. tx_ok m (SignCancelOrder N a b c d e f m)) \<and>
     (\<forall>a b c d e f m. tx_ok m (SignCancelAllOrders N a b c d e f m)) \<and>
     (\<forall>d i a m. fresh_buffers [soe_str (fst (CreateAuthToken N d i a m)), soe_err (fst (CreateAuthToken N d i a m))]
        m (snd (CreateAuthToken N d i a m)))"

definition restored :: "'v mem \<Rightarrow> 'v mem \<Rightarrow> bool" where
  "restored m m' \<longleftrightarrow> heap m' = heap m \<and> faulted m' = faulted m"

lemma takeSigned_restored: "tx_ok m r \<Longrightarrow> restored m (snd (takeSigned (fst r) what (snd r)))"
  unfolding tx_ok_def restored_def takeSigned_mem by (rule fresh_take_all)

datatype signer_call =
    Call_create int int int "32 word" bool LighterOrderType LighterTimeInForce bool int "32 word" int
  | Call_cancel int int int
  | Call_cancel_all int int int
  | Call_token int
  | Call_check
  | Call_generate
  | Call_construct string string int int

definition signer_run :: "'v native \<Rightarrow> signer \<Rightarrow> signer_call \<Rightarrow> 'v mem \<Rightarrow> 'v mem" where
  "signer_run N g c m = (case c of
     Call_create mi ci ba pr ask ot tif ro n tp ex \<Rightarrow> snd (signCreateOrder N g mi ci ba pr ask ot tif ro n tp ex m)
   | Call_cancel mi oi n \<Rightarrow> snd (signCancelOrder N g mi oi n m)
   | Call_cancel_all tif t n \<Rightarrow> snd (signCancelAllOrders N g tif t n m)
   | Call_token d \<Rightarrow> snd (createAuthToken N g d m)
   | Call_check \<Rightarrow> snd (checkClient N g m)
   | Call_generate \<Rightarrow> snd (generateApiKey N m)
   | Call_construct url key i a \<Rightarrow> snd (LighterSigner N url key i a m))"

lemma signer_run_restored:
  assumes "native_ok N"
  shows "restored m (signer_run N g c m)"
proof (cases c)
  case (Call_create mi ci ba pr ask ot tif ro n tp ex)
  have "tx_ok m (SignCreateOrder N x m)" for x using assms by (simp add: native_ok_def)
  then have "restored m (snd (takeSigned (fst (SignCreateOrder N x m)) what (snd (SignCreateOrder N x m))))" for x what
    by (rule takeSigned_restored)
  then show ?thesis unfolding Call_create signer_run_def signCreateOrder_def by (simp add: Let_def case_prod_unfold)
next
  case (Call_cancel mi oi n)
  have "tx_ok m (SignCancelOrder N a b c d e f m)" for a b c d e f using assms by (simp add: native_ok_def)
  then have "restored m (snd (takeSigned (fst (SignCancelOrder N a b c d e f m)) what (snd (SignCancelOrder N a b c d e f m))))" for a b c d e f what
    by (rule takeSigned_restored)
  then show ?thesis unfolding Call_cancel signer_run_def signCancelOrder_def by (simp add: Let_def case_prod_unfold)
next
  case (Call_cancel_all tif t n)
  have "tx_ok m (SignCancelAllOrders N a b c d e f m)" for a b c d e f using assms by (simp add: native_ok_def)
  then have "restored m (snd (takeSigned (fst (SignCancelAllOrders N a b c d e f m)) what (snd (SignCancelAllOrders N a b c d e f m))))" for a b c d e f what
    by (rule takeSigned_restored)
  then show ?thesis unfolding Call_cancel_all signer_run_def signCancelAllOrders_def by (simp add: Let_def case_prod_unfold)
next
  case (Call_token d)
  let ?r = "CreateAuthToken N d (sg_apiKeyIndex g) (sg_accountIndex g) m"
  have "fresh_buffers [soe_str (fst ?r), soe_err (fst ?r)] m (snd ?r)" using assms by (simp add: native_ok_def)
  from fresh_take_all[OF this] Call_token show ?thesis
    by (simp add: restored_def signer_run_def createAuthToken_def Let_def case_prod_unfold)
next
  case Call_check
  let ?r = "CheckClient N (sg_apiKeyIndex g) (sg_accountIndex g) m"
  have "fresh_buffers [fst ?r] m (snd ?r)" using assms by (simp add: native_ok_def)
  from fresh_take_all[OF this] Call_check show ?thesis
    by (simp add: restored_def signer_run_def checkClient_def Let_def case_prod_unfold)
next
  case Call_generate
  let ?r = "GenerateAPIKey N m"
  have "fresh_buffers [ak_privateKey (fst ?r), ak_publicKey (fst ?r), ak_err (fst ?r)] m (snd ?r)"
    using assms by (simp add: native_ok_def)
  from fresh_take_all[OF this] Call_generate show ?thesis
    by (simp add: restored_def signer_run_def generateApiKey_def Let_def case_prod_unfold)
next
  case (Call_construct url key i a)
  let ?r = "CreateClient N url (trim_key key) (chainIdForUrl url) i a m"
  have "fresh_buffers [fst ?r] m (snd ?r)" using assms by (simp add: native_ok_def)
  from fresh_take_all[OF this] Call_construct show ?thesis
    by (simp add: restored_def signer_run_def LighterSigner_def Let_def case_prod_unfold)
qed

text \<open>Property C38: whatever calls are made on the signer, each buffer the native library hands out is
  read and freed exactly once, also on the error paths: after the calls the heap is what it was before,
  so nothing leaked, and no freed or foreign address was read or freed.\<close>

theorem signer_calls_leak_nothing:
  assumes "native_ok N"
  shows "heap (fold (signer_run N g) cs m) = heap m \<and> faulted (fold (signer_run N g) cs m) = faulted m"
proof (induction cs arbitrary: m)
  case (Cons c cs)
  then show ?case using signer_run_restored[OF assms, of m g c] by (simp add: restored_def)
qed simp

text \<open>A library that allocates: every transaction carries its JSON and a hash, a cancel of order 13 an
  error string.  It gives null pointers when its next address is taken.\<close>

definition alloc :: "string \<Rightarrow> nat mem \<Rightarrow> cptr \<times> nat mem" where
  "alloc s m = (if heap m (rest_of_world m) = None
     then (Some (rest_of_world m), m\<lparr>heap := (heap m)(rest_of_world m \<mapsto> s), rest_of_world := rest_of_world m + 1\<rparr>)
     else (None, m))"

definition demo_tx :: "int \<Rightarrow> bool \<Rightarrow> nat mem \<Rightarrow> SignedTxResponse \<times> nat mem" where
  "demo_tx ty bad m =
     (let (p, m1) = alloc ''{}'' m; (q, m2) = (if bad then alloc ''bad order'' m1 else (None, m1))
      in (\<lparr>sr_txType = ty, sr_txInfo = p, sr_txHash = None, sr_messageToSign = None, sr_err = q\<rparr>, m2))"

definition demo_native :: "nat native" where
  "demo_native = \<lparr>
     GenerateAPIKey = (\<lambda>m. (\<lparr>ak_privateKey = None, ak_publicKey = None, ak_err = None\<rparr>, m)),
     CreateClient = (\<lambda>u k c i a m. (None, m)), CheckClient = (\<lambda>i a m. (None, m)),
     SignCreateOrder = (\<lambda>x m. demo_tx 14 False m),
     SignCancelOrder = (\<lambda>mi oi sk n i a m. demo_tx 15 (oi = 13) m),
     SignCancelAllOrders = (\<lambda>tif t sk n i a m. demo_tx 16 False m),
     CreateAuthToken = (\<lambda>d i a m. case alloc ''token'' m of (p, m1) \<Rightarrow> (\<lparr>soe_str = p, soe_err = None\<rparr>, m1))\<rparr>"

lemma demo_tx_ok: "tx_ok m (demo_tx ty bad m)"
  by (auto simp: tx_ok_def demo_tx_def alloc_def fresh_buffers_def Let_def)

lemma demo_native_ok: "native_ok demo_native"
  unfolding native_ok_def
proof (intro conjI allI)
  show "fresh_buffers [soe_str (fst (CreateAuthToken demo_native d i a m)), soe_err (fst (CreateAuthToken demo_native d i a m))]
        m (snd (CreateAuthToken demo_native d i a m))" for d i a m
    by (auto simp: demo_native_def alloc_def fresh_buffers_def Let_def)
qed (auto simp: demo_native_def demo_tx_ok fresh_buffers_def)

definition demo_signer :: signer where
  "demo_signer = \<lparr>sg_apiKeyIndex = 1, sg_accountIndex = 42, sg_chainId = 304\<rparr>"

theorem signer_calls_leak_nothing_witness:
  "heap (fold (signer_run demo_native demo_signer) [Call_cancel 1 13 7, Call_token 0] \<lparr>heap = Map.empty, faulted = False, rest_of_world = 0\<rparr>)
     = Map.empty \<and>
   fst (signCancelOrder demo_native demo_signer 1 13 7 \<lparr>heap = Map.empty, faulted = False, rest_of_world = 0\<rparr>)
     = Inl (Runtime_error ''Lighter SignCancelOrder: bad order'')"
proof -
  have "fst (signCancelOrder demo_native demo_signer 1 13 7 \<lparr>heap = Map.empty, faulted = False, rest_of_world = 0\<rparr>)
     = Inl (Runtime_error ''Lighter SignCancelOrder: bad order'')" by code_simp
  with signer_calls_leak_nothing[OF demo_native_ok, of demo_signer "[Call_cancel 1 13 7, Call_token 0]"
      "\<lparr>heap = Map.empty, faulted = False, rest_of_world = 0\<rparr>"] show ?thesis by simp
qed

section \<open>Arguments\<close>

lemma asSignedBits_to_int32: "asSignedBits v = to_int32 (uint v)"
  using int_word_sint[of "uint v", where 'a = 32] by (simp add: asSignedBits_def to_int32_def)

text \<open>The price and the trigger price of an order reach the native signer with their
  bit pattern intact: reading the C \<open>int\<close> as 32 unsigned bits gives the value back, for every value;
  values below \<open>2 ^ 31\<close> are passed unchanged, larger ones as negative numbers.\<close>

theorem price_bits_preserved:
  "word_of_int (asSignedBits v) = v \<and> int32_range (asSignedBits v) \<and>
   asSignedBits v = (if uint v < 2 ^ 31 then uint v else uint v - 2 ^ 32)"
proof -
  have u: "0 \<le> uint v" "uint v < 2 ^ 32" using uint_lt2p[of v] by simp_all
  have "to_int32 (uint v) = (if uint v < 2 ^ 31 then uint v else uint v - 2 ^ 32)"
  proof (cases "uint v < 2 ^ 31")
    case False
    have "(uint v + 2 ^ 31) mod 2 ^ 32 = (uint v + 2 ^ 31 - 2 ^ 32 + 2 ^ 32) mod 2 ^ 32" by (simp add: add.commute)
    also have "\<dots> = (uint v + 2 ^ 31 - 2 ^ 32) mod 2 ^ 32" by (rule mod_add_self2)
    also have "\<dots> = uint v + 2 ^ 31 - 2 ^ 32" using u False by (intro mod_pos_pos_trivial) simp_all
    finally show ?thesis using False by (simp add: to_int32_def)
  qed (use u in \<open>simp add: to_int32_def\<close>)
  then show ?thesis using to_int32_range[of "uint v"] asSignedBits_to_int32[of v]
    by (simp add: asSignedBits_def)
qed

end
