(* ===== verification/Gateway_Classify.thy ===== *)
theory Gateway_Classify
  imports Std_Strings Json_Model
begin

text \<open>
  The anonymous namespace of \<open>src/lighter_execution_gateway.cpp\<close>: scaling factors, tolerant reads,
  and the classification of order statuses and venue rejects.  The enumerations \<open>OrderState\<close>,
  \<open>OrderSide\<close> and \<open>RejectKind\<close> are declared in the \<open>i_execution_gateway.h\<close> of a submodule; the
  datatypes have the constructors the source names.
\<close>

datatype OrderSide = Buy | Sell
datatype OrderState = Accepted | Filled | Cancelled | Rejected
datatype RejectKind = Hard | BenignPostOnlyCross | Throttled | Permanent | MinNotional

text \<open>The loop of \<open>pow10i\<close>: the product of \<open>n\<close> tens, 1 when \<open>n\<close> is not positive.\<close>

fun pow10_loop :: "nat \<Rightarrow> double \<Rightarrow> double" where
  "pow10_loop 0 r = r"
| "pow10_loop (Suc n) r = pow10_loop n (r * fl 10)"

definition pow10i :: "int \<Rightarrow> double" where
  "pow10i n = pow10_loop (nat n) (fl 1)"

definition toLower :: "string \<Rightarrow> string" where
  "toLower s = map tolower s"

definition readStr :: "json \<Rightarrow> string \<Rightarrow> double" where
  "readStr j k = (case jfind k j of
     Some (JString s) \<Rightarrow> (case stod s of Some x \<Rightarrow> x | None \<Rightarrow> 0)
   | Some (JInt i) \<Rightarrow> of_integer i
   | Some (JFloat x) \<Rightarrow> x
   | _ \<Rightarrow> 0)"

definition readInt :: "json \<Rightarrow> string \<Rightarrow> int \<Rightarrow> int" where
  "readInt j k fallback = (case jfind k j of
     Some (JInt i) \<Rightarrow> to_int64 i
   | Some (JString s) \<Rightarrow> (case stoll s of Some n \<Rightarrow> n | None \<Rightarrow> fallback)
   | _ \<Rightarrow> fallback)"

definition classifyStatus :: "string \<Rightarrow> OrderState \<times> RejectKind" where
  "classifyStatus status =
     (if status = ''open'' \<or> status = ''pending'' \<or> status = ''in-progress'' then (Accepted, Hard)
      else if status = ''filled'' then (Filled, Hard)
      else if status = ''canceled'' then (Cancelled, Hard)
      else if status = ''canceled-post-only'' then (Rejected, BenignPostOnlyCross)
      else if status = ''canceled-not-enough-liquidity'' \<or> status = ''canceled-too-much-slippage''
        then (Rejected, Hard)
      else if status = ''canceled-reduce-only'' \<or> status = ''canceled-position-not-allowed'' \<or>
              status = ''canceled-margin-not-allowed'' \<or> status = ''canceled-invalid-balance''
        then (Rejected, Permanent)
      else if starts_with status ''canceled'' then (Cancelled, Hard)
      else (Accepted, Hard))"

definition terminal :: "OrderState \<Rightarrow> bool" where
  "terminal s \<longleftrightarrow> s = Filled \<or> s = Cancelled \<or> s = Rejected"

definition classifyReject :: "string \<Rightarrow> RejectKind" where
  "classifyReject reason = (let r = toLower reason in
     if contains r ''post'' \<and> contains r ''only'' then BenignPostOnlyCross
     else if contains r ''23000'' \<or> contains r ''volume quota'' then Throttled
     else if contains r ''21706'' then Permanent
     else if contains r ''21740'' then Permanent
     else if contains r ''nonce'' then Hard
     else if contains r ''margin'' \<or> contains r ''balance'' \<or> contains r ''insufficient'' then Hard
     else if contains r ''min'' \<and> (contains r ''base'' \<or> contains r ''size'' \<or> contains r ''amount'') then MinNotional
     else Hard)"

definition isOrderGoneReason :: "string \<Rightarrow> bool" where
  "isOrderGoneReason reason = (let r = toLower reason in
     contains r ''not found'' \<or> contains r ''not exist'' \<or> contains r ''already'' \<or> contains r ''inactive'')"

text \<open>\<open>parseVenueReject\<close>: the venue's code and message from the body embedded in an exception's
  text.  \<open>parse\<close> is the JSON library's parser.\<close>

definition parseVenueReject :: "(string \<Rightarrow> exn + json) \<Rightarrow> string \<Rightarrow> (int \<times> string) option" where
  "parseVenueReject parse text' = (case find_sub ''msg: '' text' of
     None \<Rightarrow> None
   | Some marker \<Rightarrow> (case parse (drop (marker + 5) text') of
         Inl _ \<Rightarrow> None
       | Inr j \<Rightarrow> (case jfind ''code'' j of
             Some (JInt c) \<Rightarrow> (if to_int32 c = 200 then None else Some (to_int32 c, jstring_or_empty ''message'' j))
           | _ \<Rightarrow> None)))"

section \<open>Facts\<close>

lemma classifyStatus_terminal:
  "terminal (fst (classifyStatus s)) \<longleftrightarrow> s = ''filled'' \<or> starts_with s ''canceled''"
  by (auto simp: classifyStatus_def terminal_def starts_with_def)

lemma fl_pow10: "n \<le> 22 \<Longrightarrow> fl (10 ^ n) = Fin (10 ^ n)"
proof -
  assume n: "n \<le> 22"
  have ten: "(10::rat) ^ n = 5 ^ n * 2 ^ n" by (simp flip: power_mult_distrib)
  have five: "(5::rat) ^ n < 2 ^ 53"
    using power_increasing[OF n, of "5::rat"] by simp
  have "ulp_exp (10 ^ n) \<le> int n"
  proof (rule ulp_exp_le)
    have "(10::rat) ^ n < 2 ^ 53 * 2 ^ n" unfolding ten using five by (rule mult_strict_right_mono) simp
    then show "\<bar>10 ^ n :: rat\<bar> < 2 powi (53 + int n)" by (simp add: power_int_add)
  qed simp_all
  then have "rnd (10 ^ n) = 10 ^ n"
    by (intro rnd_exact[of _ "5 ^ n" "int n"]) (simp_all add: ten)
  moreover have "(10::rat) ^ n < 2 ^ 1024"
    using power_increasing[OF n, of "10::rat"] by simp
  ultimately show ?thesis by (intro fl_exact) simp_all
qed

lemma pow10_loop_exact: "k + n \<le> 22 \<Longrightarrow> pow10_loop n (Fin (10 ^ k)) = Fin (10 ^ (k + n))"
proof (induction n arbitrary: k)
  case (Suc n)
  have "Fin (10 ^ k) * fl 10 = Fin (10 ^ Suc k)"
    using fl_pow10[of "Suc k"] fl_numeral[of "num.Bit0 (num.Bit1 (num.Bit0 num.One))"] Suc.prems
    by (simp add: mult.commute)
  then show ?case using Suc.IH[of "Suc k"] Suc.prems by simp
qed simp

lemma pow10i_exact: "0 \<le> n \<Longrightarrow> n \<le> 22 \<Longrightarrow> pow10i n = Fin (10 ^ nat n)"
  using pow10_loop_exact[of 0 "nat n"] by (simp add: pow10i_def)

end
