(* ===== verification/Gateway.thy ===== *)
theory Gateway
  imports Gateway_Classify Rest_Client Signer Ws_Stream
begin

text \<open>
  \<open>src/lighter_execution_gateway.cpp\<close>: the execution gateway over the signer, the REST client and the
  stream manager.

  The record \<open>gateway\<close> is \<open>LighterExecutionGateway::P\<close>; its REST client, stream manager and signer are the
  models of those components, and the signer's memory is the world of the REST client.  \<open>genv\<close> holds
  what comes from outside: the environment of the REST client, the native library, the system clock,
  \<open>Quote::sane()\<close> (declared in a submodule), the platform's \<open>llround\<close> outside its range, and
  the text \<open>fmt\<close> gives a \<open>double\<close>.

  A lock guards each of the maps, so the code of an order operation runs in sections between which the
  io thread may deliver events.  Each section is a definition of its own (\<open>reserve\<close>, \<open>sign_and_send\<close>,
  \<open>account_section\<close>, \<open>eraseOrderRec\<close>); the public operations are their sequential composition.  Log
  lines are left out, except that building one may throw (\<open>json.dump()\<close>).  The application's callbacks are
  the outputs \<open>gout\<close>.
\<close>

section \<open>State\<close>

record Quote =
  bid :: double
  ask :: double
  receivedAt :: int

record InstrumentSpec =
  is_symbol :: string
  tickSize :: double
  qtyStep :: double
  minQty :: double
  maxQty :: double
  minNotional :: double

record FillEvent =
  fe_clientOrderId :: string
  fe_symbol :: string
  fe_fillId :: string
  fe_qty :: double
  fe_price :: double
  fe_isMaker :: bool

record OrderUpdate =
  ou_clientOrderId :: string
  ou_symbol :: string
  ou_state :: OrderState
  ou_price :: double
  ou_cumFilledQty :: double
  ou_rejectKind :: RejectKind
  ou_reason :: string

record OrderRec =
  or_clientOrderId :: string
  or_symbol :: string
  or_marketId :: int
  or_orderIndex :: int
  cumFilledBase :: double
  submittedQty :: double

datatype gexn = Gateway_error RejectKind string | Std exn

datatype gout =
    Fill FillEvent
  | Update OrderUpdate
  | Quote_event string Quote
  | Stream out

record 'v genv =
  renv :: "'v mem env"
  nlib :: "'v native"
  system_seconds :: "'v mem \<Rightarrow> int \<times> 'v mem"
  system_ms :: "'v mem \<Rightarrow> int \<times> 'v mem"
  sane :: "Quote \<Rightarrow> bool"
  llround_out :: "double \<Rightarrow> int"
  fmt_double :: "double \<Rightarrow> string"

record 'v gateway =
  g_rest :: "'v mem rest"
  g_signer :: signer
  g_stream :: manager
  accountIndex :: int
  apiKeyIndex :: int
  orderUpdateCB :: bool
  fillCB :: bool
  quoteCB :: bool
  marketIds :: "string \<rightharpoonup> int"          \<comment> \<open>\<open>symbolToMarketId\<close>\<close>
  marketIdToSymbol :: "int \<rightharpoonup> string"
  specCache :: "string \<rightharpoonup> InstrumentSpec"
  sizeDecimals :: "string \<rightharpoonup> int"
  priceDecimals :: "string \<rightharpoonup> int"
  quoteCache :: "string \<rightharpoonup> Quote"
  ordersByIndex :: "int \<rightharpoonup> OrderRec"
  clientIdToIndex :: "string \<rightharpoonup> int"
  clientOrderCounter :: int
  accountFeedLive :: bool
  nextNonce :: int
  authTokenDeadline :: int
  emptyWarns :: int                    \<comment> \<open>the function's static counter\<close>

text \<open>An operation of the REST client, and one on the world.\<close>

definition on_rest :: "('v mem rest \<Rightarrow> 'a \<times> 'v mem rest) \<Rightarrow> 'v gateway \<Rightarrow> 'a \<times> 'v gateway" where
  "on_rest f g = (let (r, s) = f (g_rest g) in (r, g\<lparr>g_rest := s\<rparr>))"

definition on_mem :: "('v mem \<Rightarrow> 'a \<times> 'v mem) \<Rightarrow> 'v gateway \<Rightarrow> 'a \<times> 'v gateway" where
  "on_mem f g = (let (r, w) = f (world (g_rest g)) in (r, g\<lparr>g_rest := (g_rest g)\<lparr>world := w\<rparr>\<rparr>))"

definition em_dash :: string where
  "em_dash = map char_of [226, 128, 148 :: int]"

section \<open>Token, nonce, instruments\<close>

definition refreshAuthTokenIfNeeded :: "'v genv \<Rightarrow> 'v gateway \<Rightarrow> 'v gateway" where
  "refreshAuthTokenIfNeeded E g =
     (let (now, g1) = on_mem (system_seconds E) g in
      if now < authTokenDeadline g1 - 3600 then g1
      else (let deadline = now + 8 * 3600;
                (r, g2) = on_mem (createAuthToken (nlib E) (g_signer g1) deadline) g1
            in case r of
                 Inl e \<Rightarrow> g2
               | Inr token \<Rightarrow> g2\<lparr>g_rest := setAuthToken token (g_rest g2), authTokenDeadline := deadline\<rparr>))"

definition resyncNonce :: "'v genv \<Rightarrow> 'v gateway \<Rightarrow> 'v gateway" where
  "resyncNonce E g =
     (let (r, g1) = on_rest (getNextNonce (renv E) (to_int32 (accountIndex g)) (apiKeyIndex g)) g
      in case r of Inl e \<Rightarrow> g1 | Inr n \<Rightarrow> g1\<lparr>nextNonce := n\<rparr>)"

definition spec_of :: "PerpAsset \<Rightarrow> InstrumentSpec" where
  "spec_of a = \<lparr>is_symbol = pa_symbol a, tickSize = 1 / pow10i (pa_priceDecimals a),
     qtyStep = 1 / pow10i (pa_sizeDecimals a), minQty = minBaseAmount a, maxQty = 0,
     minNotional = minQuoteAmount a\<rparr>"

definition load_asset :: "PerpAsset \<Rightarrow> 'v gateway \<Rightarrow> 'v gateway" where
  "load_asset a g = g\<lparr>marketIds := (marketIds g)(pa_symbol a \<mapsto> pa_marketId a),
     marketIdToSymbol := (marketIdToSymbol g)(pa_marketId a \<mapsto> pa_symbol a),
     sizeDecimals := (sizeDecimals g)(pa_symbol a \<mapsto> pa_sizeDecimals a),
     priceDecimals := (priceDecimals g)(pa_symbol a \<mapsto> pa_priceDecimals a),
     specCache := (specCache g)(pa_symbol a \<mapsto> spec_of a)\<rparr>"

definition loadInstruments :: "'v genv \<Rightarrow> 'v gateway \<Rightarrow> (gexn + unit) \<times> 'v gateway" where
  "loadInstruments E g =
     (let (r, g1) = on_rest (getPerpetualAssets (renv E) False) (refreshAuthTokenIfNeeded E g)
      in case r of
           Inl e \<Rightarrow> (Inl (Std e), g1)
         | Inr as \<Rightarrow> (Inr (), fold load_asset as g1))"

definition marketIdFor :: "string \<Rightarrow> 'v gateway \<Rightarrow> int" where
  "marketIdFor symb g = (case marketIds g symb of Some i \<Rightarrow> i | None \<Rightarrow> - 1)"

definition symbolFor :: "int \<Rightarrow> 'v gateway \<Rightarrow> string" where
  "symbolFor i g = (case marketIdToSymbol g i of Some s \<Rightarrow> s | None \<Rightarrow> [])"

definition eraseOrderRec :: "int \<Rightarrow> string \<Rightarrow> 'v gateway \<Rightarrow> 'v gateway" where
  "eraseOrderRec idx cid g = g\<lparr>ordersByIndex := (ordersByIndex g)(idx := None),
     clientIdToIndex := (clientIdToIndex g)(cid := None)\<rparr>"

section \<open>Sending a signed transaction\<close>

definition sendSigned :: "'v genv \<Rightarrow> SignedTx \<Rightarrow> string \<Rightarrow> 'v gateway \<Rightarrow> (gexn + unit) \<times> 'v gateway" where
  "sendSigned E tx what g =
     (let (r, g1) = on_rest (sendTx (renv E) (tx_type tx) (tx_info tx)) (refreshAuthTokenIfNeeded E g) in
      case r of
        Inl e \<Rightarrow>
          (let g2 = resyncNonce E g1 in
           case parseVenueReject (json_parse (renv E)) (exn_what e) of
             Some (code, message) \<Rightarrow>
               (Inl (Gateway_error (classifyReject (fmt_int code @ '' '' @ message))
                  (what @ '': code '' @ fmt_int code @ '' '' @ message)), g2)
           | None \<Rightarrow> (Inl (Std e), g2))
      | Inr result \<Rightarrow>
          if st_code result \<noteq> 200 then
            (Inl (Gateway_error (classifyReject (st_message result))
               (what @ '': code '' @ fmt_int (st_code result) @ '' '' @ st_message result)), resyncNonce E g1)
          else (Inr (), g1\<lparr>nextNonce := nextNonce g1 + 1\<rparr>))"

section \<open>Account events\<close>

definition cumFilledKey :: "'v genv \<Rightarrow> json \<Rightarrow> exn + string" where
  "cumFilledKey E order = (case jfind ''filled_base_amount'' order of
     Some (JString s) \<Rightarrow> Inr s
   | Some v \<Rightarrow> json_dump (renv E) v
   | None \<Rightarrow> Inr ''0'')"

text \<open>The section under \<open>orderM\<close>: \<open>None\<close> when the event is skipped (unknown index, or another venue
  index for the same order), else the record afterwards and the new fill.\<close>

definition account_section :: "int \<Rightarrow> json \<Rightarrow> 'v gateway \<Rightarrow> (OrderRec \<times> double \<times> 'v gateway) option" where
  "account_section idx order g = (case ordersByIndex g idx of
     None \<Rightarrow> None
   | Some rec \<Rightarrow>
       (let oi = readInt order ''order_index'' (- 1) in
        if oi \<ge> 0 \<and> \<not> or_orderIndex rec < 0 \<and> or_orderIndex rec \<noteq> oi then None
        else
          (let rec1 = (if oi \<ge> 0 \<and> or_orderIndex rec < 0 then rec\<lparr>or_orderIndex := oi\<rparr> else rec);
               cum0 = readStr order ''filled_base_amount'';
               cumFilled = (if submittedQty rec1 > 0 \<and> cum0 > submittedQty rec1 * fl (1001 / 1000)
                            then submittedQty rec1 else cum0);
               newFill = (if cumFilled > cumFilledBase rec1 then cumFilled - cumFilledBase rec1 else 0);
               rec2 = (if cumFilled > cumFilledBase rec1 then rec1\<lparr>cumFilledBase := cumFilled\<rparr> else rec1)
           in Some (rec2, newFill, g\<lparr>ordersByIndex := (ordersByIndex g)(idx \<mapsto> rec2)\<rparr>))))"

definition event_price :: "'v genv \<Rightarrow> json \<Rightarrow> string \<Rightarrow> 'v gateway \<Rightarrow> double" where
  "event_price E order symb g =
     (let price = readStr order ''price'' in
      if price \<le> 0 then (case quoteCache g symb of
          Some q \<Rightarrow> if sane E q then (bid q + ask q) / fl 2 else price
        | None \<Rightarrow> price)
      else price)"

definition fill_outputs ::
  "'v genv \<Rightarrow> int \<Rightarrow> json \<Rightarrow> OrderRec \<Rightarrow> double \<Rightarrow> double \<Rightarrow> 'v gateway \<Rightarrow> exn + gout list" where
  "fill_outputs E idx order rec newFill price g =
     (if fillCB g \<and> newFill > 0 then
        and_then (cumFilledKey E order) (\<lambda>key. Inr [Fill \<lparr>fe_clientOrderId = or_clientOrderId rec,
          fe_symbol = or_symbol rec, fe_fillId = fmt_int idx @ ''-'' @ key, fe_qty = newFill,
          fe_price = price, fe_isMaker = True\<rparr>])
      else Inr [])"

definition update_outputs :: "json \<Rightarrow> OrderRec \<Rightarrow> string \<Rightarrow> double \<Rightarrow> 'v gateway \<Rightarrow> gout list" where
  "update_outputs order rec status price g =
     (if orderUpdateCB g then [Update \<lparr>ou_clientOrderId = or_clientOrderId rec, ou_symbol = or_symbol rec,
        ou_state = fst (classifyStatus status), ou_price = price,
        ou_cumFilledQty = readStr order ''filled_base_amount'',
        ou_rejectKind = snd (classifyStatus status), ou_reason = status\<rparr>] else [])"

text \<open>One order of the message.\<close>

definition account_order :: "'v genv \<Rightarrow> json \<Rightarrow> 'v gateway \<Rightarrow> (gexn + unit) \<times> 'v gateway \<times> gout list" where
  "account_order E order g =
     (let idx = readInt order ''client_order_index'' (- 1) in
      if idx < 0 then
        (case json_dump (renv E) order of Inl e \<Rightarrow> (Inl (Std e), g, []) | Inr _ \<Rightarrow> (Inr (), g, []))
      else (case account_section idx order g of
          None \<Rightarrow> (Inr (), g, [])
        | Some (rec, newFill, g1) \<Rightarrow>
            (let status = jstring_or_empty ''status'' order;
                 price = event_price E order (or_symbol rec) g1
             in case fill_outputs E idx order rec newFill price g1 of
                  Inl e \<Rightarrow> (Inl (Std e), g1, [])
                | Inr fills \<Rightarrow>
                    (Inr (),
                     if terminal (fst (classifyStatus status)) then eraseOrderRec idx (or_clientOrderId rec) g1 else g1,
                     fills @ update_outputs order rec status price g1))))"

fun account_orders :: "'v genv \<Rightarrow> json list \<Rightarrow> 'v gateway \<Rightarrow> (gexn + unit) \<times> 'v gateway \<times> gout list" where
  "account_orders E [] g = (Inr (), g, [])"
| "account_orders E (x # xs) g =
     (let (r, g1, os) = account_order E x g in
      case r of
        Inl e \<Rightarrow> (Inl e, g1, os)
      | Inr _ \<Rightarrow> (let (r2, g2, ps) = account_orders E xs g1 in (r2, g2, os @ ps)))"

definition message_orders :: "json \<Rightarrow> json list" where
  "message_orders msg = (case jfind ''orders'' msg of
     Some (JArray xs) \<Rightarrow> xs
   | Some (JObject kvs) \<Rightarrow> concat (map (\<lambda>(k, v). case v of
        JArray xs \<Rightarrow> xs | JObject _ \<Rightarrow> [v] | _ \<Rightarrow> []) kvs)
   | _ \<Rightarrow> [])"

definition onAccountMessage :: "'v genv \<Rightarrow> json \<Rightarrow> 'v gateway \<Rightarrow> (gexn + unit) \<times> 'v gateway \<times> gout list" where
  "onAccountMessage E msg g =
     (let type = jstring_or_empty ''type'' msg in
      if \<not> (starts_with type ''subscribed/account_all_orders'' \<or> starts_with type ''update/account_all_orders'')
      then (Inr (), g, [])
      else (let g1 = g\<lparr>accountFeedLive := True\<rparr>; orders = message_orders msg in
        if orders = [] then
          (if jfind ''orders'' msg = None then
             (let g2 = g1\<lparr>emptyWarns := emptyWarns g1 + 1\<rparr> in
              if emptyWarns g1 < 3 then
                (case json_dump (renv E) msg of Inl e \<Rightarrow> (Inl (Std e), g2, []) | Inr _ \<Rightarrow> (Inr (), g2, []))
              else (Inr (), g2, []))
           else (Inr (), g1, []))
        else account_orders E orders g1))"

end
