(* ===== verification/Gateway_Orders.thy ===== *)
theory Gateway_Orders
  imports Gateway
begin

text \<open>
  The public operations of the execution gateway: construction and start, quotes, and the three order
  operations with their sections.
\<close>

section \<open>Construction and start\<close>

definition LighterExecutionGateway ::
  "'v genv \<Rightarrow> string \<Rightarrow> string \<Rightarrow> int \<Rightarrow> int \<Rightarrow> 'v mem \<Rightarrow> (gexn + 'v gateway) \<times> 'v mem" where
  "LighterExecutionGateway E url apiPrivateKey apiKey acct w =
     (case LighterSigner (nlib E) url apiPrivateKey apiKey acct w of
        (Inl e, w1) \<Rightarrow> (Inl (Std e), w1)
      | (Inr sg, w1) \<Rightarrow>
          (let (ms, w2) = system_ms E w1; (now, w3) = system_seconds E w2; deadline = now + 8 * 3600 in
           case createAuthToken (nlib E) sg deadline w3 of
             (Inl e, w4) \<Rightarrow> (Inl (Std e), w4)
           | (Inr token, w4) \<Rightarrow>
               if token = [] then
                 (Inl (Std (Runtime_error (''Lighter gateway: auth token mint failed '' @ em_dash @ '' check the API key''))), w4)
               else
                 (Inr \<lparr>g_rest = RESTClient_auth token 100 w4, g_signer = sg, g_stream = manager_init,
                    accountIndex = acct, apiKeyIndex = apiKey, orderUpdateCB = False, fillCB = False,
                    quoteCB = False, marketIds = Map.empty, marketIdToSymbol = Map.empty,
                    specCache = Map.empty, sizeDecimals = Map.empty, priceDecimals = Map.empty,
                    quoteCache = Map.empty, ordersByIndex = Map.empty, clientIdToIndex = Map.empty,
                    clientOrderCounter = ms, accountFeedLive = False, nextNonce = 0,
                    authTokenDeadline = deadline, emptyWarns = 0\<rparr>, w4)))"

definition setOrderUpdateCallback :: "'v gateway \<Rightarrow> 'v gateway" where
  "setOrderUpdateCallback g = g\<lparr>orderUpdateCB := True\<rparr>"

definition setFillCallback :: "'v gateway \<Rightarrow> 'v gateway" where
  "setFillCallback g = g\<lparr>fillCB := True\<rparr>"

definition setQuoteCallback :: "'v gateway \<Rightarrow> 'v gateway" where
  "setQuoteCallback g = g\<lparr>quoteCB := True\<rparr>"

text \<open>An operation of the stream manager.\<close>

definition on_stream :: "(manager \<Rightarrow> manager \<times> out list) \<Rightarrow> 'v gateway \<Rightarrow> 'v gateway \<times> gout list" where
  "on_stream f g = (let (m, os) = f (g_stream g) in (g\<lparr>g_stream := m\<rparr>, map Stream os))"

text \<open>The lambda \<open>start\<close> installs for order book updates.\<close>

definition onBook :: "'v genv \<Rightarrow> int \<Rightarrow> double \<Rightarrow> double \<Rightarrow> 'v gateway \<Rightarrow> 'v gateway \<times> gout list" where
  "onBook E marketId bestBid bestAsk g =
     (let symb = symbolFor marketId g in
      if symb = [] then (g, [])
      else (let (t, g1) = on_mem (steady_now (renv E)) g;
                q = \<lparr>bid = bestBid, ask = bestAsk, receivedAt = t\<rparr>
            in (g1\<lparr>quoteCache := (quoteCache g1)(symb \<mapsto> q)\<rparr>,
                if quoteCB g1 then [Quote_event symb q] else [])))"

text \<open>The lambda \<open>start\<close> installs as token provider; it never throws.\<close>

definition tokenForSubscribe :: "'v genv \<Rightarrow> 'v gateway \<Rightarrow> string \<times> 'v gateway" where
  "tokenForSubscribe E g =
     (let (now, g1) = on_mem (system_seconds E) g;
          (r, g2) = on_mem (createAuthToken (nlib E) (g_signer g1) (now + 8 * 3600)) g1
      in (case r of Inl e \<Rightarrow> [] | Inr t \<Rightarrow> t, g2))"

text \<open>\<open>start()\<close> up to its wait loop.\<close>

definition start_setup :: "'v genv \<Rightarrow> 'v gateway \<Rightarrow> (gexn + unit) \<times> 'v gateway \<times> gout list" where
  "start_setup E g =
     (case loadInstruments E g of
        (Inl e, g1) \<Rightarrow> (Inl e, g1, [])
      | (Inr _, g1) \<Rightarrow>
          (case on_rest (getNextNonce (renv E) (to_int32 (accountIndex g1)) (apiKeyIndex g1)) g1 of
             (Inl e, g2) \<Rightarrow> (Inl (Std e), g2, [])
           | (Inr n, g2) \<Rightarrow>
               (let g3 = g2\<lparr>nextNonce := n, g_stream := Ws_Stream.setOrderBookCallback (g_stream g2)\<rparr>;
                    (err, g4) = on_mem (checkClient (nlib E) (g_signer g3)) g3;
                    g5 = g4\<lparr>g_stream := setAccountCallback (g_stream g4)\<rparr>;
                    (g6, os) = on_stream (subscribeAccountOrders (to_int32 (accountIndex g5))) g5;
                    (g7, ps) = on_stream start_stream g6
                in (Inr (), g7, os @ ps))))"

text \<open>The wait loop: \<open>live i\<close> is what the \<open>i\<close>-th test of \<open>accountFeedLive\<close> reads; it tests once more
  after the loop.  The result is the number of 100 ms sleeps and whether the feed is live.\<close>

fun wait_feed :: "(nat \<Rightarrow> bool) \<Rightarrow> nat \<Rightarrow> nat \<Rightarrow> nat" where
  "wait_feed live i 0 = i"
| "wait_feed live i (Suc n) = (if live i then i else wait_feed live (Suc i) n)"

definition start_wait :: "(nat \<Rightarrow> bool) \<Rightarrow> bool \<Rightarrow> (gexn + unit) \<times> nat" where
  "start_wait live final =
     (let i = wait_feed live 0 100 in
      (if \<not> final then Inl (Std (Runtime_error
          ''Lighter gateway: account_all_orders subscription not acknowledged within 10 s'')) else Inr (), i))"

section \<open>Instruments and quotes\<close>

definition unknown_instrument :: "string \<Rightarrow> string" where
  "unknown_instrument symb = ''Lighter: unknown instrument '' @ symb"

definition instrumentSpec :: "'v genv \<Rightarrow> string \<Rightarrow> 'v gateway \<Rightarrow> (gexn + InstrumentSpec) \<times> 'v gateway" where
  "instrumentSpec E symb g = (case specCache g symb of
     Some s \<Rightarrow> (Inr s, g)
   | None \<Rightarrow> seq (loadInstruments E) (\<lambda>_ g1. (case specCache g1 symb of
        Some s \<Rightarrow> Inr s
      | None \<Rightarrow> Inl (Std (Runtime_error (unknown_instrument symb))), g1)) g)"

definition refreshInstruments :: "'v genv \<Rightarrow> 'v gateway \<Rightarrow> (gexn + unit) \<times> 'v gateway" where
  "refreshInstruments E g = loadInstruments E g"

definition subscribeQuotes :: "string \<Rightarrow> 'v gateway \<Rightarrow> (gexn + unit) \<times> 'v gateway \<times> gout list" where
  "subscribeQuotes symb g =
     (if marketIdFor symb g < 0 then (Inl (Std (Runtime_error (unknown_instrument symb))), g, [])
      else (let (g1, os) = on_stream (subscribeOrderBook (marketIdFor symb g)) g in (Inr (), g1, os)))"

definition unsubscribeQuotes :: "string \<Rightarrow> 'v gateway \<Rightarrow> 'v gateway \<times> gout list" where
  "unsubscribeQuotes symb g =
     (if marketIdFor symb g \<ge> 0 then on_stream (unsubscribeOrderBook (marketIdFor symb g)) g else (g, []))"

definition lastQuote :: "string \<Rightarrow> 'v gateway \<Rightarrow> Quote option" where
  "lastQuote symb g = quoteCache g symb"

section \<open>Order amounts\<close>

text \<open>\<open>sizeDecimals[symbol]\<close> and \<open>priceDecimals[symbol]\<close> insert 0 for an absent symbol.\<close>

definition market_of :: "string \<Rightarrow> 'v gateway \<Rightarrow> (gexn + int \<times> int \<times> int) \<times> 'v gateway" where
  "market_of symb g = (case marketIds g symb of
     None \<Rightarrow> (Inl (Gateway_error Permanent (unknown_instrument symb)), g)
   | Some i \<Rightarrow>
       (let sd = (case sizeDecimals g symb of Some d \<Rightarrow> d | None \<Rightarrow> 0);
            pd = (case priceDecimals g symb of Some d \<Rightarrow> d | None \<Rightarrow> 0)
        in (Inr (i, sd, pd), g\<lparr>sizeDecimals := (sizeDecimals g)(symb \<mapsto> sd),
              priceDecimals := (priceDecimals g)(symb \<mapsto> pd)\<rparr>)))"

definition UINT32_MAX :: int where "UINT32_MAX = 2 ^ 32 - 1"

definition base_amount :: "'v genv \<Rightarrow> double \<Rightarrow> int \<Rightarrow> gexn + int" where
  "base_amount E qty sizeDec =
     (let b = llround (llround_out E) (qty * pow10i sizeDec) in
      if b \<le> 0 then Inl (Gateway_error MinNotional (''Lighter: qty '' @ fmt_double E qty @ '' rounds to 0 base units''))
      else Inr b)"

definition limit_price :: "'v genv \<Rightarrow> double \<Rightarrow> int \<Rightarrow> gexn + 32 word" where
  "limit_price E price priceDec =
     (let p = llround (llround_out E) (price * pow10i priceDec) in
      if p \<le> 0 \<or> p > UINT32_MAX then Inl (Gateway_error Hard (''Lighter: price '' @ fmt_double E price @
        '' scales to '' @ fmt_int p @ '' '' @ em_dash @ '' outside the venue'' @ [char_of (39 :: int)] @ ''s uint32 domain''))
      else Inr (word_of_int p))"

definition market_bound :: "'v genv \<Rightarrow> string \<Rightarrow> OrderSide \<Rightarrow> 'v gateway \<Rightarrow> gexn + double" where
  "market_bound E symb side g =
     (let err = Gateway_error Hard (''Lighter: no sane quote for '' @ symb @ '' '' @ em_dash @ '' cannot bound the market close'') in
      case quoteCache g symb of
        None \<Rightarrow> Inl err
      | Some q \<Rightarrow> if \<not> sane E q then Inl err
          else Inr (case side of Buy \<Rightarrow> ask q * fl (105 / 100) | Sell \<Rightarrow> bid q * fl (95 / 100)))"

definition bound_price :: "'v genv \<Rightarrow> double \<Rightarrow> int \<Rightarrow> 32 word" where
  "bound_price E bound priceDec =
     word_of_int (max 1 (min UINT32_MAX (llround (llround_out E) (bound * pow10i priceDec))))"

section \<open>Order operations\<close>

text \<open>\<open>clientOrderCounter.fetch_add(1)\<close> and the section that enters the record.\<close>

definition reserve :: "string \<Rightarrow> string \<Rightarrow> int \<Rightarrow> double \<Rightarrow> 'v gateway \<Rightarrow> int \<times> 'v gateway" where
  "reserve cid symb marketId qty g =
     (let idx = clientOrderCounter g in
      (idx, g\<lparr>clientOrderCounter := idx + 1,
         ordersByIndex := (ordersByIndex g)(idx \<mapsto> \<lparr>or_clientOrderId = cid, or_symbol = symb,
           or_marketId = marketId, or_orderIndex = - 1, cumFilledBase = 0, submittedQty = qty\<rparr>),
         clientIdToIndex := (clientIdToIndex g)(cid \<mapsto> idx)\<rparr>))"

definition sign_failed :: "exn \<Rightarrow> gexn" where
  "sign_failed e = Gateway_error Hard (''Lighter sign failed: '' @ exn_what e)"

text \<open>The section under \<open>txM\<close> of the two submits: sign with the current nonce, send, and drop the record
  on a definitive failure.\<close>

definition sign_and_send ::
  "'v genv \<Rightarrow> (int \<Rightarrow> 'v mem \<Rightarrow> (exn + SignedTx) \<times> 'v mem) \<Rightarrow> int \<Rightarrow> string \<Rightarrow> string \<Rightarrow>
     'v gateway \<Rightarrow> (gexn + unit) \<times> 'v gateway" where
  "sign_and_send E sign idx cid what g =
     (let (r, g1) = on_mem (sign (nextNonce g)) g in
      case r of
        Inl e \<Rightarrow> (Inl (sign_failed e), eraseOrderRec idx cid g1)
      | Inr tx \<Rightarrow> (case sendSigned E tx what g1 of
           (Inl (Gateway_error k w), g2) \<Rightarrow> (Inl (Gateway_error k w), eraseOrderRec idx cid g2)
         | (Inl (Std e), g2) \<Rightarrow> (Inl (Std e), g2)
         | (Inr _, g2) \<Rightarrow> (Inr (), g2)))"

definition sign_limit ::
  "'v genv \<Rightarrow> signer \<Rightarrow> int \<Rightarrow> int \<Rightarrow> int \<Rightarrow> 32 word \<Rightarrow> OrderSide \<Rightarrow> bool \<Rightarrow> int \<Rightarrow> 'v mem \<Rightarrow> (exn + SignedTx) \<times> 'v mem" where
  "sign_limit E sg marketId idx base price side reduceOnly nonce =
     signCreateOrder (nlib E) sg marketId idx base price (side = Sell) OT_Limit TIF_PostOnly reduceOnly nonce
       LIGHTER_NIL_TRIGGER_PRICE LIGHTER_DEFAULT_28_DAY_EXPIRY"

definition submitPostOnlyLimit ::
  "'v genv \<Rightarrow> string \<Rightarrow> string \<Rightarrow> OrderSide \<Rightarrow> double \<Rightarrow> double \<Rightarrow> bool \<Rightarrow> 'v gateway \<Rightarrow> (gexn + unit) \<times> 'v gateway" where
  "submitPostOnlyLimit E cid symb side qty price reduceOnly =
     seq (market_of symb) (\<lambda>(marketId, sizeDec, priceDec).
     seq (pure (base_amount E qty sizeDec)) (\<lambda>base.
     seq (pure (limit_price E price priceDec)) (\<lambda>px g.
       (let (idx, g1) = reserve cid symb marketId qty g
        in sign_and_send E (sign_limit E (g_signer g1) marketId idx base px side reduceOnly) idx cid
             ''submitPostOnlyLimit'' g1))))"

definition sign_market ::
  "'v genv \<Rightarrow> signer \<Rightarrow> int \<Rightarrow> int \<Rightarrow> int \<Rightarrow> 32 word \<Rightarrow> OrderSide \<Rightarrow> int \<Rightarrow> 'v mem \<Rightarrow> (exn + SignedTx) \<times> 'v mem" where
  "sign_market E sg marketId idx base price side nonce =
     signCreateOrder (nlib E) sg marketId idx base price (side = Sell) OT_Market TIF_ImmediateOrCancel True nonce
       LIGHTER_NIL_TRIGGER_PRICE LIGHTER_DEFAULT_IOC_EXPIRY"

definition submitReduceOnlyMarket ::
  "'v genv \<Rightarrow> string \<Rightarrow> string \<Rightarrow> OrderSide \<Rightarrow> double \<Rightarrow> 'v gateway \<Rightarrow> (gexn + unit) \<times> 'v gateway" where
  "submitReduceOnlyMarket E cid symb side qty =
     seq (market_of symb) (\<lambda>(marketId, sizeDec, priceDec).
     seq (pure (base_amount E qty sizeDec)) (\<lambda>base.
     seq (\<lambda>g. (market_bound E symb side g, g)) (\<lambda>bound g.
       (let (idx, g1) = reserve cid symb marketId qty g
        in sign_and_send E (sign_market E (g_signer g1) marketId idx base (bound_price E bound priceDec) side) idx cid
             ''submitReduceOnlyMarket'' g1))))"

definition supportsAmend :: bool where
  "supportsAmend = False"

definition amendPrice :: "string \<Rightarrow> string \<Rightarrow> double \<Rightarrow> gexn + unit" where
  "amendPrice cid symb price = Inl (Gateway_error Hard ''Lighter: amend not supported (cancel + resubmit)'')"

text \<open>The section under \<open>orderM\<close> of \<open>cancel\<close>: nothing to cancel, the market and venue index, or
  not yet acknowledged.\<close>

definition cancel_section :: "string \<Rightarrow> 'v gateway \<Rightarrow> gexn + (int \<times> int) option" where
  "cancel_section cid g = (case clientIdToIndex g cid of
     None \<Rightarrow> Inr None
   | Some idx \<Rightarrow> (case ordersByIndex g idx of
       None \<Rightarrow> Inr None
     | Some rec \<Rightarrow> if or_orderIndex rec < 0
         then Inl (Gateway_error Hard (''Lighter: order '' @ cid @ '' not yet acknowledged '' @ em_dash @ '' cancel retried next tick''))
         else Inr (Some (or_marketId rec, or_orderIndex rec))))"

definition cancel_order :: "'v genv \<Rightarrow> string \<Rightarrow> string \<Rightarrow> 'v gateway \<Rightarrow> (gexn + bool) \<times> 'v gateway" where
  "cancel_order E cid symb g = (case cancel_section cid g of
     Inl e \<Rightarrow> (Inl e, g)
   | Inr None \<Rightarrow> (Inr False, g)
   | Inr (Some (marketId, orderIndex)) \<Rightarrow>
       (let (r, g1) = on_mem (signCancelOrder (nlib E) (g_signer g) marketId orderIndex (nextNonce g)) g in
        case r of
          Inl e \<Rightarrow> (Inl (sign_failed e), g1)
        | Inr tx \<Rightarrow> (case sendSigned E tx ''cancel'' g1 of
             (Inr _, g2) \<Rightarrow> (Inr True, g2)
           | (Inl (Gateway_error k w), g2) \<Rightarrow>
               (if isOrderGoneReason w then Inr False else Inl (Gateway_error k w), g2)
           | (Inl (Std e), g2) \<Rightarrow>
               (Inl (Gateway_error Hard (''Lighter cancel transport failure: '' @ exn_what e)), g2))))"

end
