(* ===== verification/Gateway_Amounts.thy ===== *)
theory Gateway_Amounts
  imports Gateway_Orders
begin

text \<open>
  The integers an order carries: scaling a decimal quantity or price is exact for every value the
  venue can express, never wraps in the signer's 32-bit field, and the bound of a market order is on
  the right side of the quote.
\<close>

lemma numeral_Fin: "fl (105 / 100) = Fin (rnd (105 / 100))" "fl (95 / 100) = Fin (rnd (95 / 100))"
proof -
  have "\<bar>rnd (105 / 100)\<bar> < 2 ^ 1024" "\<bar>rnd (95 / 100)\<bar> < 2 ^ 1024"
  proof -
    have "rnd (105 / 100) \<le> rnd (of_int 2)" "rnd (95 / 100) \<le> rnd (of_int 2)" by (intro rnd_mono; simp)+
    then have "rnd (105 / 100) \<le> 2" "rnd (95 / 100) \<le> 2" by (simp_all del: of_int_numeral)
    moreover have "0 \<le> rnd (105 / 100)" "0 \<le> rnd (95 / 100)" by (simp_all add: rnd_nonneg)
    ultimately show "\<bar>rnd (105 / 100)\<bar> < 2 ^ 1024" "\<bar>rnd (95 / 100)\<bar> < 2 ^ 1024" by simp_all
  qed
  then show "fl (105 / 100) = Fin (rnd (105 / 100))" "fl (95 / 100) = Fin (rnd (95 / 100))"
    by (simp_all add: fl_def)
qed

text \<open>Scaling the double nearest to \<open>n / 10 ^ d\<close> by \<open>10 ^ d\<close> and rounding gives \<open>n\<close> back.\<close>

lemma llround_scaled:
  assumes "0 < n" "n < 2 ^ 51" "0 \<le> d" "d \<le> 22"
  shows "llround out (fl (of_int n / 10 ^ nat d) * pow10i d) = n"
proof -
  let ?p = "10 ^ nat d :: rat" and ?q = "rnd (of_int n / 10 ^ nat d)"
  have p: "1 \<le> ?p" "?p \<le> 10 ^ 22"
    using assms(3,4) power_increasing[of "nat d" 22 "10::rat"] by auto
  have n: "of_int n < (2 ^ 51 :: rat)" "0 < (of_int n :: rat)"
    using assms(1,2) of_int_less_iff[of n "2 ^ 51", where 'a = rat] by auto
  have "of_int n / ?p \<le> of_int n" using p(1) n(2) by (simp add: divide_le_eq_1 field_simps)
  then have "?q \<le> rnd (of_int n)" by (rule rnd_mono)
  also have "rnd (of_int n) = of_int n" using assms(1,2) by (intro rnd_int) simp
  finally have q: "0 \<le> ?q" "?q < 2 ^ 51" using n p(1) by (auto intro!: rnd_nonneg)
  then have fin: "fl (of_int n / ?p) = Fin ?q" by (simp add: fl_def)
  have near: "\<bar>rnd (?q * ?p) - of_int n\<bar> < 1 / 2"
    using rn.scale_roundtrip[OF assms(1,2) p] .
  then have "rnd (?q * ?p) < 2 ^ 52" "- 1 < rnd (?q * ?p)" using n unfolding abs_less_iff by simp_all
  then have "\<bar>rnd (?q * ?p)\<bar> < 2 ^ 1024" unfolding abs_less_iff by simp
  then have "fl (?q * ?p) = Fin (rnd (?q * ?p))" by (simp add: fl_def)
  then have "fl (of_int n / ?p) * pow10i d = Fin (rnd (?q * ?p))"
    using pow10i_exact[OF assms(3,4)] fin by simp
  moreover have "round_away (rnd (?q * ?p)) = n" using near by (rule round_away_near)
  moreover have "int64_range n" using assms(1,2) by (simp add: int64_range_def)
  ultimately show ?thesis using llround_Fin[of "rnd (?q * ?p)" out] by simp
qed

text \<open>Property C29: a price that is the double nearest to \<open>n\<close> ticks of a market with \<open>d\<close> price decimals
  (at most 22), \<open>n\<close> in the signer's 32-bit domain, is sent as exactly \<open>n\<close>, and a quantity of \<open>k\<close> steps,
  below \<open>2 ^ 51\<close>, as exactly \<open>k\<close>.\<close>

theorem decimal_scaling_exact:
  assumes "0 < n" "n < 2 ^ 32" "0 \<le> d" "d \<le> 22" "0 < k" "k < 2 ^ 51" "0 \<le> c" "c \<le> 22"
  shows "limit_price E (fl (of_int n / 10 ^ nat d)) d = Inr (word_of_int n) \<and>
    uint (word_of_int n :: 32 word) = n \<and>
    base_amount E (fl (of_int k / 10 ^ nat c)) c = Inr k"
proof -
  have "llround out (fl (of_int n / 10 ^ nat d) * pow10i d) = n" for out
    using assms by (intro llround_scaled) auto
  moreover have "llround out (fl (of_int k / 10 ^ nat c) * pow10i c) = k" for out
    using assms by (intro llround_scaled) auto
  moreover have "uint (word_of_int n :: 32 word) = n"
    using assms by (simp add: uint_word_of_int)
  ultimately show ?thesis using assms
    by (simp add: limit_price_def base_amount_def UINT32_MAX_def Let_def)
qed

text \<open>An environment for examples.\<close>

definition null_native :: "int native" where
  "null_native = \<lparr>
     GenerateAPIKey = (\<lambda>m. (\<lparr>ak_privateKey = None, ak_publicKey = None, ak_err = None\<rparr>, m)),
     CreateClient = (\<lambda>u k c i a m. (None, m)), CheckClient = (\<lambda>i a m. (None, m)),
     SignCreateOrder = (\<lambda>x m. (\<lparr>sr_txType = 14, sr_txInfo = None, sr_txHash = None, sr_messageToSign = None, sr_err = None\<rparr>, m)),
     SignCancelOrder = (\<lambda>mi oi sk n i a m. (\<lparr>sr_txType = 15, sr_txInfo = None, sr_txHash = None, sr_messageToSign = None, sr_err = None\<rparr>, m)),
     SignCancelAllOrders = (\<lambda>tif t sk n i a m. (\<lparr>sr_txType = 16, sr_txInfo = None, sr_txHash = None, sr_messageToSign = None, sr_err = None\<rparr>, m)),
     CreateAuthToken = (\<lambda>d i a m. (\<lparr>soe_str = None, soe_err = None\<rparr>, m))\<rparr>"

text \<open>The world is the venue's next nonce: a POST takes it, a GET reads it.\<close>

definition nonce_parse :: "string \<Rightarrow> exn + json" where
  "nonce_parse body = (case stoll body of
     Some n \<Rightarrow> Inr (JObject [(''code'', JInt 200), (''nonce'', JInt n)])
   | None \<Rightarrow> Inl (Json_exception ''parse_error.101''))"

definition demo_renv :: "int mem env" where
  "demo_renv = \<lparr>net = direct_net (\<lambda>r m. case rq_verb r of
        GET \<Rightarrow> (Inr \<lparr>rs_status = 200, rs_body = fmt_int (rest_of_world m)\<rparr>, m)
      | POST \<Rightarrow> (Inr \<lparr>rs_status = 200, rs_body = fmt_int (rest_of_world m)\<rparr>, m\<lparr>rest_of_world := rest_of_world m + 1\<rparr>)) (\<lambda>q. []),
     steady_now = (\<lambda>w. (0, w)), sleep_for = (\<lambda>d w. w), json_parse = nonce_parse,
     json_dump = (\<lambda>j. Inr []), utils = plain_utils\<rparr>"

definition demo_genv :: "int genv" where
  "demo_genv = \<lparr>renv = demo_renv, nlib = null_native, system_seconds = (\<lambda>m. (1000000, m)),
     system_ms = (\<lambda>m. (1000000000, m)), sane = (\<lambda>q. 0 < bid q \<and> bid q \<le> ask q), llround_out = (\<lambda>x. 0),
     fmt_double = (\<lambda>x. [])\<rparr>"

theorem decimal_scaling_exact_witness:
  "limit_price demo_genv (fl (of_int 6543210 / 10 ^ nat 2)) 2 = Inr (word_of_int 6543210) \<and>
   base_amount demo_genv (fl (of_int 5 / 10 ^ nat 4)) 4 = Inr 5"
  using decimal_scaling_exact[of 6543210 2 5 4 demo_genv] by simp

text \<open>Property C28: whatever the caller passes (NaN and infinities included) and whatever the platform's
  \<open>llround\<close> does out of range, an order only carries a price in the signer's domain \<open>1 .. 2 ^ 32 - 1\<close> that is
  the rounded scaled price itself, never that number wrapped, and a positive base amount; a market order's
  bound is clamped into the same domain.\<close>

theorem order_amounts_never_wrap:
  "(case limit_price E price d of
      Inr p \<Rightarrow> 1 \<le> uint p \<and> uint p = llround (llround_out E) (price * pow10i d)
    | Inl e \<Rightarrow> llround (llround_out E) (price * pow10i d) \<le> 0 \<or> 2 ^ 32 \<le> llround (llround_out E) (price * pow10i d)) \<and>
   (case base_amount E qty c of
      Inr b \<Rightarrow> 1 \<le> b \<and> b = llround (llround_out E) (qty * pow10i c)
    | Inl e \<Rightarrow> llround (llround_out E) (qty * pow10i c) \<le> 0) \<and>
   1 \<le> uint (bound_price E x d) \<and>
   uint (bound_price E x d) = max 1 (min (2 ^ 32 - 1) (llround (llround_out E) (x * pow10i d)))"
  by (auto simp: limit_price_def base_amount_def bound_price_def UINT32_MAX_def Let_def uint_word_of_int)

text \<open>Scaling a bound: four roundings, each within \<open>2 ^ - 53\<close> of its argument.\<close>

lemma rnd_interval:
  assumes "1 / 10 ^ 30 \<le> x"
  shows "x * (1 - 1 / 2 ^ 53) \<le> rnd x" "rnd x \<le> x * (1 + 1 / 2 ^ 53)"
proof -
  have "(2::rat) powi (- 1022) \<le> 1 / 10 ^ 30" by (simp add: power_int_minus)
  then have "\<bar>rnd x - x\<bar> \<le> x / 2 ^ 53" using assms rnd_rel_error[of x] by (simp add: abs_if split: if_splits)
  then show "x * (1 - 1 / 2 ^ 53) \<le> rnd x" "rnd x \<le> x * (1 + 1 / 2 ^ 53)"
    by (simp_all add: algebra_simps abs_if split: if_splits)
qed

lemma rnd_interval_trans:
  assumes "1 / 10 ^ 30 \<le> a * z" "a * z \<le> x" "x \<le> b * z"
  shows "a * (1 - 1 / 2 ^ 53) * z \<le> rnd x" "rnd x \<le> b * (1 + 1 / 2 ^ 53) * z"
proof -
  have x: "1 / 10 ^ 30 \<le> x" using assms(1,2) by linarith
  have "a * z * (1 - 1 / 2 ^ 53) \<le> x * (1 - 1 / 2 ^ 53)" using assms(2) by (intro mult_right_mono) auto
  with rnd_interval(1)[OF x] show "a * (1 - 1 / 2 ^ 53) * z \<le> rnd x" by (simp only: ac_simps)
  have "x * (1 + 1 / 2 ^ 53) \<le> b * z * (1 + 1 / 2 ^ 53)" using assms(3) by (intro mult_right_mono) auto
  with rnd_interval(2)[OF x] show "rnd x \<le> b * (1 + 1 / 2 ^ 53) * z" by (simp only: ac_simps)
qed

lemma scaled_bound:
  fixes k p :: rat
  assumes "0 < n" "1 \<le> p" "p \<le> 10 ^ 22" "9 / 10 \<le> k" "k \<le> 11 / 10"
  defines "y \<equiv> rnd (rnd (rnd (of_int n / p) * rnd k) * p)"
  shows "of_int n * k * (1 - 1 / 2 ^ 50) \<le> y" "y \<le> of_int n * k * (1 + 1 / 2 ^ 50)"
proof -
  define N where "N = (of_int n :: rat)"
  define l u :: rat where "l = 1 - 1 / 2 ^ 53" and "u = 1 + 1 / 2 ^ 53"
  define a b c where "a = rnd (N / p)" and "b = rnd k" and "c = rnd (a * b)"
  have N: "1 \<le> N" using assms(1) of_int_le_iff[of 1 n, where 'a = rat] by (simp add: N_def)
  have np: "1 / 10 ^ 22 \<le> N / p" using N assms(2,3) by (intro frac_le) auto
  have kn: "1 / 10 ^ 23 \<le> k * (N / p)" using mult_mono[OF assms(4) np] assms(4) by simp
  have a: "l * (N / p) \<le> a" "a \<le> u * (N / p)"
    using rnd_interval[OF order_trans[OF _ np]] by (simp_all add: a_def l_def u_def ac_simps)
  have b: "l * k \<le> b" "b \<le> u * k"
    using rnd_interval[of k] assms(4) by (simp_all add: b_def l_def u_def ac_simps)
  have lu: "0 \<le> l" "0 \<le> u" by (simp_all add: l_def u_def)
  have nz: "0 \<le> N / p" "0 \<le> k" using N assms by auto
  have pos: "0 \<le> a" "0 \<le> b" using nz by (auto simp: a_def b_def intro!: rnd_nonneg)
  have ab: "l ^ 2 * (k * (N / p)) \<le> a * b" "a * b \<le> u ^ 2 * (k * (N / p))"
  proof -
    have "(l * (N / p)) * (l * k) \<le> a * b" using a b lu nz pos by (intro mult_mono) auto
    then show "l ^ 2 * (k * (N / p)) \<le> a * b" by (simp only: power2_eq_square ac_simps)
    have "a * b \<le> (u * (N / p)) * (u * k)"
      using a b lu nz pos by (intro mult_mono) auto
    then show "a * b \<le> u ^ 2 * (k * (N / p))" by (simp only: power2_eq_square ac_simps)
  qed
  have low: "1 / 10 ^ 30 \<le> m * (k * (N / p))" if "1 / 2 \<le> m" for m :: rat
    by (rule order_trans[OF _ mult_mono[OF that kn]]) (use that in auto)
  have l2: "1 / 2 \<le> l ^ 2" by (simp add: l_def power2_eq_square)
  note c = rnd_interval_trans[OF low[OF l2] ab, folded l_def u_def c_def]
  have cp: "l ^ 2 * l * (k * N) \<le> c * p" "c * p \<le> u ^ 2 * u * (k * N)"
    using mult_right_mono[OF c(1), of p] mult_right_mono[OF c(2), of p] assms(2) by simp_all
  have "1 / 10 ^ 30 \<le> l ^ 2 * l * (k * N)"
  proof -
    have "1 / 2 * (9 / 10 * 1) \<le> l ^ 2 * l * (k * N)"
      using N assms(4) by (intro mult_mono) (simp_all add: l_def power2_eq_square)
    then show ?thesis by simp
  qed
  note rnd_interval_trans[OF this cp, folded l_def u_def]
  then have y: "l ^ 2 * l * l * (k * N) \<le> y" "y \<le> u ^ 2 * u * u * (k * N)"
    by (simp_all add: y_def c_def a_def b_def N_def)
  have "1 - 1 / 2 ^ 50 \<le> l ^ 2 * l * l" "u ^ 2 * u * u \<le> 1 + 1 / 2 ^ 50"
    by (simp_all add: l_def u_def power2_eq_square)
  then have "(1 - 1 / 2 ^ 50) * (k * N) \<le> l ^ 2 * l * l * (k * N)" "u ^ 2 * u * u * (k * N) \<le> (1 + 1 / 2 ^ 50) * (k * N)"
    using mult_nonneg_nonneg[OF nz(2), of N] N by (intro mult_right_mono; simp)+
  with y have "(1 - 1 / 2 ^ 50) * (k * N) \<le> y" "y \<le> (1 + 1 / 2 ^ 50) * (k * N)" by linarith+
  then show "of_int n * k * (1 - 1 / 2 ^ 50) \<le> y" "y \<le> of_int n * k * (1 + 1 / 2 ^ 50)"
    unfolding N_def by (simp_all only: ac_simps)
qed

text \<open>The scaled bound of a market order as the code computes it.\<close>

lemma bound_rounded:
  fixes k :: rat
  assumes "0 < n" "n < 2 ^ 31" "0 \<le> d" "d \<le> 22" "9 / 10 \<le> k" "k \<le> 11 / 10" "fl k = Fin (rnd k)"
  defines "y \<equiv> rnd (rnd (rnd (of_int n / 10 ^ nat d) * rnd k) * 10 ^ nat d)"
  shows "uint (bound_price E (fl (of_int n / 10 ^ nat d) * fl k) d) = max 1 (round_away y)"
proof -
  let ?p = "10 ^ nat d :: rat"
  have p: "1 \<le> ?p" "?p \<le> 10 ^ 22" using assms(3,4) power_increasing[of "nat d" 22 "10::rat"] by auto
  have n: "of_int n < (2 ^ 31 :: rat)" "1 \<le> (of_int n :: rat)"
    using assms(1,2) of_int_less_iff[of n "2 ^ 31", where 'a = rat] of_int_le_iff[of 1 n, where 'a = rat] by auto
  note sb = scaled_bound[OF assms(1) p assms(5,6)]
  have nk: "of_int n * k \<le> 2 ^ 31 * (11 / 10)" "9 / 10 \<le> of_int n * k"
    using n assms(5,6) mult_mono[of "of_int n" "2 ^ 31" k "11 / 10 :: rat"] mult_mono[of 1 "of_int n" "9 / 10" k]
    by simp_all
  have y: "0 \<le> y" "y < 2 ^ 32 - 2" using sb nk unfolding y_def by (simp_all add: algebra_simps)
  let ?a = "rnd (of_int n / ?p)" and ?c = "rnd (rnd (of_int n / ?p) * rnd k)"
  have a: "0 \<le> ?a" using n p by (intro rnd_nonneg) auto
  have "of_int n / ?p \<le> of_int (2 ^ 31)"
    using n p mult_mono[of 1 ?p "of_int n" "2 ^ 31 :: rat"] by (simp add: divide_le_eq)
  then have "?a \<le> rnd (of_int (2 ^ 31))" by (rule rnd_mono)
  then have a2: "?a \<le> 2 ^ 31" using rnd_int[of "2 ^ 31"] by simp
  have k: "0 \<le> rnd k" using assms(5) by (intro rnd_nonneg) auto
  have k2: "rnd k \<le> 2" using rnd_mono[of k "of_int 2"] rnd_int[of 2] assms(6) by simp
  have "?a * rnd k \<le> of_int (2 ^ 32)" using mult_mono[OF a2 k2] a k by simp
  then have c2: "?c \<le> 2 ^ 32" using rnd_mono[of "?a * rnd k" "of_int (2 ^ 32)"] rnd_int[of "2 ^ 32"] by simp
  have c: "0 \<le> ?c" using a k by (intro rnd_nonneg) auto
  have "fl (of_int n / ?p) = Fin ?a" "fl (?a * rnd k) = Fin ?c" "fl (?c * ?p) = Fin y"
    using a a2 c c2 y by (simp_all add: fl_def y_def)
  then have "fl (of_int n / ?p) * fl k * pow10i d = Fin y"
    using pow10i_exact[OF assms(3,4)] assms(7) by simp
  moreover have r: "0 \<le> round_away y" "round_away y < 2 ^ 32"
    using round_away_mono[OF y(1)] round_away_mono[of y "of_int (2 ^ 32 - 2)"] y(2) round_away_int[of 0]
      round_away_int[of "2 ^ 32 - 2"] by simp_all
  ultimately show ?thesis
    using llround_Fin[of y "llround_out E"]
    by (simp add: bound_price_def UINT32_MAX_def int64_range_def uint_word_of_int max_def min_def)
qed

text \<open>Property C27: a reduce-only market order is bounded on the right side of the quote and within its 5 percent:
  with a sane quote of \<open>n\<close> ticks bid and \<open>m\<close> ticks ask, the bound of a buy is at least the ask and at most
  1.05 times the ask and one rounding above it, the bound of a sell at most the bid and at least 0.95 times it less one rounding (and never
  below the venue's minimum 1).\<close>

theorem market_order_bound:
  assumes "quoteCache g symb = Some q" "sane E q"
    and "bid q = fl (of_int n / 10 ^ nat d)" "ask q = fl (of_int m / 10 ^ nat d)"
    and "0 < n" "n < 2 ^ 31" "0 < m" "m < 2 ^ 31" "0 \<le> d" "d \<le> 22"
  shows "(case market_bound E symb Buy g of Inl e \<Rightarrow> False | Inr x \<Rightarrow>
           m \<le> uint (bound_price E x d) \<and> 100 * uint (bound_price E x d) \<le> 105 * m + 51) \<and>
    (case market_bound E symb Sell g of Inl e \<Rightarrow> False | Inr x \<Rightarrow>
           uint (bound_price E x d) \<le> n \<and> 95 * n \<le> 100 * uint (bound_price E x d) + 51)"
proof -
  have p: "1 \<le> (10 ^ nat d :: rat)" "(10 ^ nat d :: rat) \<le> 10 ^ 22"
    using assms(9,10) power_increasing[of "nat d" 22 "10::rat"] by auto
  have buy: "m \<le> uint (bound_price E (ask q * fl (105 / 100)) d) \<and>
     100 * uint (bound_price E (ask q * fl (105 / 100)) d) \<le> 105 * m + 51"
  proof -
    let ?y = "rnd (rnd (rnd (of_int m / 10 ^ nat d) * rnd (105 / 100)) * 10 ^ nat d)"
    have u: "uint (bound_price E (ask q * fl (105 / 100)) d) = max 1 (round_away ?y)"
      unfolding assms(4) using assms(7-10) numeral_Fin by (intro bound_rounded) simp_all
    have y: "of_int m * (105 / 100) * (1 - 1 / 2 ^ 50) \<le> ?y" "?y \<le> of_int m * (105 / 100) * (1 + 1 / 2 ^ 50)"
      using assms(7) p by (intro scaled_bound; simp)+
    have m: "1 \<le> (of_int m :: rat)" "of_int m < (2 ^ 31 :: rat)" using assms(7,8)
        of_int_less_iff[of m "2 ^ 31", where 'a = rat] of_int_le_iff[of 1 m, where 'a = rat] by auto
    have "of_int m \<le> ?y" using y m by simp
    then have "m \<le> round_away ?y" using round_away_mono[of "of_int m" ?y] by simp
    moreover have "of_int (round_away ?y) \<le> ?y + 1 / 2" using \<open>of_int m \<le> ?y\<close> m
      by (simp add: round_away_def)
    then have "of_int (100 * round_away ?y) < (of_int (105 * m + 52) :: rat)" using y m by simp
    then have "100 * round_away ?y < 105 * m + 52" by (simp only: of_int_less_iff)
    ultimately show ?thesis using u assms(7) by simp
  qed
  have sell: "uint (bound_price E (bid q * fl (95 / 100)) d) \<le> n \<and>
     95 * n \<le> 100 * uint (bound_price E (bid q * fl (95 / 100)) d) + 51"
  proof -
    let ?y = "rnd (rnd (rnd (of_int n / 10 ^ nat d) * rnd (95 / 100)) * 10 ^ nat d)"
    have u: "uint (bound_price E (bid q * fl (95 / 100)) d) = max 1 (round_away ?y)"
      unfolding assms(3) using assms(5,6,9,10) numeral_Fin by (intro bound_rounded) simp_all
    have y: "of_int n * (95 / 100) * (1 - 1 / 2 ^ 50) \<le> ?y" "?y \<le> of_int n * (95 / 100) * (1 + 1 / 2 ^ 50)"
      using assms(5) p by (intro scaled_bound; simp)+
    have n: "1 \<le> (of_int n :: rat)" "of_int n < (2 ^ 31 :: rat)" using assms(5,6)
        of_int_less_iff[of n "2 ^ 31", where 'a = rat] of_int_le_iff[of 1 n, where 'a = rat] by auto
    have "0 \<le> ?y" "?y \<le> of_int n" using y n by simp_all
    then have "round_away ?y \<le> n" using round_away_mono[of ?y "of_int n"] by simp
    moreover have "?y - 1 / 2 < of_int (round_away ?y)" using \<open>0 \<le> ?y\<close>
      by (simp add: round_away_def) linarith
    then have "(of_int (95 * n) :: rat) < of_int (100 * round_away ?y + 52)" using y n by simp
    then have "95 * n < 100 * round_away ?y + 52" by (simp only: of_int_less_iff)
    ultimately show ?thesis using u assms(5) by auto
  qed
  show ?thesis using assms(1,2) buy sell by (simp add: market_bound_def Let_def)
qed

text \<open>A gateway for examples: one market \<open>BTC\<close>, two decimals for prices and four for sizes, one quote.\<close>

definition demo_quote :: Quote where
  "demo_quote = \<lparr>bid = fl (of_int 6543200 / 10 ^ nat 2), ask = fl (of_int 6543210 / 10 ^ nat 2), receivedAt = 0\<rparr>"

definition demo_gateway :: "int gateway" where
  "demo_gateway = \<lparr>g_rest = RESTClient_auth ''token'' 100 \<lparr>heap = Map.empty, faulted = False, rest_of_world = 7\<rparr>,
     g_signer = \<lparr>sg_apiKeyIndex = 2, sg_accountIndex = 1, sg_chainId = 304\<rparr>, g_stream = manager_init,
     accountIndex = 1, apiKeyIndex = 2, orderUpdateCB = True, fillCB = True, quoteCB = True,
     marketIds = [''BTC'' \<mapsto> 1], marketIdToSymbol = [1 \<mapsto> ''BTC''], specCache = Map.empty,
     sizeDecimals = [''BTC'' \<mapsto> 4], priceDecimals = [''BTC'' \<mapsto> 2],
     quoteCache = [''BTC'' \<mapsto> demo_quote], ordersByIndex = Map.empty, clientIdToIndex = Map.empty,
     clientOrderCounter = 1000, accountFeedLive = True, nextNonce = 7, authTokenDeadline = 2000000,
     emptyWarns = 0\<rparr>"

lemma demo_sane: "sane demo_genv demo_quote"
proof -
  have "fl 1 \<le> fl (of_int 6543200 / 10 ^ nat 2)" by (rule fl_mono) simp
  moreover have "Fin 0 < Fin 1" by simp
  ultimately have "Fin 0 < fl (of_int 6543200 / 10 ^ nat 2)" by (simp only: fl_one) (rule double_less_le_trans)
  moreover have "fl (of_int 6543200 / 10 ^ nat 2) \<le> fl (of_int 6543210 / 10 ^ nat 2)" by (rule fl_mono) simp
  ultimately show ?thesis by (simp add: demo_genv_def demo_quote_def zero_double_def)
qed

theorem market_order_bound_witness:
  "case market_bound demo_genv ''BTC'' Buy demo_gateway of Inl e \<Rightarrow> False | Inr x \<Rightarrow>
     6543210 \<le> uint (bound_price demo_genv x 2) \<and> uint (bound_price demo_genv x 2) \<le> 6870371"
proof -
  have *: "100 * u \<le> 105 * 6543210 + 51 \<Longrightarrow> u \<le> 6870371" for u :: int by simp
  show ?thesis
    using market_order_bound[of demo_gateway "''BTC''" demo_quote demo_genv 6543200 2 6543210] demo_sane *
    by (simp add: demo_gateway_def demo_quote_def split: sum.splits)
qed

end
