(* ===== verification/Gateway_Tx.thy ===== *)
theory Gateway_Tx
  imports Gateway_Amounts
begin

text \<open>
  Submitting and cancelling: what each outcome means for the gateway's bookkeeping, how an HTTP error is
  told from a transport failure, and that the nonce counter follows the venue's.
\<close>

section \<open>Frames\<close>

text \<open>Nothing but \<open>reserve\<close>, \<open>eraseOrderRec\<close> and the account events touches the order maps.\<close>

definition same_orders :: "'v gateway \<Rightarrow> 'v gateway \<Rightarrow> bool" where
  "same_orders g g' \<longleftrightarrow> ordersByIndex g' = ordersByIndex g \<and> clientIdToIndex g' = clientIdToIndex g \<and>
     clientOrderCounter g' = clientOrderCounter g \<and> g_signer g' = g_signer g \<and>
     accountIndex g' = accountIndex g \<and> apiKeyIndex g' = apiKeyIndex g"

lemma same_orders_refl [simp, intro]: "same_orders g g"
  by (simp add: same_orders_def)

lemma same_orders_trans [trans]: "same_orders a b \<Longrightarrow> same_orders b c \<Longrightarrow> same_orders a c"
  by (simp add: same_orders_def)

lemma on_rest_frame: "same_orders g (snd (on_rest f g)) \<and> nextNonce (snd (on_rest f g)) = nextNonce g"
  by (simp add: same_orders_def on_rest_def Let_def case_prod_unfold)

lemma on_mem_frame: "same_orders g (snd (on_mem f g)) \<and> nextNonce (snd (on_mem f g)) = nextNonce g"
  by (simp add: same_orders_def on_mem_def Let_def case_prod_unfold)

lemma refresh_frame:
  "same_orders g (refreshAuthTokenIfNeeded E g) \<and> nextNonce (refreshAuthTokenIfNeeded E g) = nextNonce g"
  by (auto simp: same_orders_def refreshAuthTokenIfNeeded_def on_mem_def Let_def case_prod_unfold split: sum.splits)

lemma resync_frame: "same_orders g (resyncNonce E g)"
  by (auto simp: same_orders_def resyncNonce_def on_rest_def Let_def case_prod_unfold split: sum.splits)

lemma sendSigned_frame: "same_orders g (snd (sendSigned E tx what g))"
proof -
  let ?g1 = "snd (on_rest (sendTx (renv E) (tx_type tx) (tx_info tx)) (refreshAuthTokenIfNeeded E g))"
  have 1: "same_orders g ?g1" using refresh_frame on_rest_frame same_orders_trans by blast
  then have 2: "same_orders g (resyncNonce E ?g1)" using resync_frame same_orders_trans by blast
  have 3: "same_orders g (?g1\<lparr>nextNonce := n\<rparr>)" for n using 1 by (simp add: same_orders_def)
  show ?thesis using 1 2 3
    by (auto simp: sendSigned_def Let_def case_prod_unfold split: sum.splits option.splits)
qed

lemma sendSigned_nonce:
  assumes "sendSigned E tx what g = (Inr u, g')"
  shows "nextNonce g' = nextNonce g + 1"
  using assms refresh_frame[of g E] on_rest_frame[of "refreshAuthTokenIfNeeded E g" "sendTx (renv E) (tx_type tx) (tx_info tx)"]
  by (auto simp: sendSigned_def Let_def case_prod_unfold split: sum.splits option.splits if_splits)

section \<open>Submitting\<close>

text \<open>What a submit that got as far as a client order index leaves behind.\<close>

definition order_rec :: "string \<Rightarrow> string \<Rightarrow> int \<Rightarrow> double \<Rightarrow> OrderRec" where
  "order_rec cid symb marketId qty = \<lparr>or_clientOrderId = cid, or_symbol = symb, or_marketId = marketId,
     or_orderIndex = - 1, cumFilledBase = 0, submittedQty = qty\<rparr>"

definition tracked :: "string \<Rightarrow> string \<Rightarrow> int \<Rightarrow> double \<Rightarrow> 'v gateway \<Rightarrow> 'v gateway \<Rightarrow> bool" where
  "tracked cid symb marketId qty g g' \<longleftrightarrow>
     ordersByIndex g' = (ordersByIndex g)(clientOrderCounter g \<mapsto> order_rec cid symb marketId qty) \<and>
     clientIdToIndex g' = (clientIdToIndex g)(cid \<mapsto> clientOrderCounter g) \<and>
     clientOrderCounter g' = clientOrderCounter g + 1"

definition untracked :: "string \<Rightarrow> 'v gateway \<Rightarrow> 'v gateway \<Rightarrow> bool" where
  "untracked cid g g' \<longleftrightarrow>
     ordersByIndex g' = (ordersByIndex g)(clientOrderCounter g := None) \<and>
     clientIdToIndex g' = (clientIdToIndex g)(cid := None) \<and> clientOrderCounter g' = clientOrderCounter g + 1"

lemma reserve_tracked:
  "reserve cid symb marketId qty g = (idx, g1) \<Longrightarrow>
     idx = clientOrderCounter g \<and> tracked cid symb marketId qty g g1 \<and> nextNonce g1 = nextNonce g"
  by (auto simp: reserve_def tracked_def order_rec_def Let_def)

lemma tracked_same: "tracked cid symb i q g g1 \<Longrightarrow> same_orders g1 g2 \<Longrightarrow> tracked cid symb i q g g2"
  by (simp add: tracked_def same_orders_def)

lemma untracked_same:
  "tracked cid symb i q g g1 \<Longrightarrow> same_orders g1 g2 \<Longrightarrow> untracked cid g (eraseOrderRec (clientOrderCounter g) cid g2)"
  by (simp add: tracked_def untracked_def same_orders_def eraseOrderRec_def)

lemma sign_and_send_outcome:
  assumes "tracked cid symb i q g g1" "nextNonce g1 = nextNonce g"
    and "sign_and_send E signf (clientOrderCounter g) cid what g1 = (r, g')"
  shows "case r of
      Inr _ \<Rightarrow> tracked cid symb i q g g' \<and> nextNonce g' = nextNonce g + 1
    | Inl (Gateway_error k w) \<Rightarrow> untracked cid g g'
    | Inl (Std e) \<Rightarrow> tracked cid symb i q g g'"
proof -
  let ?s = "on_mem (signf (nextNonce g1)) g1"
  have s: "same_orders g1 (snd ?s)" "nextNonce (snd ?s) = nextNonce g"
    using on_mem_frame[of g1 "signf (nextNonce g1)"] assms(2) by simp_all
  show ?thesis
  proof (cases "fst ?s")
    case (Inl e)
    with assms(3) have "r = Inl (sign_failed e)" "g' = eraseOrderRec (clientOrderCounter g) cid (snd ?s)"
      by (simp_all add: sign_and_send_def Let_def case_prod_unfold)
    then show ?thesis using untracked_same[OF assms(1) s(1)] by (simp add: sign_failed_def)
  next
    case (Inr tx)
    obtain r2 g2 where t: "sendSigned E tx what (snd ?s) = (r2, g2)" by force
    have f: "same_orders g1 g2" using s(1) sendSigned_frame[of "snd ?s" E tx what] t same_orders_trans by fastforce
    note g = tracked_same[OF assms(1) f] untracked_same[OF assms(1) f]
    show ?thesis using g t Inr assms(3) s(2) sendSigned_nonce[of E tx what "snd ?s"]
      by (auto simp: sign_and_send_def Let_def case_prod_unfold split: sum.splits gexn.splits)
  qed
qed

lemma market_of_frame:
  "market_of symb g = (r, g1) \<Longrightarrow> same_orders g g1 \<and> nextNonce g1 = nextNonce g \<and> quoteCache g1 = quoteCache g"
  by (auto simp: market_of_def same_orders_def Let_def split: option.splits)

lemma tracked_from: "same_orders g0 g \<Longrightarrow> tracked cid symb i q g g' \<Longrightarrow> tracked cid symb i q g0 g'"
  by (simp add: tracked_def same_orders_def)

lemma untracked_from: "same_orders g0 g \<Longrightarrow> untracked cid g g' \<Longrightarrow> untracked cid g0 g'"
  by (simp add: untracked_def same_orders_def)

text \<open>The outcomes of a submit, as a predicate on the states before and after.\<close>

definition submit_outcome ::
  "string \<Rightarrow> string \<Rightarrow> double \<Rightarrow> 'v gateway \<Rightarrow> (gexn + unit) \<times> 'v gateway \<Rightarrow> bool" where
  "submit_outcome cid symb qty g res \<longleftrightarrow> (case res of
      (Inr _, g') \<Rightarrow> (\<exists>i. marketIds g symb = Some i \<and> tracked cid symb i qty g g') \<and> nextNonce g' = nextNonce g + 1
    | (Inl (Gateway_error k w), g') \<Rightarrow> same_orders g g' \<and> nextNonce g' = nextNonce g \<or> untracked cid g g'
    | (Inl (Std e), g') \<Rightarrow> \<exists>i. marketIds g symb = Some i \<and> tracked cid symb i qty g g')"

lemma reserve_and_send_outcome:
  assumes "same_orders g g0" "nextNonce g0 = nextNonce g" "marketIds g symb = Some i"
    and "(case reserve cid symb i qty g0 of (idx, g1) \<Rightarrow> sign_and_send E (signf idx g1) idx cid what g1) = res"
  shows "submit_outcome cid symb qty g res"
proof -
  obtain idx g1 where r: "reserve cid symb i qty g0 = (idx, g1)" by force
  note t = reserve_tracked[OF r]
  obtain x g' where x: "res = (x, g')" by force
  have "case x of
      Inr _ \<Rightarrow> tracked cid symb i qty g0 g' \<and> nextNonce g' = nextNonce g0 + 1
    | Inl (Gateway_error k w) \<Rightarrow> untracked cid g0 g'
    | Inl (Std e) \<Rightarrow> tracked cid symb i qty g0 g'"
    using t assms(4) r x by (intro sign_and_send_outcome[where what = what and E = E and signf = "signf idx g1"]) auto
  then show ?thesis using assms(1-3) tracked_from[OF assms(1)] untracked_from[OF assms(1)]
    unfolding submit_outcome_def x by (auto split: sum.splits gexn.splits)
qed


lemma refused_outcome:
  "same_orders g g' \<Longrightarrow> nextNonce g' = nextNonce g \<Longrightarrow> submit_outcome cid symb qty g (Inl (Gateway_error k w), g')"
  by (simp add: submit_outcome_def)

lemma base_amount_error: "base_amount E qty d = Inl e \<Longrightarrow> \<exists>k w. e = Gateway_error k w"
  by (auto simp: base_amount_def Let_def split: if_splits)

lemma limit_price_error: "limit_price E p d = Inl e \<Longrightarrow> \<exists>k w. e = Gateway_error k w"
  by (auto simp: limit_price_def Let_def split: if_splits)

lemma market_bound_error: "market_bound E symb side g = Inl e \<Longrightarrow> \<exists>k w. e = Gateway_error k w"
  by (auto simp: market_bound_def Let_def split: if_splits option.splits)

lemma market_of_cases:
  obtains e where "market_of symb g = (Inl e, g)" "\<exists>k w. e = Gateway_error k w"
    | i sd pd g1 where "market_of symb g = (Inr (i, sd, pd), g1)" "marketIds g symb = Some i"
        "same_orders g g1" "nextNonce g1 = nextNonce g"
  by (cases "marketIds g symb") (auto simp: market_of_def Let_def same_orders_def)

text \<open>Property C15: the outcomes of the two submits.  When one returns, the order is entered under the next
  client order index and the nonce has advanced by one.  When it throws a \<open>GatewayError\<close>, either nothing
  was changed (unknown instrument, amount or price out of the venue's domain, no quote) or the record and the
  client id have been removed again.  When it throws anything else, the transport failed: the order may be
  resting, and its record is kept so that its events can be attributed.\<close>

theorem submit_outcomes:
  "submit_outcome cid symb qty g (submitPostOnlyLimit E cid symb side qty price reduceOnly g) \<and>
   submit_outcome cid symb qty g (submitReduceOnlyMarket E cid symb side qty g)"
proof (cases rule: market_of_cases[where symb = symb and g = g])
  case (1 e)
  then show ?thesis
    by (auto simp: submitPostOnlyLimit_def submitReduceOnlyMarket_def seq_def intro: refused_outcome)
next
  case (2 i sd pd g1)
  note refused = refused_outcome[OF 2(3,4)]
  show ?thesis
  proof
    show "submit_outcome cid symb qty g (submitPostOnlyLimit E cid symb side qty price reduceOnly g)"
      using 2(1) refused 
        reserve_and_send_outcome[where signf = "\<lambda>idx g1. sign_limit E (g_signer g1) i idx base px side reduceOnly" for base px, OF 2(3,4,2)]
      by (auto simp: submitPostOnlyLimit_def seq_def pure_def case_prod_unfold Let_def
          dest!: base_amount_error limit_price_error split: sum.splits)
    show "submit_outcome cid symb qty g (submitReduceOnlyMarket E cid symb side qty g)"
      using 2(1) refused 
        reserve_and_send_outcome[where signf = "\<lambda>idx g1. sign_market E (g_signer g1) i idx base (bound_price E bd pd) side" for base bd, OF 2(3,4,2)]
      by (auto simp: submitReduceOnlyMarket_def seq_def pure_def case_prod_unfold Let_def
          dest!: base_amount_error market_bound_error split: sum.splits)
  qed
qed

section \<open>Cancelling\<close>


end
