(* ===== verification/Gateway_Verdict.thy ===== *)
theory Gateway_Verdict
  imports Gateway_Tx
begin

text \<open>
  How \<open>sendSigned\<close> reads the venue's answer: a verdict of the venue inside an HTTP error is told from a
  transport failure, and how the verdict is classified.  The token the requests carry.
\<close>

section \<open>The marker of an embedded body\<close>

lemma fmt_int_no_m: "CHR ''m'' \<notin> set (fmt_int n)"
proof -
  have "list_all isdigit (dec_digits \<bar>n\<bar>)" using dec_digits_digits[of "\<bar>n\<bar>"] by simp
  moreover have "\<not> isdigit (CHR ''m'')" by (simp add: isdigit_def char_code_def)
  ultimately have "CHR ''m'' \<notin> set (dec_digits \<bar>n\<bar>)" by (auto simp: list_all_iff)
  then show ?thesis by (auto simp: fmt_int_def)
qed

definition http_error_text :: "int \<Rightarrow> string \<Rightarrow> string" where
  "http_error_text st body = ''Lighter HTTP error, code '' @ fmt_int st @ '', msg: '' @ body"

lemma find_marker:
  assumes "CHR ''m'' \<notin> set a"
  shows "find_sub ''msg: '' (a @ ''msg: '' @ body) = Some (length a)"
proof -
  have "\<not> contains (a @ butlast ''msg: '') ''msg: ''"
  proof
    assume "contains (a @ butlast ''msg: '') ''msg: ''"
    then obtain x y where xy: "a @ butlast ''msg: '' = x @ ''msg: '' @ y" unfolding contains_iff by blast
    have "length (a @ butlast ''msg: '') = length (x @ ''msg: '' @ y)" by (simp only: xy)
    then have l: "length x < length a" by simp
    have "a ! length x = (a @ butlast ''msg: '') ! length x" using l by (simp only: nth_append if_True)
    also have "\<dots> = CHR ''m''" unfolding xy by (simp add: nth_append)
    finally show False using assms l nth_mem by metis
  qed
  then show ?thesis by (intro find_sub_append) simp_all
qed

lemma parse_embedded:
  "parseVenueReject P (http_error_text st body) = (case P body of
     Inl _ \<Rightarrow> None
   | Inr j \<Rightarrow> (case jfind ''code'' j of
       Some (JInt c) \<Rightarrow> if to_int32 c = 200 then None else Some (to_int32 c, jstring_or_empty ''message'' j)
     | _ \<Rightarrow> None))"
proof -
  define a where "a = ''Lighter HTTP error, code '' @ fmt_int st @ '', ''"
  have t: "http_error_text st body = a @ ''msg: '' @ body" by (simp add: http_error_text_def a_def)
  have f: "find_sub ''msg: '' (a @ ''msg: '' @ body) = Some (length a)"
    using fmt_int_no_m[of st] by (intro find_marker) (simp add: a_def)
  have "drop (length a + 5) (a @ ''msg: '' @ body) = body" by simp
  then show ?thesis unfolding parseVenueReject_def t f by simp
qed

section \<open>Verdicts\<close>

lemma sendTx_http:
  assumes "http_post E ''/api/v1/sendTx'' (tx_body t i) (throttle E s) = (Inr r, s')"
  shows "sendTx E t i s = (and_then (checkTransport r) (\<lambda>r. and_then (json_parse E (rs_body r)) (\<lambda>j.
       SendTxResult_fromJson (utils E) j SendTxResult_init)), s')"
  using assms by (simp add: sendTx_def seq_def pure_def)

lemma sendSigned_http_error:
  assumes "http_post (renv E) ''/api/v1/sendTx'' (tx_body (tx_type tx) (tx_info tx))
      (throttle (renv E) (g_rest (refreshAuthTokenIfNeeded E g))) = (Inr r, s)"
    and "rs_status r \<noteq> 200"
  shows "fst (sendSigned E tx what g) = Inl (case json_parse (renv E) (rs_body r) of
      Inr j \<Rightarrow> (case jfind ''code'' j of
          Some (JInt c) \<Rightarrow>
            if to_int32 c \<noteq> 200 then
              Gateway_error (classifyReject (fmt_int (to_int32 c) @ '' '' @ jstring_or_empty ''message'' j))
                (what @ '': code '' @ fmt_int (to_int32 c) @ '' '' @ jstring_or_empty ''message'' j)
            else Std (Runtime_error (http_error_text (rs_status r) (rs_body r)))
        | _ \<Rightarrow> Std (Runtime_error (http_error_text (rs_status r) (rs_body r))))
    | Inl _ \<Rightarrow> Std (Runtime_error (http_error_text (rs_status r) (rs_body r))))"
proof -
  have "sendTx (renv E) (tx_type tx) (tx_info tx) (g_rest (refreshAuthTokenIfNeeded E g)) =
     (Inl (Runtime_error (http_error_text (rs_status r) (rs_body r))), s)"
    using assms(2) by (simp add: sendTx_http[OF assms(1)] checkTransport_def http_error_text_def)
  then show ?thesis
    by (simp add: sendSigned_def on_rest_def Let_def parse_embedded split: sum.splits option.splits json.splits)
qed

lemma sendSigned_envelope:
  assumes "http_post (renv E) ''/api/v1/sendTx'' (tx_body (tx_type tx) (tx_info tx))
      (throttle (renv E) (g_rest (refreshAuthTokenIfNeeded E g))) = (Inr r, s)"
    and "rs_status r = 200" "json_parse (renv E) (rs_body r) = Inr j"
    and "SendTxResult_fromJson (utils (renv E)) j SendTxResult_init = Inr res" "st_code res \<noteq> 200"
  shows "fst (sendSigned E tx what g) = Inl (Gateway_error (classifyReject (st_message res))
     (what @ '': code '' @ fmt_int (st_code res) @ '' '' @ st_message res))"
proof -
  have "sendTx (renv E) (tx_type tx) (tx_info tx) (g_rest (refreshAuthTokenIfNeeded E g)) = (Inr res, s)"
    using assms(2-4) by (simp add: sendTx_http[OF assms(1)] checkTransport_def)
  with assms(5) show ?thesis by (simp add: sendSigned_def on_rest_def Let_def)
qed

text \<open>Property C31: an HTTP error is a transport failure unless its body is the venue's own verdict.  If the body
  of a response with a status other than 200 is JSON with an integer \<open>code\<close> that is not 200, the submission
  was rejected by the venue: a \<open>GatewayError\<close> classified by code and message.  With any other body (a
  proxy's HTML page, no code, code 200) it stays a plain exception, so the order's record is kept.\<close>

theorem http_error_verdict:
  assumes "http_post (renv E) ''/api/v1/sendTx'' (tx_body (tx_type tx) (tx_info tx))
      (throttle (renv E) (g_rest (refreshAuthTokenIfNeeded E g))) = (Inr r, s)"
    and "rs_status r \<noteq> 200"
  shows "fst (sendSigned E tx what g) = Inl (case json_parse (renv E) (rs_body r) of
      Inr j \<Rightarrow> (case jfind ''code'' j of
          Some (JInt c) \<Rightarrow>
            if to_int32 c \<noteq> 200 then
              Gateway_error (classifyReject (fmt_int (to_int32 c) @ '' '' @ jstring_or_empty ''message'' j))
                (what @ '': code '' @ fmt_int (to_int32 c) @ '' '' @ jstring_or_empty ''message'' j)
            else Std (Runtime_error (http_error_text (rs_status r) (rs_body r)))
        | _ \<Rightarrow> Std (Runtime_error (http_error_text (rs_status r) (rs_body r))))
    | Inl _ \<Rightarrow> Std (Runtime_error (http_error_text (rs_status r) (rs_body r))))"
  using assms by (rule sendSigned_http_error)

text \<open>Examples: an environment whose venue answers with a status and a JSON body.\<close>

definition reject_genv :: "int \<Rightarrow> json \<Rightarrow> int genv" where
  "reject_genv st body = demo_genv\<lparr>renv := demo_renv\<lparr>
     net := direct_net (\<lambda>r m. (Inr \<lparr>rs_status = st, rs_body = ''{}''\<rparr>, m)) (\<lambda>q. []),
     json_parse := (\<lambda>s. Inr body)\<rparr>\<rparr>"

definition price_verdict :: json where
  "price_verdict = JObject [(''code'', JInt 21706), (''message'', JString ''invalid order base or quote amount'')]"

definition reject_tx :: SignedTx where
  "reject_tx = \<lparr>tx_type = 14, tx_info = ''{}'', tx_hash = ''''\<rparr>"

lemma reject_response:
  "http_post (renv (reject_genv st body)) path b s' = (Inr \<lparr>rs_status = st, rs_body = ''{}''\<rparr>,
     snd (http_post (renv (reject_genv st body)) path b s'))"
  by (simp add: http_post_def HTTPSession_postForm_def P_request_transport reject_genv_def Let_def case_prod_unfold)

lemma price_code: "fmt_int 21706 = ''21706''" "to_int32 21706 = 21706"
  by code_simp+

lemma price_classes: "classifyReject ''21706 invalid order base or quote amount'' = Permanent"
    "classifyReject ''invalid order base or quote amount'' = Hard"
  by code_simp+

theorem http_error_verdict_witness:
  "fst (sendSigned (reject_genv 400 price_verdict) reject_tx ''submitPostOnlyLimit'' demo_gateway) =
     Inl (Gateway_error Permanent ''submitPostOnlyLimit: code 21706 invalid order base or quote amount'')"
proof -
  show ?thesis
    using http_error_verdict[where E = "reject_genv 400 price_verdict" and tx = reject_tx and g = demo_gateway and what = "''submitPostOnlyLimit''", OF reject_response]
    by (simp add: reject_genv_def price_verdict_def jfind_def jstring_or_empty_def price_code price_classes)
qed


end
