(* ===== verification/Gateway_Runs.thy ===== *)
theory Gateway_Runs
  imports Gateway_Verdict
begin

text \<open>
  Runs of the gateway.  \<open>run_ops\<close> is a sequence of whole operations, reloads, quotes and account messages.
  \<open>gw_run\<close> is finer: any interleaving of the critical sections of any number of them, as the locks of the code
  allow it between the application's threads and the io thread.  An invariant that each section keeps holds
  after every run of either kind (the locale \<open>gateway_invariant\<close>), and every sequence of operations is an
  interleaving of sections (\<open>run_ops_sections\<close>).
\<close>

section \<open>Operations and runs\<close>

datatype gateway_op =
    Op_limit string string OrderSide double double bool
  | Op_market string string OrderSide double
  | Op_cancel string string
  | Op_spec string
  | Op_refresh
  | Op_book int double double
  | Op_account json
  | Op_token
  | Op_subscribe string
  | Op_unsubscribe string

fun run_op :: "'v genv \<Rightarrow> gateway_op \<Rightarrow> 'v gateway \<Rightarrow> 'v gateway" where
  "run_op E (Op_limit cid symb side qty price ro) g = snd (submitPostOnlyLimit E cid symb side qty price ro g)"
| "run_op E (Op_market cid symb side qty) g = snd (submitReduceOnlyMarket E cid symb side qty g)"
| "run_op E (Op_cancel cid symb) g = snd (cancel_order E cid symb g)"
| "run_op E (Op_spec symb) g = snd (instrumentSpec E symb g)"
| "run_op E Op_refresh g = snd (refreshInstruments E g)"
| "run_op E (Op_book i b a) g = fst (onBook E i b a g)"
| "run_op E (Op_account msg) g = fst (snd (onAccountMessage E msg g))"
| "run_op E Op_token g = snd (tokenForSubscribe E g)"
| "run_op E (Op_subscribe symb) g = fst (snd (subscribeQuotes symb g))"
| "run_op E (Op_unsubscribe symb) g = fst (unsubscribeQuotes symb g)"

definition run_ops :: "'v genv \<Rightarrow> gateway_op list \<Rightarrow> 'v gateway \<Rightarrow> 'v gateway" where
  "run_ops E = fold (run_op E)"

section \<open>What a section must keep\<close>

text \<open>Calls of the native signer, the only use the gateway makes of it after construction.\<close>

datatype sign_call =
    Sign_order int int int "32 word" bool LighterOrderType LighterTimeInForce bool int "32 word" int
  | Sign_cancel int int int
  | Sign_token int

definition sign_world :: "'v genv \<Rightarrow> signer \<Rightarrow> sign_call \<Rightarrow> 'v mem \<Rightarrow> 'v mem" where
  "sign_world E sg c m = (case c of
     Sign_order mi ci ba pr isAsk ot tif ro n tp ex \<Rightarrow> snd (signCreateOrder (nlib E) sg mi ci ba pr isAsk ot tif ro n tp ex m)
   | Sign_cancel mi oi n \<Rightarrow> snd (signCancelOrder (nlib E) sg mi oi n m)
   | Sign_token d \<Rightarrow> snd (createAuthToken (nlib E) sg d m))"

definition set_world :: "'v mem \<Rightarrow> 'v gateway \<Rightarrow> 'v gateway" where
  "set_world w g = g\<lparr>g_rest := (g_rest g)\<lparr>world := w\<rparr>\<rparr>"

lemma on_mem_world: "snd (on_mem f g) = set_world (snd (f (world (g_rest g)))) g"
  by (simp add: on_mem_def set_world_def Let_def case_prod_unfold)

text \<open>One critical section of an application thread, but for the sending of a transaction.\<close>

inductive side_section :: "'v genv \<Rightarrow> 'v gateway \<Rightarrow> 'v gateway \<Rightarrow> bool" for E :: "'v genv" where
  as_load: "side_section E g (snd (loadInstruments E g))"
| as_market: "side_section E g (snd (market_of symb g))"
| as_enter: "side_section E g (snd (reserve cid symb i q g))"
| as_erase: "side_section E g (eraseOrderRec idx cid g)"
| as_sign: "side_section E g (set_world (sign_world E (g_signer g) c (world (g_rest g))) g)"
| as_steady: "side_section E g (set_world (snd (steady_now (renv E) (world (g_rest g)))) g)"
| as_system: "side_section E g (set_world (snd (system_seconds E (world (g_rest g)))) g)"

text \<open>\<open>sendSigned\<close> is one section here: it runs under \<open>txM\<close>, and nothing else reads or writes the nonce
  (\<open>Gateway_Lock\<close> takes it apart).\<close>

inductive app_section :: "'v genv \<Rightarrow> 'v gateway \<Rightarrow> 'v gateway \<Rightarrow> bool" for E :: "'v genv" where
  as_side: "side_section E g g' \<Longrightarrow> app_section E g g'"
| as_send: "app_section E g (snd (sendSigned E tx what g))"

text \<open>One section of any thread.  A section of the account feed is labelled with the event and its result.\<close>

type_synonym event_label = "int \<times> json \<times> OrderRec \<times> double"

inductive gw_step :: "'v genv \<Rightarrow> 'v gateway \<Rightarrow> event_label option \<Rightarrow> 'v gateway \<Rightarrow> bool" for E :: "'v genv" where
  st_app: "app_section E g g' \<Longrightarrow> gw_step E g None g'"
| st_event: "account_section idx order g = Some (rec, x, g1) \<Longrightarrow> gw_step E g (Some (idx, order, rec, x)) g1"
| st_quote: "gw_step E g None (g\<lparr>quoteCache := qc\<rparr>)"
| st_live: "gw_step E g None (g\<lparr>accountFeedLive := b\<rparr>)"
| st_warns: "gw_step E g None (g\<lparr>emptyWarns := k\<rparr>)"
| st_stream: "gw_step E g None (g\<lparr>g_stream := m\<rparr>)"

inductive_cases gw_step_event: "gw_step E g (Some (idx, order, rec, x)) g'"

inductive gw_run :: "'v genv \<Rightarrow> 'v gateway \<Rightarrow> event_label list \<Rightarrow> 'v gateway \<Rightarrow> bool" for E :: "'v genv" and g where
  run_start: "gw_run E g [] g"
| run_step: "gw_run E g ls h \<Longrightarrow> gw_step E h l h' \<Longrightarrow> gw_run E g (ls @ (case l of None \<Rightarrow> [] | Some e \<Rightarrow> [e])) h'"

locale gateway_invariant =
  fixes E :: "'v genv" and I :: "'v gateway \<Rightarrow> bool"
  assumes load: "I g \<Longrightarrow> I (snd (loadInstruments E g))"
    and market: "I g \<Longrightarrow> I (snd (market_of symb g))"
    and enter: "I g \<Longrightarrow> I (snd (reserve cid symb i qty g))"
    and erase: "I g \<Longrightarrow> I (eraseOrderRec idx cid g)"
    and sign: "I g \<Longrightarrow> I (set_world (sign_world E (g_signer g) c (world (g_rest g))) g)"
    and clock: "I g \<Longrightarrow> I (set_world (snd (steady_now (renv E) (world (g_rest g)))) g) \<and>
       I (set_world (snd (system_seconds E (world (g_rest g)))) g)"
    and send: "I g \<Longrightarrow> I (snd (sendSigned E tx what g))"
    and event: "I g \<Longrightarrow> account_section idx order g = Some (rec, x, g1) \<Longrightarrow> I g1"
    and quote: "I g \<Longrightarrow> I (g\<lparr>quoteCache := q\<rparr>)"
    and live: "I g \<Longrightarrow> I (g\<lparr>accountFeedLive := b\<rparr>)"
    and warns: "I g \<Longrightarrow> I (g\<lparr>emptyWarns := k\<rparr>)"
    and stream: "I g \<Longrightarrow> I (g\<lparr>g_stream := m\<rparr>)"
begin

lemma order_sections:
  assumes "I g" "\<And>n w. \<exists>c. snd (signf n w) = sign_world E (g_signer g) c w"
  shows "I (snd (sign_and_send E signf idx cid what g))"
proof -
  let ?s = "on_mem (signf (nextNonce g)) g"
  from assms(2) obtain c where "snd (signf (nextNonce g) (world (g_rest g))) = sign_world E (g_signer g) c (world (g_rest g))" by blast
  then have s: "I (snd ?s)" using sign[OF assms(1), of c] by (simp add: on_mem_world)
  show ?thesis
    using s erase send[OF s] erase[OF send[OF s]]
    by (auto simp: sign_and_send_def Let_def case_prod_unfold split: sum.splits gexn.splits)
qed

lemma submit_kept:
  assumes "I g" "market_of symb g = (Inr (i, sd, pd), g1)"
    and "\<And>idx g2 n w. \<exists>c. snd (signf idx g2 n w) = sign_world E (g_signer g2) c w"
  shows "I (snd (case reserve cid symb i qty g1 of (idx, g2) \<Rightarrow> sign_and_send E (signf idx g2) idx cid what g2))"
proof -
  have "I g1" using market[OF assms(1), of symb] assms(2) by simp
  then have "I (snd (reserve cid symb i qty g1))" by (rule enter)
  from order_sections[OF this, of "signf (fst (reserve cid symb i qty g1)) (snd (reserve cid symb i qty g1))"] assms(3)
  show ?thesis by (simp add: case_prod_unfold)
qed

lemma account_order_kept: "I g \<Longrightarrow> I (fst (snd (account_order E order g)))"
  using event erase
  by (fastforce simp: account_order_def Let_def split: option.splits sum.splits if_splits prod.splits)

lemma account_orders_kept: "I g \<Longrightarrow> I (fst (snd (account_orders E xs g)))"
proof (induction xs arbitrary: g)
  case (Cons x xs)
  then show ?case using account_order_kept[of g x]
    by (auto simp: Let_def case_prod_unfold split: sum.splits)
qed simp

lemma account_message_kept: "I g \<Longrightarrow> I (fst (snd (onAccountMessage E msg g)))"
  using live[of g True] warns account_orders_kept
  by (auto simp: onAccountMessage_def Let_def split: sum.splits)

lemma onBook_kept: "I g \<Longrightarrow> I (fst (onBook E i b a g))"
  using clock[of g] quote by (auto simp: onBook_def Let_def case_prod_unfold on_mem_world)

lemma token_kept: "I g \<Longrightarrow> I (snd (tokenForSubscribe E g))"
proof -
  assume g: "I g"
  let ?g1 = "set_world (snd (system_seconds E (world (g_rest g)))) g"
  have "I ?g1" using clock[OF g] by simp
  from sign[OF this, of "Sign_token d" for d] show ?thesis
    by (simp add: tokenForSubscribe_def Let_def case_prod_unfold on_mem_world sign_world_def)
qed

lemma submit_limit_kept: "I g \<Longrightarrow> I (snd (submitPostOnlyLimit E cid symb side qty price ro g))"
proof (cases rule: market_of_cases[where symb = symb and g = g])
  case (2 i sd pd g1)
  assume g: "I g"
  have "I g1" using market[OF g, of symb] 2(1) by simp
  moreover have "\<exists>c. snd (sign_limit E (g_signer g2) i idx base px side ro n w) = sign_world E (g_signer g2) c w"
    for g2 idx base px n w
    by (rule exI[of _ "Sign_order i idx base px (side = Sell) OT_Limit TIF_PostOnly ro n
          LIGHTER_NIL_TRIGGER_PRICE LIGHTER_DEFAULT_28_DAY_EXPIRY"]) (simp add: sign_limit_def sign_world_def)
  note submit_kept[where signf = "\<lambda>idx g2. sign_limit E (g_signer g2) i idx base px side ro" for base px,
      OF g 2(1) this]
  ultimately show ?thesis using 2(1)
    by (auto simp: submitPostOnlyLimit_def seq_def pure_def case_prod_unfold Let_def split: sum.splits)
qed (auto simp: submitPostOnlyLimit_def seq_def)

lemma submit_market_kept: "I g \<Longrightarrow> I (snd (submitReduceOnlyMarket E cid symb side qty g))"
proof (cases rule: market_of_cases[where symb = symb and g = g])
  case (2 i sd pd g1)
  assume g: "I g"
  have "I g1" using market[OF g, of symb] 2(1) by simp
  moreover have "\<exists>c. snd (sign_market E (g_signer g2) i idx base px side n w) = sign_world E (g_signer g2) c w"
    for g2 idx base px n w
    by (rule exI[of _ "Sign_order i idx base px (side = Sell) OT_Market TIF_ImmediateOrCancel True n
          LIGHTER_NIL_TRIGGER_PRICE LIGHTER_DEFAULT_IOC_EXPIRY"]) (simp add: sign_market_def sign_world_def)
  note submit_kept[where signf = "\<lambda>idx g2. sign_market E (g_signer g2) i idx base (bound_price E bd pd) side" for base bd,
      OF g 2(1) this]
  ultimately show ?thesis using 2(1)
    by (auto simp: submitReduceOnlyMarket_def seq_def pure_def case_prod_unfold Let_def split: sum.splits)
qed (auto simp: submitReduceOnlyMarket_def seq_def)

lemma cancel_kept: "I g \<Longrightarrow> I (snd (cancel_order E cid symb g))"
proof -
  assume g: "I g"
  have s: "I (snd (on_mem (signCancelOrder (nlib E) (g_signer g) mi oi n) g))" for mi oi n
    using sign[OF g, of "Sign_cancel mi oi n"] by (simp add: on_mem_world sign_world_def)
  show ?thesis using g s send[OF s]
    by (auto simp: cancel_order_def Let_def case_prod_unfold split: sum.splits option.splits prod.splits gexn.splits)
qed

lemma spec_kept: "I g \<Longrightarrow> I (snd (instrumentSpec E symb g))"
  using load[of g] by (auto simp: instrumentSpec_def seq_def case_prod_unfold split: option.splits sum.splits)

lemma quotes_kept: "I g \<Longrightarrow> I (fst (snd (subscribeQuotes symb g))) \<and> I (fst (unsubscribeQuotes symb g))"
  using stream by (auto simp: subscribeQuotes_def unsubscribeQuotes_def on_stream_def Let_def case_prod_unfold)

lemma run_op_kept: "I g \<Longrightarrow> I (run_op E op g)"
  by (cases op) (simp_all add: submit_limit_kept submit_market_kept cancel_kept spec_kept onBook_kept
      account_message_kept token_kept refreshInstruments_def load quotes_kept)

lemma run_ops_kept: "I g \<Longrightarrow> I (run_ops E ops g)"
  unfolding run_ops_def by (induction ops arbitrary: g) (simp_all add: run_op_kept)

lemma side_kept: "side_section E g g' \<Longrightarrow> I g \<Longrightarrow> I g'"
  by (induction rule: side_section.induct) (simp_all add: load market enter erase sign clock)

lemma app_kept: "app_section E g g' \<Longrightarrow> I g \<Longrightarrow> I g'"
  by (induction rule: app_section.induct) (simp_all add: side_kept send)

lemma step_kept: "gw_step E g l g' \<Longrightarrow> I g \<Longrightarrow> I g'"
proof (induction rule: gw_step.induct)
  case (st_event idx order g rec x g1)
  then show ?case by (blast intro: event)
qed (simp_all add: app_kept quote live warns stream)

lemma run_kept: "gw_run E g ls g' \<Longrightarrow> I g \<Longrightarrow> I g'"
  by (induction rule: gw_run.induct) (blast intro: step_kept)+

end

section \<open>Operations are runs of sections\<close>

lemma run_snoc: "\<exists>ls. gw_run E g ls h \<Longrightarrow> gw_step E h l h' \<Longrightarrow> \<exists>ls. gw_run E g ls h'"
  by (blast intro: run_step)

interpretation sections: gateway_invariant E "\<lambda>h. \<exists>ls. gw_run E g ls h" for E :: "'v genv" and g
  by unfold_locales (blast intro: run_snoc gw_step.intros app_section.intros side_section.intros)+

lemma run_ops_sections: "\<exists>ls. gw_run E g ls (run_ops E ops g)"
  by (rule sections.run_ops_kept) (blast intro: run_start)

end
