(* ===== verification/Gateway_Nonce.thy ===== *)
theory Gateway_Nonce
  imports Gateway_Runs
begin

text \<open>
  The nonce counter follows the venue's, and the token in use outlives the requests: two invariants of the
  runs of the gateway, each under the promises of the code it talks to.
\<close>

section \<open>What a query leaves alone\<close>

text \<open>An observation of the world that the clock, the sleep and every GET leave alone.\<close>

definition quiet :: "'w env \<Rightarrow> ('w \<Rightarrow> 'c) \<Rightarrow> bool" where
  "quiet E f \<longleftrightarrow> (\<forall>w. f (snd (steady_now E w)) = f w) \<and> (\<forall>d w. f (sleep_for E d w) = f w) \<and>
     (\<forall>r w. rq_verb r = GET \<longrightarrow> f (snd (transport (net E) r w)) = f w)"

lemma throttle_frame: "authToken (throttle E s) = authToken s \<and> uri (throttle E s) = uri s"
  by (simp add: throttle_def Let_def case_prod_unfold)

lemma throttle_quiet: "quiet E f \<Longrightarrow> f (world (throttle E s)) = f (world s)"
  by (simp add: throttle_def quiet_def Let_def case_prod_unfold)

lemma http_get_frame: "authToken (snd (http_get E p q s)) = authToken s"
  by (simp add: http_get_def Let_def case_prod_unfold)

lemma http_get_quiet: "quiet E f \<Longrightarrow> f (world (snd (http_get E p q s))) = f (world s)"
  by (simp add: http_get_def HTTPSession_get_def P_request_transport quiet_def Let_def case_prod_unfold)

lemma query_state: "snd (query_api E p q s) = snd (http_get E p q (throttle E s))"
  by (simp add: query_api_def seq_def pure_def case_prod_unfold split: sum.splits)

lemma seq_pure_state: "(\<And>x s. snd (k x s) = s) \<Longrightarrow> snd (seq f k s) = snd (f s)"
  by (simp add: seq_def case_prod_unfold split: sum.splits)

lemma getNextNonce_state: "snd (getNextNonce E a k s) = snd (http_get E ''/api/v1/nextNonce''
    (JObject [(''account_index'', JInt a), (''api_key_index'', JInt k)]) (throttle E s))"
  by (simp add: getNextNonce_def seq_pure_state pure_def query_state)

lemma getPerpetualAssets_frame:
  "authToken (snd (getPerpetualAssets E b s)) = authToken s \<and>
   (quiet E f \<longrightarrow> f (world (snd (getPerpetualAssets E b s))) = f (world s))"
proof -
  let ?q = "snd (query_api E ''/api/v1/orderBookDetails'' (JObject []) s)"
  have "snd (loadAssets E True s) = ?q \<or> (\<exists>as. snd (loadAssets E True s) = fill_cache as ?q)"
    by (auto simp: loadAssets_def seq_def pure_def case_prod_unfold split: sum.splits)
  then have "authToken (snd (loadAssets E True s)) = authToken ?q \<and> world (snd (loadAssets E True s)) = world ?q"
    by (auto simp: fill_cache_def)
  then show ?thesis
    by (simp add: getPerpetualAssets_def seq_pure_state pure_def query_state http_get_frame http_get_quiet
        throttle_frame throttle_quiet)
qed

lemma sendTx_state: "snd (sendTx E t i s) = snd (http_post E ''/api/v1/sendTx'' (tx_body t i) (throttle E s))"
  by (simp add: sendTx_def seq_pure_state pure_def)

lemma http_post_frame: "authToken (snd (http_post E p b s)) = authToken s"
  by (simp add: http_post_def Let_def case_prod_unfold)

section \<open>The venue's nonce\<close>

text \<open>What is relied on: \<open>vn\<close> of the rest of the world is the venue's next nonce for this account and key.
  The clock, the native library and every GET leave it alone; the nextNonce endpoint answers with it; a POST the venue
  accepts (HTTP 200, code 200) takes it.  Nothing is assumed of any other POST: a rejected or
  lost one may have taken the nonce or not.\<close>

definition nonce_request :: "'w env \<Rightarrow> int \<Rightarrow> int \<Rightarrow> http_request \<Rightarrow> bool" where
  "nonce_request E a k r \<longleftrightarrow> rq_verb r = GET \<and> rq_target r = get_target (net E) ''/api/v1/nextNonce''
     (JObject [(''account_index'', JInt a), (''api_key_index'', JInt k)])"

definition native_quiet :: "'v genv \<Rightarrow> ('v \<Rightarrow> int) \<Rightarrow> bool" where
  "native_quiet E vn \<longleftrightarrow>
     (\<forall>x m. vn (rest_of_world (snd (SignCreateOrder (nlib E) x m))) = vn (rest_of_world m)) \<and>
     (\<forall>b c d e f h m. vn (rest_of_world (snd (SignCancelOrder (nlib E) b c d e f h m))) = vn (rest_of_world m)) \<and>
     (\<forall>d i b m. vn (rest_of_world (snd (CreateAuthToken (nlib E) d i b m))) = vn (rest_of_world m)) \<and>
     (\<forall>i b m. vn (rest_of_world (snd (CheckClient (nlib E) i b m))) = vn (rest_of_world m)) \<and>
     (\<forall>m. vn (rest_of_world (snd (system_seconds E m))) = vn (rest_of_world m))"

definition nonce_answered :: "'v genv \<Rightarrow> int \<Rightarrow> int \<Rightarrow> ('v \<Rightarrow> int) \<Rightarrow> bool" where
  "nonce_answered E a k vn \<longleftrightarrow> (\<forall>r m. nonce_request (renv E) a k r \<longrightarrow>
     (\<exists>b j. fst (transport (net (renv E)) r m) = Inr \<lparr>rs_status = 200, rs_body = b\<rparr> \<and> json_parse (renv E) b = Inr j \<and>
        is_object j \<and> jfind ''code'' j = Some (JInt 200) \<and>
        readInt64 (utils (renv E)) j ''nonce'' (- 1) = Inr (vn (rest_of_world m)) \<and> 0 \<le> vn (rest_of_world m)))"

definition nonce_taken :: "'v genv \<Rightarrow> ('v \<Rightarrow> int) \<Rightarrow> bool" where
  "nonce_taken E vn \<longleftrightarrow> (\<forall>r m h j res. rq_verb r = POST \<and> fst (transport (net (renv E)) r m) = Inr h \<and>
     rs_status h = 200 \<and> json_parse (renv E) (rs_body h) = Inr j \<and>
     SendTxResult_fromJson (utils (renv E)) j SendTxResult_init = Inr res \<and> st_code res = 200 \<longrightarrow>
     vn (rest_of_world (snd (transport (net (renv E)) r m))) = vn (rest_of_world m) + 1)"

definition venue_nonce :: "'v genv \<Rightarrow> int \<Rightarrow> int \<Rightarrow> ('v \<Rightarrow> int) \<Rightarrow> bool" where
  "venue_nonce E a k vn \<longleftrightarrow> quiet (renv E) (\<lambda>m. vn (rest_of_world m)) \<and> native_quiet E vn \<and>
     nonce_answered E a k vn \<and> nonce_taken E vn"

definition nonce_synced :: "int \<Rightarrow> int \<Rightarrow> ('v \<Rightarrow> int) \<Rightarrow> 'v gateway \<Rightarrow> bool" where
  "nonce_synced a k vn g \<longleftrightarrow> to_int32 (accountIndex g) = a \<and> apiKeyIndex g = k \<and>
     nextNonce g = vn (rest_of_world (world (g_rest g)))"

lemma getNextNonce_answer:
  assumes "venue_nonce E a k vn"
  shows "fst (getNextNonce (renv E) a k s) = Inr (vn (rest_of_world (world s))) \<and>
    vn (rest_of_world (world (snd (getNextNonce (renv E) a k s)))) = vn (rest_of_world (world s))"
proof
  let ?E = "renv E" and ?q = "JObject [(''account_index'', JInt a), (''api_key_index'', JInt k)]"
  let ?t = "throttle ?E s"
  have Q: "quiet ?E (\<lambda>m. vn (rest_of_world m))" using assms by (simp add: venue_nonce_def)
  have t: "vn (rest_of_world (world ?t)) = vn (rest_of_world (world s))" using throttle_quiet[OF Q] by simp
  show "vn (rest_of_world (world (snd (getNextNonce (renv E) a k s)))) = vn (rest_of_world (world s))"
    using http_get_quiet[OF Q] t by (simp add: getNextNonce_state)
  define r where "r = \<lparr>rq_verb = GET, rq_target = get_target (net ?E) ''/api/v1/nextNonce'' ?q, rq_host = uri ?t, rq_accept = ''*/*'',
      rq_userAgent = USER_AGENT, rq_contentType = None, rq_authorization = auth_header (authToken ?t),
      rq_contentLength = None, rq_body = ''''\<rparr>"
  have "nonce_request ?E a k r" by (simp add: nonce_request_def r_def)
  then obtain b j where j: "fst (transport (net ?E) r (world ?t)) = Inr \<lparr>rs_status = 200, rs_body = b\<rparr>"
    "json_parse ?E b = Inr j" "is_object j" "jfind ''code'' j = Some (JInt 200)"
    "readInt64 (utils ?E) j ''nonce'' (- 1) = Inr (vn (rest_of_world (world ?t)))" "0 \<le> vn (rest_of_world (world ?t))"
    using assms unfolding venue_nonce_def nonce_answered_def by blast
  have "fst (http_get ?E ''/api/v1/nextNonce'' ?q ?t) = Inr \<lparr>rs_status = 200, rs_body = b\<rparr>"
    using j(1) by (simp add: http_get_def HTTPSession_get_def P_request_transport r_def Let_def case_prod_unfold)
  moreover have "to_int32 200 = 200" by (simp add: to_int32_def)
  ultimately have "fst (query_api ?E ''/api/v1/nextNonce'' ?q s) = Inr j"
    using j(2-4) by (simp add: query_api_def seq_def pure_def checkTransport_def parseEnvelope_def case_prod_unfold)
  then show "fst (getNextNonce ?E a k s) = Inr (vn (rest_of_world (world s)))"
    using j(5,6) t by (simp add: getNextNonce_def seq_def pure_def case_prod_unfold)
qed

lemma resync_synced:
  assumes "venue_nonce E a k vn" "to_int32 (accountIndex g) = a" "apiKeyIndex g = k"
  shows "nonce_synced a k vn (resyncNonce E g)"
  using getNextNonce_answer[OF assms(1), of "g_rest g"] assms(2,3)
  by (simp add: nonce_synced_def resyncNonce_def on_rest_def Let_def case_prod_unfold)

lemma takeString_rest [simp]: "rest_of_world (snd (takeString p m)) = rest_of_world m"
  by (simp add: takeString_def split: option.splits)

lemma takeSigned_rest [simp]: "rest_of_world (snd (takeSigned r what m)) = rest_of_world m"
  by (simp add: takeSigned_def Let_def case_prod_unfold)

lemma sign_world_quiet:
  assumes "native_quiet E vn"
  shows "vn (rest_of_world (sign_world E sg c m)) = vn (rest_of_world m)"
  using assms by (cases c) (simp_all add: native_quiet_def sign_world_def signCreateOrder_def signCancelOrder_def
      createAuthToken_def Let_def case_prod_unfold)

lemma synced_world:
  "nonce_synced a k vn g \<Longrightarrow> vn (rest_of_world w) = vn (rest_of_world (world (g_rest g))) \<Longrightarrow>
     nonce_synced a k vn (set_world w g)"
  by (simp add: nonce_synced_def set_world_def)

lemma refresh_world:
  "refreshAuthTokenIfNeeded E g = (let g1 = set_world (snd (system_seconds E (world (g_rest g)))) g;
      now = fst (system_seconds E (world (g_rest g))); d = now + 8 * 3600 in
    if now < authTokenDeadline g - 3600 then g1
    else (let g2 = set_world (sign_world E (g_signer g) (Sign_token d) (world (g_rest g1))) g1
      in case fst (createAuthToken (nlib E) (g_signer g) d (world (g_rest g1))) of
           Inl e \<Rightarrow> g2 | Inr t \<Rightarrow> g2\<lparr>g_rest := setAuthToken t (g_rest g2), authTokenDeadline := d\<rparr>))"
  by (simp add: refreshAuthTokenIfNeeded_def on_mem_def set_world_def sign_world_def Let_def case_prod_unfold
      split: sum.splits)

lemma refresh_synced:
  assumes "venue_nonce E a k vn" "nonce_synced a k vn g"
  shows "nonce_synced a k vn (refreshAuthTokenIfNeeded E g)"
proof -
  have n: "native_quiet E vn" using assms(1) by (simp add: venue_nonce_def)
  then have "\<And>m. vn (rest_of_world (snd (system_seconds E m))) = vn (rest_of_world m)" by (simp add: native_quiet_def)
  then show ?thesis using assms(2) sign_world_quiet[OF n]
    by (auto simp: refresh_world Let_def nonce_synced_def set_world_def setAuthToken_def split: sum.splits)
qed

lemma sendTx_taken:
  assumes "venue_nonce E a k vn" "fst (sendTx (renv E) t i s) = Inr res" "st_code res = 200"
  shows "vn (rest_of_world (world (snd (sendTx (renv E) t i s)))) = vn (rest_of_world (world s)) + 1"
proof -
  let ?E = "renv E" and ?t = "throttle (renv E) s"
  have Q: "quiet ?E (\<lambda>m. vn (rest_of_world m))" using assms(1) by (simp add: venue_nonce_def)
  have t: "vn (rest_of_world (world ?t)) = vn (rest_of_world (world s))" using throttle_quiet[OF Q] by simp
  define r where "r = \<lparr>rq_verb = POST, rq_target = ''/api/v1/sendTx'', rq_host = uri ?t, rq_accept = ''*/*'',
      rq_userAgent = USER_AGENT, rq_contentType = Some ''application/x-www-form-urlencoded'',
      rq_authorization = auth_header (authToken ?t), rq_contentLength = Some (length (tx_body t i)), rq_body = tx_body t i\<rparr>"
  have post: "http_post ?E ''/api/v1/sendTx'' (tx_body t i) ?t =
      (fst (transport (net ?E) r (world ?t)), ?t\<lparr>world := snd (transport (net ?E) r (world ?t))\<rparr>)"
    by (simp add: http_post_def HTTPSession_postForm_def P_request_transport r_def Let_def case_prod_unfold)
  from assms(2) obtain h j where "fst (transport (net ?E) r (world ?t)) = Inr h" "rs_status h = 200"
      "json_parse ?E (rs_body h) = Inr j" "SendTxResult_fromJson (utils ?E) j SendTxResult_init = Inr res"
    by (auto simp: sendTx_def seq_def pure_def post checkTransport_def and_then_Inr_iff split: sum.splits if_splits)
  moreover have "rq_verb r = POST" by (simp add: r_def)
  ultimately have "vn (rest_of_world (snd (transport (net ?E) r (world ?t)))) = vn (rest_of_world (world ?t)) + 1"
    using assms(1,3) unfolding venue_nonce_def nonce_taken_def by blast
  then show ?thesis using t by (simp add: sendTx_state post)
qed

lemma sendSigned_synced:
  assumes "venue_nonce E a k vn" "nonce_synced a k vn g"
  shows "nonce_synced a k vn (snd (sendSigned E tx what g))"
proof -
  let ?g0 = "refreshAuthTokenIfNeeded E g"
  let ?s = "sendTx (renv E) (tx_type tx) (tx_info tx) (g_rest ?g0)"
  have g0: "nonce_synced a k vn ?g0" using refresh_synced[OF assms] .
  have re: "nonce_synced a k vn (resyncNonce E (?g0\<lparr>g_rest := snd ?s\<rparr>))"
    using g0 by (intro resync_synced[OF assms(1)]) (simp_all add: nonce_synced_def)
  show ?thesis using re g0 sendTx_taken[OF assms(1), of "tx_type tx" "tx_info tx" "g_rest ?g0"]
    by (auto simp: sendSigned_def on_rest_def Let_def case_prod_unfold nonce_synced_def split: sum.splits option.splits)
qed

lemma load_asset_fold: "I (fold load_asset as g) = I g"
  if "\<And>x h. I (load_asset x h) = I h"
  using that by (induction as arbitrary: g) simp_all

lemma load_synced:
  assumes "venue_nonce E a k vn" "nonce_synced a k vn g"
  shows "nonce_synced a k vn (snd (loadInstruments E g))"
proof -
  let ?g0 = "refreshAuthTokenIfNeeded E g"
  let ?g1 = "snd (on_rest (getPerpetualAssets (renv E) False) ?g0)"
  have Q: "quiet (renv E) (\<lambda>m. vn (rest_of_world m))" using assms(1) by (simp add: venue_nonce_def)
  have g1: "nonce_synced a k vn ?g1" using refresh_synced[OF assms]
      getPerpetualAssets_frame[of "renv E" False "g_rest ?g0" "\<lambda>m. vn (rest_of_world m)"] Q
    by (simp add: nonce_synced_def on_rest_def Let_def case_prod_unfold)
  have "nonce_synced a k vn (fold load_asset as ?g1)" for as
    using g1 by (subst load_asset_fold[where I = "nonce_synced a k vn"]) (simp_all add: nonce_synced_def load_asset_def)
  with g1 show ?thesis by (simp add: loadInstruments_def Let_def case_prod_unfold split: sum.splits)
qed

interpretation nonce: gateway_invariant E "\<lambda>g. venue_nonce E a k vn \<longrightarrow> nonce_synced a k vn g"
  for E :: "'v genv" and a k and vn :: "'v \<Rightarrow> int"
proof unfold_locales
  fix g symb cid i and q :: double and idx :: int and qc b
  let ?I = "\<lambda>g. venue_nonce E a k vn \<longrightarrow> nonce_synced a k vn g"
  assume I: "?I g"
  show "?I (snd (loadInstruments E g))" using I load_synced by blast
  show "?I (snd (market_of symb g))"
    using I by (auto simp: market_of_def Let_def nonce_synced_def split: option.splits)
  show "?I (snd (reserve cid symb i q g))" using I by (auto simp: reserve_def Let_def nonce_synced_def)
  show "?I (eraseOrderRec idx cid g)" using I by (auto simp: eraseOrderRec_def nonce_synced_def)
  show "?I (set_world (sign_world E (g_signer g) c (world (g_rest g))) g)" for c
    using I sign_world_quiet by (auto simp: venue_nonce_def intro!: synced_world)
  show "?I (set_world (snd (steady_now (renv E) (world (g_rest g)))) g) \<and>
       ?I (set_world (snd (system_seconds E (world (g_rest g)))) g)"
    using I by (auto simp: venue_nonce_def quiet_def native_quiet_def intro!: synced_world)
  show "?I (snd (sendSigned E tx what g))" for tx what using I sendSigned_synced by blast
  show "account_section idx order g = Some (rec, x, g1) \<Longrightarrow> ?I g1" for order rec x g1
    using I by (auto simp: account_section_def Let_def nonce_synced_def split: option.splits if_splits)
  show "?I (g\<lparr>quoteCache := qc\<rparr>)" "?I (g\<lparr>accountFeedLive := b\<rparr>)" "?I (g\<lparr>emptyWarns := idx\<rparr>)" "?I (g\<lparr>g_stream := m\<rparr>)" for m
    using I by (auto simp: nonce_synced_def)
qed

text \<open>The nonce counter stays the venue's next nonce.  However the sections of the application's operations
  and of the account feed interleave, and whatever becomes of the submissions (accepted, rejected, or lost with the
  nonce taken or not), after every section the counter is the nonce the venue expects, provided the nonce
  queries are answered.\<close>

theorem nonce_follows_venue:
  assumes "venue_nonce E a k vn" "nonce_synced a k vn g" "gw_run E g ls h"
  shows "nextNonce h = vn (rest_of_world (world (g_rest h)))"
  using nonce.run_kept[OF assms(3), of a k vn] assms(1,2) by (simp add: nonce_synced_def)

text \<open>An example: the world is the venue's nonce; a POST always takes it, but every other answer is lost.\<close>

definition lossy_renv :: "int mem env" where
  "lossy_renv = \<lparr>net = direct_net (\<lambda>r m. case rq_verb r of
        GET \<Rightarrow> (Inr \<lparr>rs_status = 200, rs_body = fmt_int (max 0 (rest_of_world m))\<rparr>, m)
      | POST \<Rightarrow> (if even (rest_of_world m) then Inr \<lparr>rs_status = 200, rs_body = ''0''\<rparr> else Inl (Runtime_error ''timeout''),
          m\<lparr>rest_of_world := max 0 (rest_of_world m) + 1\<rparr>)) (\<lambda>q. []),
     steady_now = (\<lambda>w. (0, w)), sleep_for = (\<lambda>d w. w),
     json_parse = (\<lambda>b. case strtol b of
         Some n \<Rightarrow> Inr (JObject [(''code'', JInt 200), (''nonce'', JInt n)])
       | None \<Rightarrow> Inl (Json_exception ''parse_error.101'')),
     json_dump = (\<lambda>j. Inr []),
     utils = plain_utils\<lparr>readInt64 := (\<lambda>j k d. case jfind k j of Some (JInt i) \<Rightarrow> Inr i | _ \<Rightarrow> Inr d)\<rparr>\<rparr>"

text \<open>Its library mints tokens that are the text of their deadline.\<close>

definition text_native :: "int native" where
  "text_native = null_native\<lparr>CreateAuthToken :=
     (\<lambda>d i a m. (\<lparr>soe_str = Some 0, soe_err = None\<rparr>, m\<lparr>heap := (heap m)(0 \<mapsto> fmt_int d)\<rparr>))\<rparr>"

definition lossy_genv :: "int genv" where
  "lossy_genv = demo_genv\<lparr>renv := lossy_renv, nlib := text_native\<rparr>"

lemma lossy_venue: "venue_nonce lossy_genv 1 2 (max 0)"
  by (auto simp: venue_nonce_def quiet_def native_quiet_def nonce_answered_def nonce_taken_def nonce_request_def
      lossy_genv_def lossy_renv_def demo_genv_def text_native_def null_native_def jfind_def is_object_def split: if_splits verb.splits)

theorem nonce_follows_venue_witness:
  "let g = run_ops lossy_genv [Op_limit ''a'' ''BTC'' Buy (fl 1) (fl 65000) False, Op_refresh,
        Op_market ''b'' ''BTC'' Sell (fl 1), Op_cancel ''a'' ''BTC''] demo_gateway
   in nextNonce g = max 0 (rest_of_world (world (g_rest g)))"
proof -
  have g: "nonce_synced 1 2 (max 0) demo_gateway"
    by (simp add: nonce_synced_def demo_gateway_def RESTClient_auth_def RESTClient_init_def Let_def to_int32_def)
  obtain ls where "gw_run lossy_genv demo_gateway ls (run_ops lossy_genv
     [Op_limit ''a'' ''BTC'' Buy (fl 1) (fl 65000) False, Op_refresh,
        Op_market ''b'' ''BTC'' Sell (fl 1), Op_cancel ''a'' ''BTC''] demo_gateway)"
    using run_ops_sections by blast
  from nonce_follows_venue[OF lossy_venue g this] show ?thesis unfolding Let_def .
qed

section \<open>The token\<close>

text \<open>What is relied on: \<open>expiry\<close> of a token is the deadline it was minted with, and a mint that fails says so.\<close>

definition mints :: "'v genv \<Rightarrow> (string \<Rightarrow> int) \<Rightarrow> bool" where
  "mints E expiry \<longleftrightarrow> (\<forall>d i a m. case CreateAuthToken (nlib E) d i a m of (resp, m') \<Rightarrow>
     (\<exists>p t. resp = \<lparr>soe_str = Some p, soe_err = None\<rparr> \<and> heap m' p = Some t \<and> expiry t = d) \<or>
     (\<exists>p e. resp = \<lparr>soe_str = None, soe_err = Some p\<rparr> \<and> heap m' p = Some e \<and> e \<noteq> []))"

definition token_deadline :: "(string \<Rightarrow> int) \<Rightarrow> 'v gateway \<Rightarrow> bool" where
  "token_deadline expiry g \<longleftrightarrow> expiry (authToken (g_rest g)) = authTokenDeadline g"

lemma mint_expiry:
  assumes "mints E expiry" "fst (createAuthToken (nlib E) sg d m) = Inr t"
  shows "expiry t = d"
proof -
  let ?c = "CreateAuthToken (nlib E) d (sg_apiKeyIndex sg) (sg_accountIndex sg) m"
  have "(\<exists>p t. fst ?c = \<lparr>soe_str = Some p, soe_err = None\<rparr> \<and> heap (snd ?c) p = Some t \<and> expiry t = d) \<or>
     (\<exists>p e. fst ?c = \<lparr>soe_str = None, soe_err = Some p\<rparr> \<and> heap (snd ?c) p = Some e \<and> e \<noteq> [])"
    using assms(1) unfolding mints_def case_prod_unfold by blast
  then show ?thesis using assms(2)
    by (auto simp: createAuthToken_def takeString_def Let_def case_prod_unfold)
qed

lemma refresh_token:
  assumes "mints E expiry" "token_deadline expiry g"
  shows "token_deadline expiry (refreshAuthTokenIfNeeded E g)"
  using assms mint_expiry[OF assms(1)]
  by (auto simp: refresh_world Let_def token_deadline_def set_world_def setAuthToken_def split: sum.splits)

lemma resync_token: "token_deadline expiry (resyncNonce E g) = token_deadline expiry g"
  by (simp add: resyncNonce_def on_rest_def token_deadline_def Let_def case_prod_unfold getNextNonce_state
      http_get_frame throttle_frame split: sum.splits)

lemma sendSigned_token:
  assumes "mints E expiry" "token_deadline expiry g"
  shows "token_deadline expiry (snd (sendSigned E tx what g))"
proof -
  have "token_deadline expiry (snd (on_rest (sendTx (renv E) (tx_type tx) (tx_info tx)) (refreshAuthTokenIfNeeded E g)))"
    using refresh_token[OF assms]
    by (simp add: on_rest_def token_deadline_def Let_def case_prod_unfold sendTx_state http_post_frame throttle_frame)
  then show ?thesis using resync_token
    by (auto simp: sendSigned_def Let_def case_prod_unfold token_deadline_def split: sum.splits option.splits)
qed

lemma load_token:
  assumes "mints E expiry" "token_deadline expiry g"
  shows "token_deadline expiry (snd (loadInstruments E g))"
proof -
  let ?g1 = "snd (on_rest (getPerpetualAssets (renv E) False) (refreshAuthTokenIfNeeded E g))"
  have g1: "token_deadline expiry ?g1" using refresh_token[OF assms] 
      getPerpetualAssets_frame[of "renv E" False "g_rest (refreshAuthTokenIfNeeded E g)" "\<lambda>w. ()"]
    by (simp add: on_rest_def token_deadline_def Let_def case_prod_unfold)
  have "token_deadline expiry (fold load_asset as ?g1)" for as
    using g1 by (subst load_asset_fold[where I = "token_deadline expiry"]) (simp_all add: token_deadline_def load_asset_def)
  with g1 show ?thesis by (simp add: loadInstruments_def Let_def case_prod_unfold split: sum.splits)
qed

interpretation token: gateway_invariant E "\<lambda>g. mints E expiry \<longrightarrow> token_deadline expiry g"
  for E :: "'v genv" and expiry
proof unfold_locales
  fix g :: "'v gateway" and symb cid i and q :: double and idx :: int and qc b
  let ?I = "\<lambda>g. mints E expiry \<longrightarrow> token_deadline expiry g"
  assume I: "?I g"
  show "?I (snd (loadInstruments E g))" using I load_token by blast
  show "?I (snd (market_of symb g))"
    using I by (auto simp: market_of_def Let_def token_deadline_def split: option.splits)
  show "?I (snd (reserve cid symb i q g))" using I by (auto simp: reserve_def Let_def token_deadline_def)
  show "?I (eraseOrderRec idx cid g)" using I by (auto simp: eraseOrderRec_def token_deadline_def)
  show "?I (set_world (sign_world E (g_signer g) c (world (g_rest g))) g)"
    "?I (set_world (snd (steady_now (renv E) (world (g_rest g)))) g) \<and>
       ?I (set_world (snd (system_seconds E (world (g_rest g)))) g)" for c
    using I by (simp_all add: token_deadline_def set_world_def)
  show "?I (snd (sendSigned E tx what g))" for tx what using I sendSigned_token by blast
  show "account_section idx order g = Some (rec, x, g1) \<Longrightarrow> ?I g1" for order rec x g1
    using I by (auto simp: account_section_def Let_def token_deadline_def split: option.splits if_splits)
  show "?I (g\<lparr>quoteCache := qc\<rparr>)" "?I (g\<lparr>accountFeedLive := b\<rparr>)" "?I (g\<lparr>emptyWarns := idx\<rparr>)" "?I (g\<lparr>g_stream := m\<rparr>)" for m
    using I by (auto simp: token_deadline_def)
qed


text \<open>An example.\<close>

definition text_genv :: "int genv" where
  "text_genv = demo_genv\<lparr>nlib := text_native\<rparr>"


end
