(* ===== verification/Gateway_Events.thy ===== *)
theory Gateway_Events
  imports Gateway_Nonce
begin

text \<open>
  The account feed: which order an event belongs to, what it adds to the order's fill, and what
  reaches the application.  All of it over runs of the gateway in which order operations, quotes
  and account messages come in any order.
\<close>

section \<open>One event\<close>

text \<open>The cumulative fill an event reports, clamped to what was submitted.\<close>

definition clamped :: "OrderRec \<Rightarrow> double \<Rightarrow> double" where
  "clamped rec c = (if submittedQty rec > 0 \<and> c > submittedQty rec * fl (1001 / 1000) then submittedQty rec else c)"

definition same_order :: "OrderRec \<Rightarrow> OrderRec \<Rightarrow> bool" where
  "same_order rec rec' \<longleftrightarrow> or_clientOrderId rec' = or_clientOrderId rec \<and> or_symbol rec' = or_symbol rec \<and>
     or_marketId rec' = or_marketId rec \<and> submittedQty rec' = submittedQty rec \<and>
     (0 \<le> or_orderIndex rec \<longrightarrow> or_orderIndex rec' = or_orderIndex rec) \<and>
     \<not> cumFilledBase rec' < cumFilledBase rec"

lemma same_order_refl: "same_order rec rec"
  by (simp add: same_order_def)

lemma same_order_trans:
  "same_order a b \<Longrightarrow> cumFilledBase b = cumFilledBase a \<or> cumFilledBase a < cumFilledBase b \<Longrightarrow> same_order b c \<Longrightarrow>
     cumFilledBase c = cumFilledBase b \<or> cumFilledBase b < cumFilledBase c \<Longrightarrow> same_order a c"
  by (auto simp: same_order_def dest: double_less_trans double_less_asym)

text \<open>What the section under the lock does, case by case.\<close>

lemma account_section_Some:
  assumes "account_section idx order g = Some (rec', newFill, g1)"
  obtains rec where "ordersByIndex g idx = Some rec" "g1 = g\<lparr>ordersByIndex := (ordersByIndex g)(idx \<mapsto> rec')\<rparr>"
    "same_order rec rec'"
    "(if clamped rec (readStr order ''filled_base_amount'') > cumFilledBase rec
      then cumFilledBase rec' = clamped rec (readStr order ''filled_base_amount'') \<and>
           newFill = clamped rec (readStr order ''filled_base_amount'') - cumFilledBase rec
      else cumFilledBase rec' = cumFilledBase rec \<and> newFill = 0)"
    "or_orderIndex rec' = (if or_orderIndex rec < 0 \<and> 0 \<le> readInt order ''order_index'' (- 1)
       then readInt order ''order_index'' (- 1) else or_orderIndex rec)"
proof -
  let ?oi = "readInt order ''order_index'' (- 1)" and ?c = "readStr order ''filled_base_amount''"
  obtain rec where rec: "ordersByIndex g idx = Some rec"
    using assms by (cases "ordersByIndex g idx") (auto simp: account_section_def)
  define rec1 where "rec1 = (if ?oi \<ge> 0 \<and> or_orderIndex rec < 0 then rec\<lparr>or_orderIndex := ?oi\<rparr> else rec)"
  have r1: "same_order rec rec1" "cumFilledBase rec1 = cumFilledBase rec" "submittedQty rec1 = submittedQty rec"
    "or_orderIndex rec1 = (if or_orderIndex rec < 0 \<and> 0 \<le> ?oi then ?oi else or_orderIndex rec)"
    by (simp_all add: rec1_def same_order_def)
  have "(rec', newFill, g1) = (let rec2 = (if clamped rec ?c > cumFilledBase rec then rec1\<lparr>cumFilledBase := clamped rec ?c\<rparr> else rec1)
      in (rec2, if clamped rec ?c > cumFilledBase rec then clamped rec ?c - cumFilledBase rec else 0,
          g\<lparr>ordersByIndex := (ordersByIndex g)(idx \<mapsto> rec2)\<rparr>))"
    using assms rec r1(2,3) unfolding account_section_def rec1_def[symmetric] clamped_def
    by (simp only: option.case Let_def rec1_def[symmetric] split: if_splits) auto
  then show ?thesis using that[OF rec] r1
    by (cases "clamped rec ?c > cumFilledBase rec") (simp_all add: Let_def same_order_def double_less_asym)
qed

section \<open>Identity\<close>

text \<open>A client order index names one order for good: its record is the one entered at submission, or gone.\<close>

definition keeps_order :: "int \<Rightarrow> OrderRec \<Rightarrow> 'v gateway \<Rightarrow> bool" where
  "keeps_order idx rec g \<longleftrightarrow> idx < clientOrderCounter g \<and>
     (\<forall>rec'. ordersByIndex g idx = Some rec' \<longrightarrow> same_order rec rec' \<and>
        (cumFilledBase rec' = cumFilledBase rec \<or> cumFilledBase rec < cumFilledBase rec'))"

lemma section_keeps:
  assumes "keeps_order i rec g" "account_section idx order g = Some (rec', x, g1)"
  shows "keeps_order i rec g1"
  using assms(2)
proof (cases rule: account_section_Some)
  case (1 r)
  then have m: "cumFilledBase rec' = cumFilledBase r \<or> cumFilledBase r < cumFilledBase rec'" by (simp split: if_splits)
  show ?thesis
  proof (cases "idx = i")
    case True
    with assms(1) 1(1) have r: "same_order rec r" "cumFilledBase r = cumFilledBase rec \<or> cumFilledBase rec < cumFilledBase r"
      by (auto simp: keeps_order_def)
    have "same_order rec rec'" using same_order_trans[OF r 1(3) m] .
    moreover have "cumFilledBase rec' = cumFilledBase rec \<or> cumFilledBase rec < cumFilledBase rec'"
      using r(2) m double_less_trans by metis
    ultimately show ?thesis using assms(1) 1(2) True by (simp add: keeps_order_def)
  next
    case False
    with assms(1) 1(2) show ?thesis by (simp add: keeps_order_def)
  qed
qed

lemma same_orders_load: "same_orders g (snd (loadInstruments E g))"
proof -
  let ?g1 = "snd (on_rest (getPerpetualAssets (renv E) False) (refreshAuthTokenIfNeeded E g))"
  have g1: "same_orders g ?g1" using refresh_frame on_rest_frame same_orders_trans by blast
  have "same_orders g (fold load_asset as ?g1)" for as
    using g1 by (subst load_asset_fold[where I = "same_orders g"]) (simp_all add: same_orders_def load_asset_def)
  with g1 show ?thesis by (simp add: loadInstruments_def Let_def case_prod_unfold split: sum.splits)
qed

text \<open>A predicate on the order maps and the counter only, kept by entering, erasing and the account section.\<close>

lemma order_invariant:
  fixes E :: "'v genv"
  assumes frame: "\<And>g g' :: 'v gateway. ordersByIndex g' = ordersByIndex g \<Longrightarrow> clientIdToIndex g' = clientIdToIndex g \<Longrightarrow>
        clientOrderCounter g' = clientOrderCounter g \<Longrightarrow> I g \<Longrightarrow> I g'"
    and enter: "\<And>g cid symb i q. I g \<Longrightarrow> I (snd (reserve cid symb i q g))"
    and erase: "\<And>g idx cid. I g \<Longrightarrow> I (eraseOrderRec idx cid g)"
    and event: "\<And>g idx order rec x g1. I g \<Longrightarrow> account_section idx order g = Some (rec, x, g1) \<Longrightarrow> I g1"
  shows "gateway_invariant E I"
proof -
  have f: "same_orders g g' \<Longrightarrow> I g \<Longrightarrow> I g'" for g g' using frame by (simp add: same_orders_def)
  show ?thesis
  proof unfold_locales
    fix g :: "'v gateway" and symb w c tx what and q :: "string \<rightharpoonup> Quote" and b and k :: int
    assume I: "I g"
    show "I (snd (loadInstruments E g))" using f[OF same_orders_load I] .
    show "I (snd (market_of symb g))" using market_of_frame[of symb g] f I by (metis prod.collapse)
    show "I (set_world (sign_world E (g_signer g) c (world (g_rest g))) g)"
      "I (set_world (snd (steady_now (renv E) (world (g_rest g)))) g) \<and> I (set_world (snd (system_seconds E (world (g_rest g)))) g)"
      using I frame by (auto simp: set_world_def)
    show "I (snd (sendSigned E tx what g))" using f[OF sendSigned_frame I] .
    show "I (g\<lparr>quoteCache := q\<rparr>)" "I (g\<lparr>accountFeedLive := b\<rparr>)" "I (g\<lparr>emptyWarns := k\<rparr>)" "I (g\<lparr>g_stream := m\<rparr>)" for m
      using I frame by auto
  qed (use enter erase event in blast)+
qed

interpretation identity: gateway_invariant E "keeps_order i rec" for E :: "'v genv" and i rec
proof (rule order_invariant)
  fix g :: "'v gateway" and cid symb mi q idx
  assume k: "keeps_order i rec g"
  show "keeps_order i rec (snd (reserve cid symb mi q g))"
    using k by (auto simp: keeps_order_def reserve_def Let_def)
  show "keeps_order i rec (eraseOrderRec idx cid g)" using k by (auto simp: keeps_order_def eraseOrderRec_def)
qed (use section_keeps in \<open>blast | simp add: keeps_order_def\<close>)+

text \<open>An order keeps its identity.  Whatever comes after, the record under a client order index is the one entered
  for it, with the client id, symbol, market and quantity it was submitted with, the venue index it was first
  acknowledged with, and a cumulative fill that never decreases; or there is no record.\<close>

theorem order_identity_stable:
  assumes "ordersByIndex g idx = Some rec" "idx < clientOrderCounter g" "gw_run E g ls h"
  shows "case ordersByIndex h idx of None \<Rightarrow> True | Some rec' \<Rightarrow> same_order rec rec'"
proof -
  have "keeps_order idx rec g" using assms by (simp add: keeps_order_def same_order_refl)
  with assms(3) have "keeps_order idx rec h" by (rule identity.run_kept)
  then show ?thesis by (simp add: keeps_order_def split: option.splits)
qed

text \<open>An order of the example gateway, acknowledged by an event and then filled.\<close>

definition demo_order :: OrderRec where
  "demo_order = order_rec ''a'' ''BTC'' 1 (fl 1)"

definition demo_open :: "int gateway" where
  "demo_open = demo_gateway\<lparr>ordersByIndex := [999 \<mapsto> demo_order], clientIdToIndex := [''a'' \<mapsto> 999]\<rparr>"

definition demo_event_msg :: "string \<Rightarrow> int \<Rightarrow> string \<Rightarrow> json" where
  "demo_event_msg status oi filled = JObject [(''type'', JString ''update/account_all_orders''),
     (''orders'', JArray [JObject [(''client_order_index'', JInt 999), (''order_index'', JInt oi),
        (''status'', JString status), (''filled_base_amount'', JString filled), (''price'', JString ''65000'')]])]"

theorem order_identity_stable_witness:
  "case ordersByIndex (run_ops demo_genv [Op_account (demo_event_msg ''open'' 77 ''0''), Op_cancel ''a'' ''BTC'',
      Op_limit ''b'' ''BTC'' Buy (fl 1) (fl 65000) False] demo_open) 999 of
     None \<Rightarrow> True | Some rec' \<Rightarrow> same_order demo_order rec'"
proof -
  obtain ls where r: "gw_run demo_genv demo_open ls (run_ops demo_genv [Op_account (demo_event_msg ''open'' 77 ''0''),
      Op_cancel ''a'' ''BTC'', Op_limit ''b'' ''BTC'' Buy (fl 1) (fl 65000) False] demo_open)"
    using run_ops_sections by blast
  show ?thesis by (rule order_identity_stable[OF _ _ r]) (simp_all add: demo_open_def demo_gateway_def)
qed

section \<open>The client ids\<close>

text \<open>Indices are below the counter, so a new order gets a fresh one; a client id leads to its own order.\<close>

definition ids_ok :: "'v gateway \<Rightarrow> bool" where
  "ids_ok g \<longleftrightarrow> (\<forall>idx rec. ordersByIndex g idx = Some rec \<longrightarrow> idx < clientOrderCounter g \<and> 0 \<le> cumFilledBase rec) \<and>
     (\<forall>cid idx. clientIdToIndex g cid = Some idx \<longrightarrow> idx < clientOrderCounter g \<and>
        (\<forall>rec. ordersByIndex g idx = Some rec \<longrightarrow> or_clientOrderId rec = cid))"

lemma section_ids:
  assumes "ids_ok g" "account_section idx order g = Some (rec', x, g1)"
  shows "ids_ok g1"
  using assms(2)
proof (cases rule: account_section_Some)
  case (1 r)
  have "0 \<le> cumFilledBase r" "idx < clientOrderCounter g" using assms(1) 1(1) by (auto simp: ids_ok_def)
  moreover from this(1) 1(4) have "0 \<le> cumFilledBase rec'"
    by (auto simp: less_eq_double_def intro: double_less_trans split: if_splits)
  ultimately show ?thesis using assms(1) 1 by (auto simp: ids_ok_def same_order_def)
qed

interpretation ids: gateway_invariant E ids_ok for E :: "'v genv"
proof (rule order_invariant)
  fix g :: "'v gateway" and cid symb mi q idx
  assume k: "ids_ok g"
  have z: "(0::double) \<le> 0" by (simp add: zero_double_def)
  show "ids_ok (snd (reserve cid symb mi q g))"
    unfolding ids_ok_def reserve_def Let_def
    using k z by (fastforce simp: ids_ok_def split: if_splits)
  show "ids_ok (eraseOrderRec idx cid g)" using k by (auto simp: ids_ok_def eraseOrderRec_def split: if_splits)
next
  fix g g' :: "'v gateway"
  show "ordersByIndex g' = ordersByIndex g \<Longrightarrow> clientIdToIndex g' = clientIdToIndex g \<Longrightarrow>
        clientOrderCounter g' = clientOrderCounter g \<Longrightarrow> ids_ok g \<Longrightarrow> ids_ok g'"
    by (simp add: ids_ok_def)
qed (fact section_ids)

text \<open>The order maps stay consistent in every run: every index in them is one the counter has
  passed, a client id leads to the order submitted under it, and no cumulative fill is negative or NaN.\<close>

theorem order_maps_consistent:
  assumes "ids_ok g" "gw_run E g ls h"
  shows "ids_ok h"
  using ids.run_kept assms(2,1) .

theorem order_maps_consistent_witness:
  "ids_ok (run_ops demo_genv [Op_limit ''b'' ''BTC'' Buy (fl 1) (fl 65000) False,
     Op_account (demo_event_msg ''filled'' 77 ''1'')] demo_open)"
proof -
  have g: "ids_ok demo_open"
    by (simp add: ids_ok_def demo_open_def demo_gateway_def demo_order_def order_rec_def zero_double_def)
  show ?thesis using run_ops_sections order_maps_consistent[OF g] by blast
qed

section \<open>Finished orders\<close>

definition gone :: "int \<Rightarrow> 'v gateway \<Rightarrow> bool" where
  "gone idx g \<longleftrightarrow> idx < clientOrderCounter g \<and> ordersByIndex g idx = None"

lemma section_gone:
  assumes "gone i g" "account_section idx order g = Some (rec', x, g1)"
  shows "gone i g1"
  using assms(2) by (cases rule: account_section_Some) (use assms(1) in \<open>auto simp: gone_def\<close>)

interpretation finished: gateway_invariant E "gone i" for E :: "'v genv" and i
proof (rule order_invariant)
  fix g :: "'v gateway" and cid symb mi q idx
  assume k: "gone i g"
  show "gone i (snd (reserve cid symb mi q g))" using k by (auto simp: gone_def reserve_def Let_def)
  show "gone i (eraseOrderRec idx cid g)" using k by (auto simp: gone_def eraseOrderRec_def)
next
  fix g g' :: "'v gateway"
  show "ordersByIndex g' = ordersByIndex g \<Longrightarrow> clientIdToIndex g' = clientIdToIndex g \<Longrightarrow>
        clientOrderCounter g' = clientOrderCounter g \<Longrightarrow> gone i g \<Longrightarrow> gone i g'"
    by (simp add: gone_def)
qed (fact section_gone)


definition demo_event_order :: "string \<Rightarrow> string \<Rightarrow> json" where
  "demo_event_order status filled = JObject [(''client_order_index'', JInt 999), (''order_index'', JInt 77),
     (''status'', JString status), (''filled_base_amount'', JString filled), (''price'', JString ''65000'')]"

lemma demo_open_ids: "ids_ok demo_open"
  by (simp add: ids_ok_def demo_open_def demo_gateway_def demo_order_def order_rec_def zero_double_def)

lemma demo_event_index: "readInt (demo_event_order status filled) ''client_order_index'' (- 1) = 999"
  "readInt (demo_event_order status filled) ''order_index'' (- 1) = 77"
  by (simp_all add: readInt_def demo_event_order_def jfind_def to_int64_def)

lemma demo_event_section: "\<exists>rec x g1. account_section 999 (demo_event_order status filled) demo_open = Some (rec, x, g1)"
  by (simp add: account_section_def demo_open_def demo_order_def order_rec_def demo_event_index Let_def)

lemma demo_event_runs: "\<exists>g' os. account_order E (demo_event_order status filled) demo_open = (Inr (), g', os)"
proof -
  obtain rec x g1 where s: "account_section 999 (demo_event_order status filled) demo_open = Some (rec, x, g1)"
    using demo_event_section by blast
  have "cumFilledKey E (demo_event_order status filled) = Inr filled"
    by (simp add: cumFilledKey_def demo_event_order_def jfind_def)
  then have "\<exists>fs. fill_outputs E i (demo_event_order status filled) rec x p g1 = Inr fs" for i p
    by (simp add: fill_outputs_def)
  then obtain fs where "fill_outputs E 999 (demo_event_order status filled) rec x
      (event_price E (demo_event_order status filled) (or_symbol rec) g1) g1 = Inr fs" by blast
  with s show ?thesis by (simp add: account_order_def demo_event_index Let_def)
qed


section \<open>Fills\<close>

text \<open>What the application is told in a run.\<close>

fun op_outs :: "'v genv \<Rightarrow> gateway_op \<Rightarrow> 'v gateway \<Rightarrow> gout list" where
  "op_outs E (Op_book i b a) g = snd (onBook E i b a g)"
| "op_outs E (Op_account msg) g = snd (snd (onAccountMessage E msg g))"
| "op_outs E _ g = []"

fun run_outs :: "'v genv \<Rightarrow> gateway_op list \<Rightarrow> 'v gateway \<Rightarrow> gout list" where
  "run_outs E [] g = []"
| "run_outs E (x # xs) g = op_outs E x g @ run_outs E xs (run_op E x g)"

definition fills_of :: "gout list \<Rightarrow> FillEvent list" where
  "fills_of os = concat (map (\<lambda>x. case x of Fill f \<Rightarrow> [f] | _ \<Rightarrow> []) os)"

lemma fills_of_append [simp]: "fills_of [] = []" "fills_of (xs @ ys) = fills_of xs @ fills_of ys"
  by (simp_all add: fills_of_def)

text \<open>The venue gives the cumulative fill as a string (or leaves it out).\<close>

definition string_amount :: "json \<Rightarrow> bool" where
  "string_amount order \<longleftrightarrow> (case jfind ''filled_base_amount'' order of
     None \<Rightarrow> True | Some (JString _) \<Rightarrow> True | _ \<Rightarrow> False)"

fun string_amounts :: "gateway_op \<Rightarrow> bool" where
  "string_amounts (Op_account msg) = list_all string_amount (message_orders msg)"
| "string_amounts _ = True"

definition amount :: "string \<Rightarrow> double" where
  "amount key = (case stod key of Some x \<Rightarrow> x | None \<Rightarrow> 0)"

definition fill_id :: "int \<times> string \<Rightarrow> string" where
  "fill_id p = fmt_int (fst p) @ ''-'' @ snd p"

lemma amount_zero: "amount ''0'' = 0"
proof -
  have s: "take_sign (dropWhile isspace ''0'') = (False, ''0'')" "\<not> starts_with (map tolower ''0'') ''inf''"
    "\<not> starts_with (map tolower ''0'') ''nan''"
    by code_simp+
  have m: "significand 10 isdigit ''0'' = Some (0, 0, '''')" by code_simp
  have x: "map tolower (take 2 ''0'') \<noteq> ''0x''" by code_simp
  have u: "unsigned_number ''0'' = Some 0"
    unfolding unsigned_number_def using m x by simp
  have "to_double_checked 0 = Some 0"
    by (simp add: to_double_checked_def finite_double_def zero_double_def)
  then have "stod ''0'' = Some 0" unfolding stod_def using s u by simp
  then show ?thesis by (simp add: amount_def)
qed

lemma key_amount: "string_amount order \<Longrightarrow> cumFilledKey E order = Inr key \<Longrightarrow> readStr order ''filled_base_amount'' = amount key"
  using amount_zero
  by (auto simp: string_amount_def cumFilledKey_def readStr_def amount_def split: option.splits json.splits)

lemma fill_id_inj: "inj_on fill_id {p. 0 \<le> fst p}"
proof (rule inj_onI)
  fix p q :: "int \<times> string"
  assume p: "p \<in> {p. 0 \<le> fst p}" and q: "q \<in> {p. 0 \<le> fst p}" and e: "fill_id p = fill_id q"
  have d: "\<not> isdigit (CHR ''-'')" by (simp add: isdigit_def char_code_def)
  have t: "takeWhile isdigit (fill_id r) = fmt_int (fst r)" if "0 \<le> fst r" for r :: "int \<times> string"
  proof -
    have "list_all isdigit (fmt_int (fst r))" using that dec_digits_digits by (simp add: fmt_int_def)
    then have "\<forall>x\<in>set (fmt_int (fst r)). isdigit x" by (simp add: list_all_iff)
    then show ?thesis using d by (simp add: fill_id_def takeWhile_append2)
  qed
  have f: "fmt_int (fst p) = fmt_int (fst q)" using t[of p] t[of q] p q e by simp
  then have "fst p = fst q" by (simp only: fmt_int_inject)
  moreover have "snd p = snd q" using e f by (simp add: fill_id_def)
  ultimately show "p = q" by (simp add: prod_eq_iff)
qed

text \<open>The fills of the past: an index and the text of its cumulative fill.  A record that is still there has
  reached each of them.\<close>

definition reached :: "(int \<times> string) set \<Rightarrow> 'v gateway \<Rightarrow> bool" where
  "reached S g \<longleftrightarrow> (\<forall>i key. (i, key) \<in> S \<longrightarrow> i < clientOrderCounter g \<and>
     (\<forall>rec. ordersByIndex g i = Some rec \<longrightarrow> \<not> cumFilledBase rec < clamped rec (amount key)))"

lemma clamped_same: "same_order rec rec' \<Longrightarrow> clamped rec' c = clamped rec c"
  by (simp add: clamped_def same_order_def)

lemma section_reached:
  assumes "reached S g" "account_section idx order g = Some (rec', x, g1)"
  shows "reached S g1"
  using assms(2)
proof (cases rule: account_section_Some)
  case (1 r)
  have "\<not> cumFilledBase rec' < clamped rec' c" if "\<not> cumFilledBase r < clamped r c" for c
    using that 1(4) clamped_same[OF 1(3), of c] by (auto dest: double_less_trans split: if_splits)
  then show ?thesis using assms(1) 1(1,2) by (auto simp: reached_def split: if_splits)
qed

interpretation past_fills: gateway_invariant E "reached S" for E :: "'v genv" and S
proof (rule order_invariant)
  fix g :: "'v gateway" and cid symb mi q idx
  assume k: "reached S g"
  show "reached S (snd (reserve cid symb mi q g))" 
    using k by (fastforce simp: reached_def reserve_def Let_def split: if_splits)
  show "reached S (eraseOrderRec idx cid g)" using k by (auto simp: reached_def eraseOrderRec_def split: if_splits)
next
  fix g g' :: "'v gateway"
  show "ordersByIndex g' = ordersByIndex g \<Longrightarrow> clientIdToIndex g' = clientIdToIndex g \<Longrightarrow>
        clientOrderCounter g' = clientOrderCounter g \<Longrightarrow> reached S g \<Longrightarrow> reached S g'"
    by (simp add: reached_def)
qed (fact section_reached)

lemma reached_Un: "reached (A \<union> B) g \<longleftrightarrow> reached A g \<and> reached B g"
  by (auto simp: reached_def)

text \<open>New fills of a list of outputs, relative to the past ones.\<close>

definition new_fills :: "(int \<times> string) set \<Rightarrow> (int \<times> string) list \<Rightarrow> gout list \<Rightarrow> bool" where
  "new_fills S L os \<longleftrightarrow> map fe_fillId (fills_of os) = map fill_id L \<and> distinct L \<and> set L \<inter> S = {} \<and>
     (\<forall>p\<in>set L. 0 \<le> fst p)"

lemma new_fills_Nil: "fills_of os = [] \<Longrightarrow> new_fills S [] os"
  by (simp add: new_fills_def)

lemma new_fills_append:
  "new_fills S L os \<Longrightarrow> new_fills (S \<union> set L) M ps \<Longrightarrow> new_fills S (L @ M) (os @ ps)"
  by (auto simp: new_fills_def)

lemma fills_of_updates: "fills_of (update_outputs order rec status price g) = []"
  by (simp add: update_outputs_def fills_of_def)

lemma section_new_fill:
  assumes "reached S g" "ids_ok g" "account_section idx order g = Some (rec', x, g1)" "0 < x"
    and "readStr order ''filled_base_amount'' = amount key"
  shows "(idx, key) \<notin> S" "reached {(idx, key)} g1"
proof -
  from assms(3) have "(idx, key) \<notin> S \<and> reached {(idx, key)} g1"
  proof (cases rule: account_section_Some)
    case (1 r)
    let ?c = "clamped r (amount key)"
    have up: "cumFilledBase r < ?c" "cumFilledBase rec' = ?c"
      using 1(4) assms(4,5) by (auto split: if_splits)
    have "(idx, key) \<notin> S" using assms(1) 1(1) up(1) by (auto simp: reached_def)
    moreover have "idx < clientOrderCounter g1" using assms(2) 1(1,2) by (auto simp: ids_ok_def)
    then have "reached {(idx, key)} g1" using 1(2) up(2) clamped_same[OF 1(3)] by (simp add: reached_def)
    ultimately show ?thesis by blast
  qed
  then show "(idx, key) \<notin> S" "reached {(idx, key)} g1" by simp_all
qed

lemma account_order_fills:
  assumes "reached S g" "ids_ok g" "string_amount order"
  shows "\<exists>L. new_fills S L (snd (snd (account_order E order g))) \<and> reached (S \<union> set L) (fst (snd (account_order E order g)))"
proof (cases "account_section (readInt order ''client_order_index'' (- 1)) order g")
  case None
  then show ?thesis using assms(1) new_fills_Nil[of "[]" S]
    by (intro exI[of _ "[]"]) (auto simp: account_order_def Let_def split: sum.splits)
next
  case (Some t)
  obtain rec' x g1 where t: "t = (rec', x, g1)" by (cases t) auto
  let ?i = "readInt order ''client_order_index'' (- 1)" and ?p = "event_price E order (or_symbol rec') g1"
  note s = Some[unfolded t]
  have "\<exists>key. cumFilledKey E order = Inr key"
    using assms(3) by (auto simp: cumFilledKey_def string_amount_def split: option.splits json.splits)
  then have "\<exists>fs. fill_outputs E ?i order rec' x ?p g1 = Inr fs" by (auto simp: fill_outputs_def)
  then obtain fs where fs: "fill_outputs E ?i order rec' x ?p g1 = Inr fs" by blast
  have past: "reached S g1" using section_reached[OF assms(1) s] .
  have "\<exists>L. new_fills S L fs \<and> reached (S \<union> set L) g1" if "0 \<le> ?i"
  proof (cases "fillCB g1 \<and> x > 0")
    case False
    with fs past show ?thesis by (intro exI[of _ "[]"]) (auto simp: fill_outputs_def new_fills_def)
  next
    case True
    then obtain key where key: "cumFilledKey E order = Inr key" "fills_of fs = [\<lparr>fe_clientOrderId = or_clientOrderId rec',
        fe_symbol = or_symbol rec', fe_fillId = fill_id (?i, key), fe_qty = x, fe_price = ?p, fe_isMaker = True\<rparr>]"
      using fs by (auto simp: fill_outputs_def and_then_Inr_iff fills_of_def fill_id_def)
    have "0 < x" using True by simp
    note new = section_new_fill[OF assms(1,2) s this key_amount[OF assms(3) key(1)]]
    show ?thesis using new past key(2) that
      by (intro exI[of _ "[(?i, key)]"]) (simp add: new_fills_def reached_Un[of S "{(?i, key)}", simplified])
  qed
  moreover have "new_fills S L fs \<Longrightarrow> new_fills S L (fs @ update_outputs order rec' st ?p g1)" for L st
    by (simp add: new_fills_def fills_of_updates)
  moreover have "reached A g1 \<Longrightarrow> reached A (eraseOrderRec i c g1)" for A i c using past_fills.erase .
  ultimately show ?thesis using s fs assms(1) new_fills_Nil[of "[]" S]
    by (cases "0 \<le> ?i") (fastforce simp: account_order_def Let_def split: sum.splits)+
qed

lemma account_orders_fills:
  assumes "reached S g" "ids_ok g" "list_all string_amount xs"
  shows "\<exists>L. new_fills S L (snd (snd (account_orders E xs g))) \<and> reached (S \<union> set L) (fst (snd (account_orders E xs g)))"
  using assms
proof (induction xs arbitrary: S g)
  case Nil
  then show ?case by (intro exI[of _ "[]"]) (simp add: new_fills_Nil)
next
  case (Cons x xs)
  let ?r = "account_order E x g"
  obtain L where L: "new_fills S L (snd (snd ?r))" "reached (S \<union> set L) (fst (snd ?r))"
    using account_order_fills[of S g x E] Cons.prems by auto
  have ids: "ids_ok (fst (snd ?r))" using ids.account_order_kept Cons.prems(2) .
  obtain M where M: "new_fills (S \<union> set L) M (snd (snd (account_orders E xs (fst (snd ?r)))))"
    "reached (S \<union> set L \<union> set M) (fst (snd (account_orders E xs (fst (snd ?r)))))"
    using Cons.IH[OF L(2) ids] Cons.prems(3) by auto
  show ?case
  proof (cases "fst ?r")
    case (Inl e)
    then show ?thesis using L by (auto simp: Let_def case_prod_unfold)
  next
    case (Inr u)
    then show ?thesis using new_fills_append[OF L(1) M(1)] M(2)
      by (intro exI[of _ "L @ M"]) (simp add: Let_def case_prod_unfold Un_assoc)
  qed
qed

lemma message_fills:
  assumes "reached S g" "ids_ok g" "list_all string_amount (message_orders msg)"
  shows "\<exists>L. new_fills S L (snd (snd (onAccountMessage E msg g))) \<and> reached (S \<union> set L) (fst (snd (onAccountMessage E msg g)))"
proof (cases "snd (snd (onAccountMessage E msg g)) = []")
  case True
  then show ?thesis using past_fills.account_message_kept[OF assms(1)]
    by (intro exI[of _ "[]"]) (simp add: new_fills_Nil)
next
  case False
  obtain X where X: "account_orders E (message_orders msg) (g\<lparr>accountFeedLive := True\<rparr>) = X" by blast
  have "onAccountMessage E msg g = X \<or> snd (snd (onAccountMessage E msg g)) = []"
    unfolding onAccountMessage_def Let_def X by (simp split: sum.split)
  with False have "onAccountMessage E msg g = account_orders E (message_orders msg) (g\<lparr>accountFeedLive := True\<rparr>)"
    unfolding X by blast
  then show ?thesis
    using account_orders_fills[OF past_fills.live[OF assms(1)] ids.live[OF assms(2)] assms(3)] by simp
qed

lemma run_fills:
  assumes "reached S g" "ids_ok g" "list_all string_amounts ops"
  shows "\<exists>L. new_fills S L (run_outs E ops g)"
  using assms
proof (induction ops arbitrary: S g)
  case Nil
  then show ?case by (intro exI[of _ "[]"]) (simp add: new_fills_Nil)
next
  case (Cons x xs)
  have ids: "ids_ok (run_op E x g)" using ids.run_op_kept Cons.prems(2) .
  have "\<exists>L. new_fills S L (op_outs E x g) \<and> reached (S \<union> set L) (run_op E x g)"
  proof (cases "\<exists>msg. x = Op_account msg")
    case True
    then show ?thesis using message_fills[OF Cons.prems(1,2)] Cons.prems(3) by auto
  next
    case False
    then have "fills_of (op_outs E x g) = []"
      by (cases x) (auto simp: onBook_def Let_def case_prod_unfold fills_of_def)
    then show ?thesis using past_fills.run_op_kept[OF Cons.prems(1)]
      by (intro exI[of _ "[]"]) (simp add: new_fills_Nil)
  qed
  then obtain L where L: "new_fills S L (op_outs E x g)" "reached (S \<union> set L) (run_op E x g)" by blast
  then obtain M where "new_fills (S \<union> set L) M (run_outs E xs (run_op E x g))"
    using Cons.IH[OF L(2) ids] Cons.prems(3) by auto
  then show ?case using new_fills_append[OF L(1)] by auto
qed

text \<open>No fill is reported twice.  In a run whose account messages give cumulative fills as strings, as the
  venue does, the ids of all the fill events are different, whatever is redelivered (snapshots after a
  reconnect included), reordered, or mixed with new orders.\<close>

theorem fill_ids_never_repeat:
  assumes "ids_ok g" "list_all string_amounts ops"
  shows "distinct (map fe_fillId (fills_of (run_outs E ops g)))"
proof -
  have "reached {} g" by (simp add: reached_def)
  from run_fills[OF this assms] obtain L where L: "new_fills {} L (run_outs E ops g)" by blast
  then have "inj_on fill_id (set L)" using fill_id_inj by (auto simp: new_fills_def intro: inj_on_subset)
  then show ?thesis using L by (simp add: new_fills_def distinct_map)
qed

theorem fill_ids_never_repeat_witness:
  "distinct (map fe_fillId (fills_of (run_outs demo_genv
     [Op_account (demo_event_msg ''open'' 77 ''0.5''), Op_account (demo_event_msg ''open'' 77 ''0.5''),
      Op_market ''b'' ''BTC'' Sell (fl 1), Op_account (demo_event_msg ''filled'' 77 ''1'')] demo_open)))"
  by (rule fill_ids_never_repeat[OF demo_open_ids])
     (simp add: message_orders_def demo_event_msg_def jfind_def string_amount_def)

text \<open>The same for the sections: the ids of the fills that the code reports after the sections of a run.\<close>

definition reported :: "'v genv \<Rightarrow> double \<Rightarrow> 'v gateway \<Rightarrow> event_label \<Rightarrow> string list" where
  "reported E price g l = (case l of (idx, order, rec, x) \<Rightarrow>
     (case fill_outputs E idx order rec x price g of Inl e \<Rightarrow> [] | Inr os \<Rightarrow> map fe_fillId (fills_of os)))"

definition label_ok :: "event_label \<Rightarrow> bool" where
  "label_ok l \<longleftrightarrow> (case l of (idx, order, rec, x) \<Rightarrow> 0 \<le> idx \<and> string_amount order)"

definition label_key :: "event_label \<Rightarrow> int \<times> string" where
  "label_key l = (case l of (idx, order, rec, x) \<Rightarrow>
     (idx, case jfind ''filled_base_amount'' order of Some (JString s) \<Rightarrow> s | _ \<Rightarrow> ''0''))"

definition growing :: "event_label list \<Rightarrow> (int \<times> string) list" where
  "growing ls = map label_key (filter (\<lambda>(idx, order, rec, x). 0 < x) ls)"

lemma label_amount: "label_ok (idx, order, rec, x) \<Longrightarrow>
    readStr order ''filled_base_amount'' = amount (snd (label_key (idx, order, rec, x)))"
  using amount_zero
  by (auto simp: label_ok_def string_amount_def label_key_def readStr_def amount_def split: option.splits json.splits)

lemma reported_key: "label_ok l \<Longrightarrow> reported E price g l = (if fillCB g then map fill_id (growing [l]) else [])"
  by (auto simp: reported_def growing_def label_ok_def label_key_def fill_outputs_def cumFilledKey_def string_amount_def
      fills_of_def fill_id_def split: option.splits json.splits)

lemma growing_snoc: "growing (ls @ ms) = growing ls @ growing ms" "growing [] = []"
  by (simp_all add: growing_def)

lemma run_growing:
  assumes "gw_run E g ls h" "ids_ok g" "list_all label_ok ls"
  shows "distinct (growing ls) \<and> reached (set (growing ls)) h \<and> ids_ok h"
  using assms
proof (induction rule: gw_run.induct)
  case run_start
  then show ?case by (simp add: growing_snoc reached_def)
next
  case (run_step ls h l h')
  then have IH: "distinct (growing ls)" "reached (set (growing ls)) h" "ids_ok h" by simp_all
  note kept = past_fills.step_kept[OF run_step.hyps(2) IH(2)] ids.step_kept[OF run_step.hyps(2) IH(3)]
  show ?case
  proof (cases l)
    case None
    with IH kept show ?thesis by simp
  next
    case (Some e)
    obtain idx order rec x where e: "e = (idx, order, rec, x)" by (cases e) auto
    have ok: "label_ok (idx, order, rec, x)" using run_step.prems(2) Some e by simp
    have sec: "account_section idx order h = Some (rec, x, h')"
      using run_step.hyps(2) unfolding Some e by (rule gw_step_event)
    show ?thesis
    proof (cases "0 < x")
      case True
      define k where "k = snd (label_key (idx, order, rec, x))"
      have k: "label_key (idx, order, rec, x) = (idx, k)" by (simp add: k_def label_key_def)
      note new = section_new_fill[OF IH(2,3) sec True label_amount[OF ok, folded k_def]]
      have one: "growing [(idx, order, rec, x)] = [(idx, k)]" using True k by (simp add: growing_def)
      have "reached (set (growing ls) \<union> {(idx, k)}) h'" unfolding reached_Un using kept(1) new(2) by blast
      with new(1) IH(1) kept(2) show ?thesis by (simp add: Some e growing_snoc one)
    next
      case False
      with IH kept show ?thesis by (simp add: Some e growing_snoc) (simp add: growing_def)
    qed
  qed
qed

text \<open>No fill is reported twice, however the sections interleave: whatever order operations, reloads and
  quotes run between, or between the sections of, the account events, the ids of the fills reported after the sections of
  a run are all different.\<close>

theorem interleaved_fills_never_repeat:
  assumes "gw_run E g ls h" "ids_ok g" "list_all label_ok ls"
  shows "distinct (concat (map (reported E price g0) ls))"
proof -
  have d: "distinct (growing ls)" using run_growing[OF assms] by simp
  have "set (growing ls) \<subseteq> {p. 0 \<le> fst p}"
    using assms(3) by (auto simp: growing_def list_all_iff label_ok_def label_key_def)
  with d have "distinct (map fill_id (growing ls))" using fill_id_inj by (auto simp: distinct_map intro: inj_on_subset)
  moreover have "concat (map (reported E price g0) ls) = (if fillCB g0 then map fill_id (growing ls) else [])"
    using assms(3) by (induction ls) (simp_all add: reported_key growing_def)
  ultimately show ?thesis by simp
qed

lemma demo_redelivery:
  "\<exists>rec x g1 rec2 x2 g2. account_section 999 (demo_event_order status filled) demo_open = Some (rec, x, g1) \<and>
     account_section 999 (demo_event_order status filled) g1 = Some (rec2, x2, g2)"
proof -
  obtain rec x g1 where s: "account_section 999 (demo_event_order status filled) demo_open = Some (rec, x, g1)"
    using demo_event_section by blast
  then have "or_orderIndex rec = 77 \<and> ordersByIndex g1 999 = Some rec"
  proof (cases rule: account_section_Some)
    case (1 r)
    have "r = demo_order" using 1(1) by (simp add: demo_open_def)
    then have "or_orderIndex r = - 1" by (simp add: demo_order_def order_rec_def)
    with 1(2,5) show ?thesis by (simp add: demo_event_index)
  qed
  then have "\<exists>rec2 x2 g2. account_section 999 (demo_event_order status filled) g1 = Some (rec2, x2, g2)"
    by (simp add: account_section_def demo_event_index Let_def)
  with s show ?thesis by blast
qed

theorem interleaved_fills_never_repeat_witness:
  "\<exists>l l' h. gw_run demo_genv demo_open [l, l'] h \<and> fst (snd l) = fst (snd l') \<and>
     distinct (concat (map (reported demo_genv 0 demo_open) [l, l']))"
proof -
  let ?o = "demo_event_order ''open'' ''0.5''"
  obtain rec x g1 rec2 x2 g2 where s: "account_section 999 ?o demo_open = Some (rec, x, g1)"
    "account_section 999 ?o g1 = Some (rec2, x2, g2)"
    using demo_redelivery by blast
  have "gw_run demo_genv demo_open [(999, ?o, rec, x)] g1"
    using run_step[OF run_start st_event[OF s(1)]] by simp
  from run_step[OF this st_event[OF s(2)]]
  have r: "gw_run demo_genv demo_open [(999, ?o, rec, x), (999, ?o, rec2, x2)] g2" by simp
  have "list_all label_ok [(999, ?o, rec, x), (999, ?o, rec2, x2)]"
    by (simp add: label_ok_def string_amount_def demo_event_order_def jfind_def)
  from interleaved_fills_never_repeat[OF r demo_open_ids this] r show ?thesis by fastforce
qed

text \<open>Property C18: to which order an event belongs and what it adds.  An event whose client order index is unknown, or whose venue
  index is not the one the order was acknowledged with, changes nothing and is not reported.  Any other
  event changes its own record only, and reports a fill exactly when the cumulative fill (clamped to
  the submitted quantity) has grown: the growth, under the order's own client id and symbol.\<close>

theorem event_attribution:
  assumes "string_amount order" "readInt order ''client_order_index'' (- 1) = idx" "0 \<le> idx"
  shows "case account_order E order g of (r, g', os) \<Rightarrow> r = Inr () \<and>
    (case ordersByIndex g idx of
       None \<Rightarrow> g' = g \<and> os = []
     | Some rec \<Rightarrow>
         if 0 \<le> readInt order ''order_index'' (- 1) \<and> 0 \<le> or_orderIndex rec \<and>
            or_orderIndex rec \<noteq> readInt order ''order_index'' (- 1)
         then g' = g \<and> os = []
         else (let c = clamped rec (readStr order ''filled_base_amount'')
           in (\<forall>i. i \<noteq> idx \<longrightarrow> ordersByIndex g' i = ordersByIndex g i) \<and>
              map (\<lambda>f. (fe_clientOrderId f, fe_symbol f, fe_qty f)) (fills_of os) =
                (if fillCB g \<and> cumFilledBase rec < c \<and> 0 < c - cumFilledBase rec
                 then [(or_clientOrderId rec, or_symbol rec, c - cumFilledBase rec)] else [])))"
proof (cases "account_section idx order g")
  case None
  then show ?thesis using assms(2,3)
    by (auto simp: account_order_def account_section_def Let_def split: option.splits if_splits)
next
  case (Some t)
  obtain rec' x g1 where t: "t = (rec', x, g1)" by (cases t) auto
  note s = Some[unfolded t]
  from s show ?thesis
  proof (cases rule: account_section_Some)
    case (1 rec)
    let ?p = "event_price E order (or_symbol rec') g1"
    have match: "\<not> (0 \<le> readInt order ''order_index'' (- 1) \<and> 0 \<le> or_orderIndex rec \<and>
            or_orderIndex rec \<noteq> readInt order ''order_index'' (- 1))"
      using s 1(1) by (auto simp: account_section_def Let_def split: if_splits)
    have "\<exists>key. cumFilledKey E order = Inr key"
      using assms(1) by (auto simp: cumFilledKey_def string_amount_def split: option.splits json.splits)
    then obtain key where key: "cumFilledKey E order = Inr key" by blast
    let ?c = "clamped rec (readStr order ''filled_base_amount'')"
    define fs where "fs = (if fillCB g \<and> 0 < x then [Fill \<lparr>fe_clientOrderId = or_clientOrderId rec',
      fe_symbol = or_symbol rec', fe_fillId = fmt_int idx @ ''-'' @ key, fe_qty = x, fe_price = ?p, fe_isMaker = True\<rparr>] else [])"
    have fo: "fill_outputs E idx order rec' x ?p g1 = Inr fs" using key 1(2) by (simp add: fill_outputs_def fs_def)
    define st where "st = jstring_or_empty ''status'' order"
    define g2 where "g2 = (if terminal (fst (classifyStatus st)) then eraseOrderRec idx (or_clientOrderId rec') g1 else g1)"
    have ao: "account_order E order g = (Inr (), g2, fs @ update_outputs order rec' st ?p g1)"
      using s assms(2,3) fo by (simp add: account_order_def Let_def st_def g2_def)
    have g2: "g2 = g1 \<or> g2 = eraseOrderRec idx (or_clientOrderId rec') g1" by (simp add: g2_def)
    have rest: "\<forall>i. i \<noteq> idx \<longrightarrow> ordersByIndex g2 i = ordersByIndex g i"
      using g2 1(2) by (auto simp: eraseOrderRec_def)
    have x: "0 < x \<longleftrightarrow> cumFilledBase rec < ?c \<and> 0 < ?c - cumFilledBase rec" "0 < x \<Longrightarrow> x = ?c - cumFilledBase rec"
      using 1(4) by (auto split: if_splits)
    have "map (\<lambda>f. (fe_clientOrderId f, fe_symbol f, fe_qty f)) (fills_of (fs @ update_outputs order rec' st ?p g1)) =
        (if fillCB g \<and> 0 < x then [(or_clientOrderId rec', or_symbol rec', x)] else [])"
      by (simp add: fs_def fills_of_updates) (simp add: fills_of_def)
    also have "\<dots> = (if fillCB g \<and> cumFilledBase rec < ?c \<and> 0 < ?c - cumFilledBase rec
        then [(or_clientOrderId rec, or_symbol rec, ?c - cumFilledBase rec)] else [])"
      using x 1(3) by (auto simp: same_order_def)
    finally show ?thesis unfolding ao 1(1) Let_def using match rest by (simp only: prod.case option.case if_False simp_thms)
  qed
qed

theorem event_attribution_witness:
  "string_amount (demo_event_order ''open'' ''0.5'') \<and>
   map fe_clientOrderId (fills_of (snd (snd (account_order demo_genv (demo_event_order ''open'' ''0.5'') demo_open))))
     = (if 0 < clamped demo_order (readStr (demo_event_order ''open'' ''0.5'') ''filled_base_amount'') \<and>
           0 < clamped demo_order (readStr (demo_event_order ''open'' ''0.5'') ''filled_base_amount'') - 0
        then [''a''] else [])"
proof
  show a: "string_amount (demo_event_order ''open'' ''0.5'')"
    by (simp add: string_amount_def demo_event_order_def jfind_def)
  have m: "map fe_clientOrderId xs = map fst (map (\<lambda>f. (fe_clientOrderId f, fe_symbol f, fe_qty f)) xs)" for xs
    by simp
  have o: "ordersByIndex demo_open 999 = Some demo_order" "or_orderIndex demo_order = - 1" "cumFilledBase demo_order = 0"
    "fillCB demo_open" "or_clientOrderId demo_order = ''a''"
    by (simp_all add: demo_open_def demo_order_def order_rec_def demo_gateway_def)
  show "map fe_clientOrderId (fills_of (snd (snd (account_order demo_genv (demo_event_order ''open'' ''0.5'') demo_open))))
     = (if 0 < clamped demo_order (readStr (demo_event_order ''open'' ''0.5'') ''filled_base_amount'') \<and>
           0 < clamped demo_order (readStr (demo_event_order ''open'' ''0.5'') ''filled_base_amount'') - 0
        then [''a''] else [])"
    using event_attribution[OF a demo_event_index(1), where E = demo_genv and g = demo_open] o
    unfolding m by (simp add: case_prod_unfold Let_def del: map_map)
qed

end
