(* ===== verification/Gateway_Life.thy ===== *)
theory Gateway_Life
  imports Gateway_Events
begin

text \<open>
  The life of one order as the gateway promises it, and the refinement: whatever runs, the records of
  \<open>ordersByIndex\<close> take every order through this life cycle and no other.

  An order is unborn until its index is handed out; it is entered without a venue index and with
  nothing filled; it learns its venue index once; its cumulative fill only grows, and each growth is the
  quantity of one fill; and once closed it stays closed.
\<close>

section \<open>The abstract order\<close>

datatype life = Unborn | Live "int option" double | Dead

text \<open>A step and the fills it reports.\<close>

inductive life_step :: "life \<Rightarrow> double list \<Rightarrow> life \<Rightarrow> bool" where
  life_stay: "life_step s [] s"
| life_enter: "life_step Unborn [] (Live None 0)"
| life_ack: "0 \<le> v \<Longrightarrow> life_step (Live None c) [] (Live (Some v) c)"
| life_fill: "c < c' \<Longrightarrow> v' = v \<or> v = None \<Longrightarrow>
     life_step (Live v c) (if 0 < c' - c then [c' - c] else []) (Live v' c')"
| life_close: "life_step (Live v c) [] Dead"

inductive life_run :: "life \<Rightarrow> double list \<Rightarrow> life \<Rightarrow> bool" for s where
  life_start: "life_run s [] s"
| life_more: "life_run s as t \<Longrightarrow> life_step t bs u \<Longrightarrow> life_run s (as @ bs) u"

inductive_cases life_from_dead: "life_step Dead as s"

lemma dead_stays: "life_run s as t \<Longrightarrow> s = Dead \<Longrightarrow> as = [] \<and> t = Dead"
  by (induction rule: life_run.induct) (auto elim: life_from_dead)

text \<open>The cumulative fill of a live order never falls, and its venue index, once known, stays.\<close>

fun grows :: "life \<Rightarrow> life \<Rightarrow> bool" where
  "grows (Live v c) (Live v' c') = ((c' = c \<or> c < c') \<and> (v = None \<or> v' = v))"
| "grows (Live v c) Unborn = False"
| "grows (Live v c) Dead = True"
| "grows Dead s = (s = Dead)"
| "grows Unborn s = True"

lemma life_step_grows: "life_step s as t \<Longrightarrow> grows s t"
proof (induction rule: life_step.induct)
  case (life_stay s)
  then show ?case by (cases s) simp_all
qed auto

lemma grows_trans: "grows s t \<Longrightarrow> grows t u \<Longrightarrow> grows s u"
  by (cases s; cases t; cases u) (auto dest: double_less_trans)

lemma life_run_grows: "life_run s as t \<Longrightarrow> grows s t"
proof (induction rule: life_run.induct)
  case life_start
  then show ?case by (cases s) simp_all
next
  case (life_more as t bs u)
  then show ?case using life_step_grows grows_trans by blast
qed

section \<open>The gateway's order\<close>

definition venue_of :: "OrderRec \<Rightarrow> int option" where
  "venue_of rec = (if or_orderIndex rec < 0 then None else Some (or_orderIndex rec))"

definition life_of :: "int \<Rightarrow> 'v gateway \<Rightarrow> life" where
  "life_of idx g = (if clientOrderCounter g \<le> idx then Unborn
     else case ordersByIndex g idx of None \<Rightarrow> Dead | Some rec \<Rightarrow> Live (venue_of rec) (cumFilledBase rec))"

definition fills_at :: "int \<Rightarrow> event_label list \<Rightarrow> double list" where
  "fills_at idx ls = concat (map (\<lambda>(i, order, rec, x). if i = idx \<and> 0 < x then [x] else []) ls)"

lemma life_of_frame: "same_orders g g' \<Longrightarrow> life_of idx g' = life_of idx g"
  by (simp add: life_of_def same_orders_def)

lemma side_section_life:
  assumes "side_section E g g'"
  shows "life_step (life_of idx g) [] (life_of idx g')"
  using assms
proof (induction rule: side_section.induct)
  case (as_load g)
  then show ?case using life_of_frame[OF same_orders_load] life_stay by metis
next
  case (as_market g symb)
  have "same_orders g (snd (market_of symb g))" using market_of_frame by (metis prod.collapse)
  then show ?case using life_of_frame life_stay by metis
next
  case (as_enter cid symb i q g)
  then show ?case
    by (auto simp: life_of_def reserve_def venue_of_def Let_def intro: life_step.intros)
next
  case (as_erase idx' cid g)
  then show ?case
    by (auto simp: life_of_def eraseOrderRec_def intro: life_step.intros split: option.split)
qed (simp_all add: life_of_def set_world_def life_stay)

lemma app_section_life:
  assumes "app_section E g g'"
  shows "life_step (life_of idx g) [] (life_of idx g')"
  using assms
proof (induction rule: app_section.induct)
  case (as_send g tx what)
  then show ?case using life_of_frame[OF sendSigned_frame] life_stay by metis
qed (rule side_section_life)

lemma section_life:
  assumes "account_section i order g = Some (rec, x, g')" "ids_ok g"
  shows "life_step (life_of idx g) (if i = idx \<and> 0 < x then [x] else []) (life_of idx g')"
  using assms(1)
proof (cases rule: account_section_Some)
  case (1 r)
  have i: "i < clientOrderCounter g" using assms(2) 1(1) by (auto simp: ids_ok_def)
  show ?thesis
  proof (cases "i = idx")
    case False
    then have "life_of idx g' = life_of idx g" by (simp add: life_of_def 1(2))
    with False show ?thesis by (simp add: life_stay)
  next
    case True
    have s: "life_of idx g = Live (venue_of r) (cumFilledBase r)" "life_of idx g' = Live (venue_of rec) (cumFilledBase rec)"
      using True i 1(1,2) by (simp_all add: life_of_def)
    have v: "venue_of rec = venue_of r \<or> venue_of r = None" using 1(3) by (auto simp: venue_of_def same_order_def)
    show ?thesis
    proof (cases "cumFilledBase r < clamped r (readStr order ''filled_base_amount'')")
      case True
      then have "cumFilledBase r < cumFilledBase rec" "x = cumFilledBase rec - cumFilledBase r" using 1(4) by simp_all
      with life_fill[OF this(1) v] show ?thesis using s \<open>i = idx\<close> by (simp split: if_splits)
    next
      case False
      then have c: "cumFilledBase rec = cumFilledBase r" "x = 0" using 1(4) by simp_all
      have "venue_of rec = venue_of r \<or> (\<exists>w. venue_of r = None \<and> venue_of rec = Some w \<and> 0 \<le> w)"
        using 1(3,5) by (auto simp: venue_of_def same_order_def)
      then show ?thesis using s c life_stay life_ack by auto
    qed
  qed
qed

lemma step_life:
  assumes "gw_step E g l g'" "ids_ok g"
  shows "life_step (life_of idx g) (fills_at idx (case l of None \<Rightarrow> [] | Some e \<Rightarrow> [e])) (life_of idx g')"
  using assms
proof (induction rule: gw_step.induct)
  case (st_app g g')
  then show ?case by (simp add: fills_at_def app_section_life)
next
  case (st_event i order g rec x g1)
  show ?case using section_life[OF st_event.hyps st_event.prems, of idx] by (simp add: fills_at_def)
qed (simp_all add: fills_at_def life_of_def life_stay)

text \<open>Property C7: the gateway implements the order life cycle.  In every interleaving of sections each client order index goes
  through the abstract life (unborn, live with a venue index learnt once and a cumulative fill that only
  grows, dead for good), and the new fills the sections find for it, in order, are exactly
  the growths of that life.\<close>

theorem order_life_refined:
  assumes "gw_run E g ls h" "ids_ok g"
  shows "life_run (life_of idx g) (fills_at idx ls) (life_of idx h)"
  using assms
proof (induction rule: gw_run.induct)
  case run_start
  then show ?case by (simp add: fills_at_def life_start)
next
  case (run_step ls h l h')
  have "ids_ok h" using ids.run_kept run_step.hyps(1) run_step.prems .
  from step_life[OF run_step.hyps(2) this, of idx] run_step.IH[OF run_step.prems]
  show ?case by (simp add: fills_at_def) (rule life_more)
qed

theorem order_life_refined_witness:
  "\<exists>rec x g. gw_run demo_genv demo_open [(999, demo_event_order ''open'' ''0.5'', rec, x)] g \<and>
     life_run (Live None 0) (if 0 < x then [x] else []) (Live (Some 77) (cumFilledBase rec))"
proof -
  obtain rec x g1 where s: "account_section 999 (demo_event_order ''open'' ''0.5'') demo_open = Some (rec, x, g1)"
    using demo_event_section by blast
  have r: "gw_run demo_genv demo_open [(999, demo_event_order ''open'' ''0.5'', rec, x)] g1"
    using run_step[OF run_start st_event[OF s]] by simp
  from s have "life_of 999 g1 = Live (Some 77) (cumFilledBase rec)"
  proof (cases rule: account_section_Some)
    case (1 r)
    have "r = demo_order" using 1(1) by (simp add: demo_open_def)
    then have "or_orderIndex rec = 77" using 1(5) by (simp add: demo_order_def order_rec_def demo_event_index)
    then show ?thesis using 1(2) by (simp add: life_of_def venue_of_def demo_open_def demo_gateway_def)
  qed
  moreover have "life_of 999 demo_open = Live None 0"
    by (simp add: life_of_def demo_open_def demo_gateway_def demo_order_def order_rec_def venue_of_def)
  ultimately have "life_run (Live None 0) (if 0 < x then [x] else []) (Live (Some 77) (cumFilledBase rec))"
    using order_life_refined[OF r demo_open_ids, of 999] by (simp add: fills_at_def)
  with r show ?thesis by blast
qed

end
