(* ===== verification/Gateway_Start.thy ===== *)
theory Gateway_Start
  imports Gateway_Events
begin

text \<open>
  \<open>start()\<close>: it seeds the nonce, wires the stream and waits for the account feed.
\<close>

section \<open>Seeding the nonce\<close>

lemma checkClient_rest [simp]: "rest_of_world (snd (checkClient N sg m)) =
    rest_of_world (snd (CheckClient N (sg_apiKeyIndex sg) (sg_accountIndex sg) m))"
  by (simp add: checkClient_def Let_def case_prod_unfold)

lemma on_stream_rest [simp]: "g_rest (fst (on_stream f g)) = g_rest g" "nextNonce (fst (on_stream f g)) = nextNonce g"
  "accountIndex (fst (on_stream f g)) = accountIndex g" "apiKeyIndex (fst (on_stream f g)) = apiKeyIndex g"
  by (simp_all add: on_stream_def Let_def case_prod_unfold)

lemma load_account: "accountIndex (snd (loadInstruments E g)) = accountIndex g" "apiKeyIndex (snd (loadInstruments E g)) = apiKeyIndex g"
  using same_orders_load[of g E] by (simp_all add: same_orders_def)

lemma start_synced:
  assumes "venue_nonce E (to_int32 (accountIndex g)) (apiKeyIndex g) vn" "start_setup E g = (Inr (), g', os)"
  shows "nonce_synced (to_int32 (accountIndex g)) (apiKeyIndex g) vn g' \<and>
    Stream (Session_call (Api_subscribe (''account_all_orders/'' @ fmt_int (to_int32 (accountIndex g))))) \<in> set os"
proof -
  let ?a = "to_int32 (accountIndex g)" and ?k = "apiKeyIndex g"
  let ?g1 = "snd (loadInstruments E g)"
  let ?g2 = "snd (on_rest (getNextNonce (renv E) ?a ?k) ?g1)"
  note n = getNextNonce_answer[OF assms(1), of "g_rest ?g1"]
  have load: "fst (loadInstruments E g) = Inr ()"
    using assms(2) by (cases "fst (loadInstruments E g)") (simp_all add: start_setup_def case_prod_unfold)
  define g3 where "g3 = ?g2\<lparr>nextNonce := vn (rest_of_world (world (g_rest ?g1))),
     g_stream := Ws_Stream.setOrderBookCallback (g_stream ?g2)\<rparr>"
  have g3: "nonce_synced ?a ?k vn g3"
    using n by (simp add: g3_def nonce_synced_def on_rest_def Let_def case_prod_unfold load_account)
  define g4 where "g4 = snd (on_mem (checkClient (nlib E) (g_signer g3)) g3)"
  have "native_quiet E vn" using assms(1) by (simp add: venue_nonce_def)
  then have g4: "nonce_synced ?a ?k vn g4"
    using g3 unfolding g4_def on_mem_world by (intro synced_world) (simp_all add: native_quiet_def)
  define g5 where "g5 = g4\<lparr>g_stream := setAccountCallback (g_stream g4)\<rparr>"
  define p where "p = on_stream (subscribeAccountOrders (to_int32 (accountIndex g5))) g5"
  define q where "q = on_stream start_stream (fst p)"
  have g5: "nonce_synced ?a ?k vn g5" using g4 by (simp add: g5_def nonce_synced_def)
  have "start_setup E g = (Inr (), fst q, snd p @ snd q)"
    using load n unfolding start_setup_def
    by (simp add: case_prod_unfold Let_def on_rest_def load_account g3_def[unfolded on_rest_def Let_def case_prod_unfold, simplified]
        g4_def g5_def p_def q_def)
  with assms(2) have r: "g' = fst q" "os = snd p @ snd q" by simp_all
  have "nonce_synced ?a ?k vn g'" using g5 by (simp add: r q_def p_def nonce_synced_def)
  moreover have "to_int32 (accountIndex g5) = ?a" using g5 by (simp add: nonce_synced_def)
  then have "Stream (Session_call (Api_subscribe (''account_all_orders/'' @ fmt_int ?a))) \<in> set (snd p)"
    by (simp add: p_def on_stream_def subscribeAccountOrders_def Let_def case_prod_unfold)
  ultimately show ?thesis using r(2) by simp
qed


lemma lossy_query: "\<exists>s'. query_api (renv lossy_genv) path (JObject kvs) s =
    (Inr (JObject [(''code'', JInt 200), (''nonce'', JInt (max 0 (rest_of_world (world s))))]), s') \<and>
    rest_of_world (world s') = rest_of_world (world s)"
  by (simp add: query_api_def seq_def pure_def http_get_def HTTPSession_get_def P_request_transport throttle_def
      lossy_genv_def lossy_renv_def demo_genv_def checkTransport_def parseEnvelope_def jfind_def is_object_def
      to_int32_def Let_def)

lemma lossy_load: "fst (loadInstruments lossy_genv g) = Inr ()"
proof -
  obtain s' where "query_api (renv lossy_genv) ''/api/v1/orderBookDetails'' (JObject [])
      (g_rest (refreshAuthTokenIfNeeded lossy_genv g)) = (Inr (JObject [(''code'', JInt 200),
        (''nonce'', JInt (max 0 (rest_of_world (world (g_rest (refreshAuthTokenIfNeeded lossy_genv g))))))]), s')"
    using lossy_query by blast
  then show ?thesis
    by (simp add: loadInstruments_def on_rest_def getPerpetualAssets_def loadAssets_def seq_def pure_def
        array_items_def jfind_def Let_def)
qed


section \<open>Waiting for the feed\<close>

lemma wait_feed_spec:
  "i \<le> wait_feed live i n \<and> wait_feed live i n \<le> i + n \<and> (\<forall>k. i \<le> k \<and> k < wait_feed live i n \<longrightarrow> \<not> live k) \<and>
     (wait_feed live i n < i + n \<longrightarrow> live (wait_feed live i n))"
proof (induction n arbitrary: i)
  case (Suc n)
  show ?case
  proof (cases "live i")
    case False
    have "\<not> live k" if "i \<le> k" "k < wait_feed live (Suc i) n" for k
      using that Suc.IH[of "Suc i"] False by (cases "k = i") auto
    then show ?thesis using Suc.IH[of "Suc i"] False by auto
  qed auto
qed auto

text \<open>\<open>start()\<close> waits for the acknowledgement of the order feed and no longer than 100 sleeps of 100 ms: it
  stops at the first test that finds the feed live, and it returns normally exactly if the feed is live
  at the last test.\<close>

theorem start_waits_at_most_10s:
  "case start_wait live final of (r, sleeps) \<Rightarrow> sleeps \<le> 100 \<and> (\<forall>k. k < sleeps \<longrightarrow> \<not> live k) \<and>
     (sleeps < 100 \<longrightarrow> live sleeps) \<and> (r = Inr () \<longleftrightarrow> final)"
  using wait_feed_spec[of 0 live 100] by (simp add: start_wait_def Let_def)

theorem start_waits_at_most_10s_witness:
  "start_wait (\<lambda>i. 3 \<le> i) True = (Inr (), 3)"
proof -
  obtain r n where s: "start_wait (\<lambda>i. 3 \<le> i) True = (r, n)" by force
  have "n \<le> 100 \<and> (\<forall>k. k < n \<longrightarrow> \<not> 3 \<le> k) \<and> (n < 100 \<longrightarrow> 3 \<le> n) \<and> r = Inr ()"
    using start_waits_at_most_10s[of "\<lambda>i. 3 \<le> i" True] unfolding s by simp
  then have "n \<le> 3" "3 \<le> n" "r = Inr ()" by (auto simp: not_le[symmetric])
  then show ?thesis using s by simp
qed

end
