(* ===== verification/Gateway_Lock.thy ===== *)
theory Gateway_Lock
  imports Gateway_Start
begin

text \<open>
  Inside the lock \<open>txM\<close>: signing with the current nonce, and \<open>sendSigned\<close> taken apart into the steps between
  which other threads run (token refresh, the POST, the new nonce or the resync).  One thread holds the
  lock at a time; the sections of all the others, which never touch the nonce, come between its steps
  in any number and order.  \<open>posted\<close> remembers each transaction that was posted: the nonce it was signed with and the
  world it was posted to.
\<close>

section \<open>The holder of the lock\<close>

text \<open>Where the holder is: nobody holds the lock, it has signed \<open>tx\<close> with nonce \<open>n\<close>, it has checked the token, the
  venue has accepted the transaction, or the POST failed in any way.\<close>

datatype tx_phase =
    Free
  | Signed SignedTx int
  | Ready SignedTx int
  | Accepted
  | Failed

record 'v locked =
  lk_gw :: "'v gateway"
  lk_phase :: tx_phase
  posted :: "(int \<times> 'v mem) list"

text \<open>The calls of the signer that sign a transaction, and their results.\<close>

fun nonce_of :: "sign_call \<Rightarrow> int option" where
  "nonce_of (Sign_order mi ci ba pr isAsk ot tif ro n tp ex) = Some n"
| "nonce_of (Sign_cancel mi oi n) = Some n"
| "nonce_of (Sign_token d) = None"

fun sign_tx :: "'v genv \<Rightarrow> signer \<Rightarrow> sign_call \<Rightarrow> 'v mem \<Rightarrow> exn + SignedTx" where
  "sign_tx E sg (Sign_order mi ci ba pr isAsk ot tif ro n tp ex) m =
     fst (signCreateOrder (nlib E) sg mi ci ba pr isAsk ot tif ro n tp ex m)"
| "sign_tx E sg (Sign_cancel mi oi n) m = fst (signCancelOrder (nlib E) sg mi oi n m)"
| "sign_tx E sg (Sign_token d) m = Inl (Runtime_error [])"

text \<open>What other threads do meanwhile.\<close>

inductive other_section :: "'v genv \<Rightarrow> 'v gateway \<Rightarrow> 'v gateway \<Rightarrow> bool" for E :: "'v genv" where
  os_side: "side_section E g g' \<Longrightarrow> other_section E g g'"
| os_event: "account_section idx order g = Some (rec, x, g1) \<Longrightarrow> other_section E g g1"
| os_quote: "other_section E g (g\<lparr>quoteCache := qc\<rparr>)"
| os_live: "other_section E g (g\<lparr>accountFeedLive := b\<rparr>)"
| os_warns: "other_section E g (g\<lparr>emptyWarns := k\<rparr>)"
| os_stream: "other_section E g (g\<lparr>g_stream := m\<rparr>)"

definition post_tx :: "'v genv \<Rightarrow> SignedTx \<Rightarrow> 'v gateway \<Rightarrow> (exn + SendTxResult) \<times> 'v gateway" where
  "post_tx E tx g = on_rest (sendTx (renv E) (tx_type tx) (tx_info tx)) g"

definition accepted :: "exn + SendTxResult \<Rightarrow> bool" where
  "accepted r \<longleftrightarrow> (case r of Inl e \<Rightarrow> False | Inr res \<Rightarrow> st_code res = 200)"

inductive tx_step :: "'v genv \<Rightarrow> 'v locked \<Rightarrow> 'v locked \<Rightarrow> bool" for E :: "'v genv" where
  tx_sign: "nonce_of c = Some (nextNonce g) \<Longrightarrow> sign_tx E (g_signer g) c (world (g_rest g)) = Inr tx \<Longrightarrow>
     tx_step E \<lparr>lk_gw = g, lk_phase = Free, posted = P\<rparr>
       \<lparr>lk_gw = set_world (sign_world E (g_signer g) c (world (g_rest g))) g, lk_phase = Signed tx (nextNonce g), posted = P\<rparr>"
| tx_refresh: "tx_step E \<lparr>lk_gw = g, lk_phase = Signed tx n, posted = P\<rparr>
     \<lparr>lk_gw = refreshAuthTokenIfNeeded E g, lk_phase = Ready tx n, posted = P\<rparr>"
| tx_post: "tx_step E \<lparr>lk_gw = g, lk_phase = Ready tx n, posted = P\<rparr>
     \<lparr>lk_gw = snd (post_tx E tx g), lk_phase = (if accepted (fst (post_tx E tx g)) then Accepted else Failed),
      posted = P @ [(n, world (g_rest g))]\<rparr>"
| tx_bump: "tx_step E \<lparr>lk_gw = g, lk_phase = Accepted, posted = P\<rparr>
     \<lparr>lk_gw = g\<lparr>nextNonce := nextNonce g + 1\<rparr>, lk_phase = Free, posted = P\<rparr>"
| tx_resync: "tx_step E \<lparr>lk_gw = g, lk_phase = Failed, posted = P\<rparr>
     \<lparr>lk_gw = resyncNonce E g, lk_phase = Free, posted = P\<rparr>"
| tx_other: "other_section E g g' \<Longrightarrow> tx_step E \<lparr>lk_gw = g, lk_phase = ph, posted = P\<rparr>
     \<lparr>lk_gw = g', lk_phase = ph, posted = P\<rparr>"

inductive tx_reach :: "'v genv \<Rightarrow> 'v gateway \<Rightarrow> 'v locked \<Rightarrow> bool" for E :: "'v genv" and g0 where
  tx_start: "tx_reach E g0 \<lparr>lk_gw = g0, lk_phase = Free, posted = []\<rparr>"
| tx_more: "tx_reach E g0 s \<Longrightarrow> tx_step E s t \<Longrightarrow> tx_reach E g0 t"

section \<open>The steps make up \<open>sendSigned\<close>\<close>

lemma sendSigned_phases:
  "snd (sendSigned E tx what g) = (let g1 = snd (post_tx E tx (refreshAuthTokenIfNeeded E g))
     in if accepted (fst (post_tx E tx (refreshAuthTokenIfNeeded E g))) then g1\<lparr>nextNonce := nextNonce g1 + 1\<rparr>
        else resyncNonce E g1)"
  by (simp add: sendSigned_def post_tx_def accepted_def Let_def case_prod_unfold split: sum.split option.split)

text \<open>A critical section that nobody interrupts does what \<open>sendSigned\<close> does.\<close>

lemma sendSigned_reached:
  assumes "tx_reach E g0 \<lparr>lk_gw = g, lk_phase = Signed tx n, posted = P\<rparr>"
  shows "tx_reach E g0 \<lparr>lk_gw = snd (sendSigned E tx what g), lk_phase = Free,
    posted = P @ [(n, world (g_rest (refreshAuthTokenIfNeeded E g)))]\<rparr>"
proof -
  note r = tx_more[OF tx_more[OF assms tx_refresh] tx_post]
  show ?thesis
  proof (cases "accepted (fst (post_tx E tx (refreshAuthTokenIfNeeded E g)))")
    case True
    with tx_more[OF r[unfolded if_P[OF True]] tx_bump] show ?thesis by (simp add: sendSigned_phases Let_def)
  next
    case False
    with tx_more[OF r[unfolded if_not_P[OF False]] tx_resync] show ?thesis by (simp add: sendSigned_phases Let_def)
  qed
qed

section \<open>The nonce\<close>

text \<open>No other thread touches the counter, the identity of the account, or the venue's nonce.\<close>

definition same_nonce :: "('v \<Rightarrow> int) \<Rightarrow> 'v gateway \<Rightarrow> 'v gateway \<Rightarrow> bool" where
  "same_nonce vn g g' \<longleftrightarrow> nextNonce g' = nextNonce g \<and> accountIndex g' = accountIndex g \<and> apiKeyIndex g' = apiKeyIndex g \<and>
     vn (rest_of_world (world (g_rest g'))) = vn (rest_of_world (world (g_rest g)))"

lemma same_nonce_trans: "same_nonce vn a b \<Longrightarrow> same_nonce vn b c \<Longrightarrow> same_nonce vn a c"
  by (simp add: same_nonce_def)

lemma refresh_same:
  assumes "native_quiet E vn"
  shows "same_nonce vn g (refreshAuthTokenIfNeeded E g)"
proof -
  have "\<And>m. vn (rest_of_world (snd (system_seconds E m))) = vn (rest_of_world m)" using assms by (simp add: native_quiet_def)
  then show ?thesis using sign_world_quiet[OF assms]
    by (auto simp: refresh_world Let_def same_nonce_def set_world_def setAuthToken_def split: sum.splits)
qed

lemma load_same:
  assumes "quiet (renv E) (\<lambda>m. vn (rest_of_world m))" "native_quiet E vn"
  shows "same_nonce vn g (snd (loadInstruments E g))"
proof -
  let ?g0 = "refreshAuthTokenIfNeeded E g"
  let ?g1 = "snd (on_rest (getPerpetualAssets (renv E) False) ?g0)"
  have "same_nonce vn ?g0 ?g1"
    using getPerpetualAssets_frame[of "renv E" False "g_rest ?g0" "\<lambda>m. vn (rest_of_world m)"] assms(1)
    by (simp add: same_nonce_def on_rest_def Let_def case_prod_unfold)
  with refresh_same[OF assms(2)] have g1: "same_nonce vn g ?g1" by (rule same_nonce_trans)
  then have "same_nonce vn g (fold load_asset as ?g1)" for as
    by (subst load_asset_fold[where I = "same_nonce vn g"]) (simp_all add: same_nonce_def load_asset_def)
  with g1 show ?thesis by (simp add: loadInstruments_def Let_def case_prod_unfold split: sum.splits)
qed

lemma side_same:
  assumes "side_section E g g'" "quiet (renv E) (\<lambda>m. vn (rest_of_world m))" "native_quiet E vn"
  shows "same_nonce vn g g'"
  using assms
proof (induction rule: side_section.induct)
  case (as_load g)
  then show ?case by (rule load_same)
next
  case (as_sign g c)
  then show ?case by (simp add: same_nonce_def set_world_def sign_world_quiet)
next
  case (as_steady g)
  then show ?case by (simp add: same_nonce_def set_world_def quiet_def)
next
  case (as_system g)
  then show ?case by (simp add: same_nonce_def set_world_def native_quiet_def)
qed (simp_all add: same_nonce_def market_of_def reserve_def eraseOrderRec_def Let_def split: option.split)

lemma other_same:
  assumes "other_section E g g'" "venue_nonce E a k vn"
  shows "same_nonce vn g g'"
  using assms
proof (induction rule: other_section.induct)
  case (os_side g g')
  have q: "quiet (renv E) (\<lambda>m. vn (rest_of_world m))" "native_quiet E vn"
    using os_side.prems unfolding venue_nonce_def by blast+
  show ?case using side_same[OF os_side.hyps q] .
next
  case (os_event idx order g rec x g1)
  then show ?case by (auto elim!: account_section_Some simp: same_nonce_def)
qed (simp_all add: same_nonce_def)

text \<open>What holds in each phase.\<close>

definition lock_ok :: "int \<Rightarrow> int \<Rightarrow> ('v \<Rightarrow> int) \<Rightarrow> 'v locked \<Rightarrow> bool" where
  "lock_ok a k vn s \<longleftrightarrow> to_int32 (accountIndex (lk_gw s)) = a \<and> apiKeyIndex (lk_gw s) = k \<and>
     (case lk_phase s of
        Free \<Rightarrow> nextNonce (lk_gw s) = vn (rest_of_world (world (g_rest (lk_gw s))))
      | Signed tx n \<Rightarrow> n = vn (rest_of_world (world (g_rest (lk_gw s)))) \<and> nextNonce (lk_gw s) = n
      | Ready tx n \<Rightarrow> n = vn (rest_of_world (world (g_rest (lk_gw s)))) \<and> nextNonce (lk_gw s) = n
      | Accepted \<Rightarrow> nextNonce (lk_gw s) + 1 = vn (rest_of_world (world (g_rest (lk_gw s))))
      | Failed \<Rightarrow> True) \<and>
     list_all (\<lambda>(n, w). n = vn (rest_of_world w)) (posted s)"

lemma tx_step_lock_ok:
  assumes "tx_step E s t" "venue_nonce E a k vn" "lock_ok a k vn s"
  shows "lock_ok a k vn t"
  using assms
proof (induction rule: tx_step.induct)
  case (tx_sign c g tx P)
  then show ?case by (simp add: lock_ok_def set_world_def sign_world_quiet venue_nonce_def)
next
  case (tx_refresh g tx n P)
  have "same_nonce vn g (refreshAuthTokenIfNeeded E g)" using tx_refresh.prems(1) by (simp add: refresh_same venue_nonce_def)
  then show ?case using tx_refresh.prems(2) by (simp add: lock_ok_def same_nonce_def)
next
  case (tx_post g tx n P)
  have "accepted (fst (post_tx E tx g)) \<Longrightarrow>
      vn (rest_of_world (world (g_rest (snd (post_tx E tx g))))) = vn (rest_of_world (world (g_rest g))) + 1"
    using sendTx_taken[OF tx_post.prems(1), of "tx_type tx" "tx_info tx" "g_rest g"]
    by (simp add: accepted_def post_tx_def on_rest_def Let_def case_prod_unfold split: sum.splits)
  moreover have "accountIndex (snd (post_tx E tx g)) = accountIndex g" "apiKeyIndex (snd (post_tx E tx g)) = apiKeyIndex g"
    "nextNonce (snd (post_tx E tx g)) = nextNonce g"
    by (simp_all add: post_tx_def on_rest_def Let_def case_prod_unfold)
  ultimately show ?case using tx_post.prems(2) by (simp add: lock_ok_def)
next
  case (tx_resync g P)
  then have "nonce_synced a k vn (resyncNonce E g)" by (intro resync_synced) (simp_all add: lock_ok_def)
  then show ?case using tx_resync.prems(2) by (simp add: lock_ok_def nonce_synced_def)
next
  case (tx_other g g' ph P)
  have "same_nonce vn g g'" using other_same[OF tx_other.hyps tx_other.prems(1)] .
  then show ?case using tx_other.prems(2) by (simp add: lock_ok_def same_nonce_def split: tx_phase.splits)
qed (simp add: lock_ok_def)


text \<open>The cancel of order 77 signs with nonce 7, which is then posted.\<close>

lemma demo_cancel_signed:
  "\<exists>tx. sign_tx lossy_genv (g_signer demo_gateway) (Sign_cancel 1 77 (nextNonce demo_gateway)) (world (g_rest demo_gateway)) = Inr tx"
  by (simp add: lossy_genv_def demo_genv_def text_native_def null_native_def signCancelOrder_def takeSigned_def takeString_def Let_def case_prod_unfold
      split: option.split)


end
