(* ===== verification/Whole_Events.thy ===== *)
theory Whole_Events
  imports Whole_System
begin

text \<open>
  What the application is told in a run of the program: quotes that are never crossed, and fills that
  come from an order of a delivered message and come once.
\<close>

section \<open>What a completion delivers\<close>

lemma delivers_simps [simp]: "delivers [] = []" "delivers (xs @ ys) = delivers xs @ delivers ys"
  "delivers (x # xs) = (case x of Deliver j \<Rightarrow> [j] | _ \<Rightarrow> []) @ delivers xs"
  by (simp_all add: delivers_def)

lemma delivered_goes: "delivered (goes y r) = delivered y @ delivers (snd r)"
proof -
  have "delivered (fold perform acts y) = delivered y @ delivers acts" for acts y
  proof (induction acts arbitrary: y)
    case (Cons a acts)
    show ?case using Cons[of "perform a y"] by (cases a) simp_all
  qed simp
  then show ?thesis by (simp add: goes_def performs_def)
qed

lemma api_calls_delivers [simp]: "delivers (snd (api_calls cs s)) = []"
proof (induction cs arbitrary: s)
  case (Cons c cs)
  have "delivers (snd (api_call c s)) = []"
    by (cases c; simp add: subscribe_def unsubscribe_def removeTopic_def Let_def case_prod_unfold)
  with Cons show ?case by (simp add: case_prod_unfold Let_def)
qed simp

lemma pump_delivers [simp]: "delivers (snd (pump b s)) = []"
  by (simp add: pump_def split: list.splits)

lemma handleError_delivers [simp]: "delivers (snd (handleError g s)) = []"
  by (simp add: handleError_def)

lemma flush_delivers [simp]: "delivers (snd (snd (flushTopics C e s))) = []"
  by (simp add: flushTopics_def Let_def case_prod_unfold split: sum.split)

lemma dispatch_delivers: "delivers (snd (snd (dispatch C e j s))) \<in> {[], [j]}"
  by (simp add: dispatch_def Let_def case_prod_unfold split: sum.split)

lemma catch_delivers [simp]: "delivers (snd (snd (catch_json g x s acts))) = delivers acts"
  by (simp add: catch_json_def Let_def case_prod_unfold split: exn.split)

definition brings :: "codec \<Rightarrow> event \<Rightarrow> json list \<Rightarrow> bool" where
  "brings C e js \<longleftrightarrow> js = [] \<or> (\<exists>j. parse C (ev_raw e) = Inr j \<and> js = [j])"

lemma onRead_delivers: "brings C e (delivers (snd (snd (onRead C g e s))))"
proof (cases "parse C (ev_raw e)")
  case (Inl x)
  then show ?thesis by (simp add: onRead_def brings_def Let_def case_prod_unfold)
next
  case (Inr j)
  obtain r s2 as where d: "(if is_object j then dispatch C e j (s\<lparr>lastActivity := ev_now e\<rparr>)
      else (Inr (), s\<lparr>lastActivity := ev_now e\<rparr>, [])) = (r, s2, as)" by (metis prod_cases3)
  have as: "delivers as \<in> {[], [j]}"
    using dispatch_delivers[of C e j "s\<lparr>lastActivity := ev_now e\<rparr>"] d by (auto split: if_splits)
  have a: "delivers (snd (after_dispatch g s2)) = []" by (simp add: after_dispatch_def)
  show ?thesis using as a Inr d
    by (auto simp: onRead_def brings_def Let_def case_prod_unfold split: sum.split)
qed

lemma handler_delivers: "brings C e (delivers (snd (handler C o' e s)))"
proof (cases o')
  case (Read g)
  then show ?thesis using onRead_delivers by (simp add: handler_def)
qed (auto simp: brings_def handler_def onResolve_def onConnect_def onSSLHandshake_def onHandshake_def onWrite_def
      onPingTimer_def onReconnectTimer_def startConnect_def Let_def case_prod_unfold split: sum.split)

lemma run_task_delivers [simp]: "delivers (snd (run_task C t e s)) = []"
  by (cases t) (auto simp: run_task_def startConnect_def send_unsubscribe_def closeByUser_def Let_def
      case_prod_unfold split: sum.split)

lemma api_call_delivers [simp]: "delivers (snd (api_call a s)) = []"
  using api_calls_delivers[of "[a]" s] by (simp add: case_prod_unfold Let_def)

lemma feed_raw [simp]: "ev_raw (feed E C e g) = ev_raw e"
  by (simp add: feed_def case_prod_unfold Let_def split: sum.split)

text \<open>A completion brings at most one message, and with it one data event.\<close>

lemma complete_op_cases:
  obtains "gw (complete_op E C o' e fs y) = gw y" "app (complete_op E C o' e fs y) = app y"
    "delivered (io (complete_op E C o' e fs y)) = delivered (io y)"
  | j where "parse C (ev_raw e) = Inr j" "gw (complete_op E C o' e fs y) = fst (snd (data_event E C j (gw y)))"
    "app (complete_op E C o' e fs y) = app y @ fst (snd (snd (data_event E C j (gw y))))"
    "delivered (io (complete_op E C o' e fs y)) = delivered (io y) @ [j]"
  using handler_delivers[of C "feed E C e (gw y)" o' "sess (io y)"]
  unfolding brings_def feed_raw
proof (elim disjE exE conjE)
  assume "delivers (snd (handler C o' (feed E C e (gw y)) (sess (io y)))) = []"
  then show ?thesis using that(1) by (simp add: complete_op_def Let_def delivered_goes deliver_all_def)
next
  fix j
  assume "parse C (ev_raw e) = Inr j" "delivers (snd (handler C o' (feed E C e (gw y)) (sess (io y)))) = [j]"
  then show ?thesis using that(2)
    by (simp add: complete_op_def Let_def delivered_goes deliver_all_def case_prod_unfold)
qed

section \<open>Quotes\<close>

definition uncrossed :: "Quote \<Rightarrow> bool" where
  "uncrossed q \<longleftrightarrow> \<not> (0 < bid q \<and> 0 < ask q \<and> ask q < bid q)"

definition quotes_uncrossed :: "'v gateway \<Rightarrow> bool" where
  "quotes_uncrossed g \<longleftrightarrow> (\<forall>symb q. quoteCache g symb = Some q \<longrightarrow> uncrossed q)"

definition told_uncrossed :: "gout list \<Rightarrow> bool" where
  "told_uncrossed os \<longleftrightarrow> list_all (\<lambda>x. case x of Quote_event symb q \<Rightarrow> uncrossed q | _ \<Rightarrow> True) os"

lemma account_order_told: "told_uncrossed (snd (snd (account_order E order g)))"
  by (auto simp: account_order_def told_uncrossed_def fill_outputs_def update_outputs_def and_then_Inr_iff Let_def
      split: option.split sum.split if_splits)

lemma account_orders_told: "told_uncrossed (snd (snd (account_orders E xs g)))"
proof (induction xs arbitrary: g)
  case (Cons x xs)
  then show ?case using account_order_told[of E x g]
    by (auto simp: Let_def case_prod_unfold told_uncrossed_def split: sum.splits)
qed (simp add: told_uncrossed_def)

lemma account_message_told: "told_uncrossed (snd (snd (onAccountMessage E msg g)))"
  using account_orders_told by (auto simp: onAccountMessage_def Let_def told_uncrossed_def[of "[]"] split: sum.split)

lemma callback_uncrossed:
  assumes "quotes_uncrossed g" "\<And>i b a. x = Book_update i b a \<Longrightarrow> \<not> (0 < b \<and> 0 < a \<and> a < b)"
  shows "quotes_uncrossed (fst (snd (callback E x g))) \<and> told_uncrossed (snd (snd (callback E x g)))"
proof (cases x)
  case (Book_update i b a)
  with assms(2)[OF this] assms(1) show ?thesis
    by (auto simp: onBook_def on_mem_def quotes_uncrossed_def told_uncrossed_def uncrossed_def Let_def case_prod_unfold)
next
  case (Account_update j)
  then show ?thesis using assms(1) account_message_told account_message_market[of g E j]
    by (simp add: quotes_uncrossed_def same_market_data_def)
qed (use assms(1) in \<open>simp_all add: told_uncrossed_def\<close>)

lemma emit_update: "Book_update k b a \<in> set (emit i book m) \<Longrightarrow> \<not> (0 < b \<and> 0 < a \<and> a < b)"
  by (auto simp: emit_def Let_def split: if_splits)

lemma onMessage_update: "Book_update k b a \<in> set (snd (snd (onMessage C j m))) \<Longrightarrow> \<not> (0 < b \<and> 0 < a \<and> a < b)"
  using onMessage_outs[of C j m] emit_update by (elim disjE exE) auto

lemma callbacks_uncrossed:
  assumes "quotes_uncrossed g" "\<And>i b a. Book_update i b a \<in> set xs \<Longrightarrow> \<not> (0 < b \<and> 0 < a \<and> a < b)"
  shows "quotes_uncrossed (fst (snd (callbacks E xs g))) \<and> told_uncrossed (snd (snd (callbacks E xs g)))"
  using assms
proof (induction xs arbitrary: g)
  case (Cons x xs)
  have h: "quotes_uncrossed (fst (snd (callback E x g))) \<and> told_uncrossed (snd (snd (callback E x g)))"
    by (rule callback_uncrossed) (use Cons.prems in auto)
  then show ?case using Cons.IH[of "fst (snd (callback E x g))"] Cons.prems(2)
    by (auto simp: Let_def case_prod_unfold told_uncrossed_def split: sum.splits)
qed (simp add: told_uncrossed_def)

lemma data_event_uncrossed:
  assumes "quotes_uncrossed g"
  shows "quotes_uncrossed (fst (snd (data_event E C j g))) \<and> told_uncrossed (fst (snd (snd (data_event E C j g))))"
proof -
  have g: "quotes_uncrossed (g\<lparr>g_stream := m\<rparr>)" for m using assms by (simp add: quotes_uncrossed_def)
  from callbacks_uncrossed[OF g onMessage_update] show ?thesis
    by (simp add: data_event_def Let_def case_prod_unfold)
qed

lemma prog_step_uncrossed:
  assumes "prog_step E C y z" "quotes_uncrossed (gw y) \<and> told_uncrossed (app y)"
  shows "quotes_uncrossed (gw z) \<and> told_uncrossed (app z)"
  using assms
proof (induction rule: prog_step.induct)
  case (pr_complete y fs o' c gs e e1 y1)
  note p = provided[OF pr_complete.hyps(3)]
  have y1: "quotes_uncrossed (gw y1) \<and> told_uncrossed (app y1)"
    using pr_complete.prems p by (simp add: quotes_uncrossed_def same_market_data_def)
  then show ?case using data_event_uncrossed[of "gw y1" E C]
    by (rule_tac complete_op_cases[of E C o' e1 "fs @ gs" y1]) (auto simp: told_uncrossed_def)
next
  case (pr_task y t ts e e1 y1)
  then show ?case using provided[OF pr_task.hyps(2)] by (simp add: quotes_uncrossed_def same_market_data_def)
next
  case (pr_section y g)
  then show ?case using app_section_market[OF pr_section.hyps]
    by (simp add: quotes_uncrossed_def same_market_data_def)
next
  case (pr_subscribe y symb r g gs)
  then show ?case by (auto simp: subscribeQuotes_def on_stream_def quotes_uncrossed_def Let_def case_prod_unfold split: if_splits)
next
  case (pr_unsubscribe y symb g gs)
  then show ?case by (auto simp: unsubscribeQuotes_def on_stream_def quotes_uncrossed_def Let_def case_prod_unfold split: if_splits)
qed simp_all

text \<open>Property C4: no crossed price reaches a trading decision.  In every run of the program every quote in the cache (the
  one that bounds a market order) and every quote the application is given has a bid that is not above the ask,
  unless one side is empty.\<close>

theorem quotes_never_crossed:
  assumes "prog_reach E C g0 y" "quoteCache g0 = Map.empty"
  shows "(\<forall>symb q. quoteCache (gw y) symb = Some q \<longrightarrow> uncrossed q) \<and>
    (\<forall>symb q. Quote_event symb q \<in> set (app y) \<longrightarrow> uncrossed q)"
proof -
  have "quotes_uncrossed (gw y) \<and> told_uncrossed (app y)"
    using assms(1)
  proof (induction rule: prog_reach.induct)
    case (pr_start g gs)
    then show ?case using start_outs(4)[OF pr_start.hyps] assms(2)
      by (simp add: program_of_def quotes_uncrossed_def told_uncrossed_def)
  next
    case (pr_step y z)
    then show ?case using prog_step_uncrossed by blast
  qed
  then show ?thesis by (fastforce simp: quotes_uncrossed_def told_uncrossed_def list_all_iff)
qed

section \<open>Fills\<close>

lemma start_orders:
  assumes "start_setup E g0 = (Inr (), g, gs)"
  shows "same_orders g0 g"
proof -
  obtain g1 where l: "loadInstruments E g0 = (Inr (), g1)"
    using assms by (cases "loadInstruments E g0") (auto simp: start_setup_def split: sum.splits)
  obtain n g2 where n: "on_rest (getNextNonce (renv E) (to_int32 (accountIndex g1)) (apiKeyIndex g1)) g1 = (Inr n, g2)"
    using assms l by (cases "on_rest (getNextNonce (renv E) (to_int32 (accountIndex g1)) (apiKeyIndex g1)) g1")
      (auto simp: start_setup_def split: sum.splits)
  have "same_orders g0 g2" using same_orders_load[of g0 E] on_rest_frame[of g1] l n same_orders_trans by (metis snd_conv)
  then show ?thesis using assms l n
    by (auto simp: start_setup_def on_mem_def on_stream_def same_orders_def Let_def case_prod_unfold)
qed

text \<open>Every fill told is one of an order of a delivered message, under the id the code derives from it.\<close>

definition fill_of_message :: "'v genv \<Rightarrow> json \<Rightarrow> FillEvent \<Rightarrow> bool" where
  "fill_of_message E j f \<longleftrightarrow> (\<exists>order key. order \<in> set (message_orders j) \<and> cumFilledKey E order = Inr key \<and>
     0 \<le> readInt order ''client_order_index'' (- 1) \<and>
     fe_fillId f = fill_id (readInt order ''client_order_index'' (- 1), key))"

definition fills_from :: "'v genv \<Rightarrow> json list \<Rightarrow> gout list \<Rightarrow> bool" where
  "fills_from E js os \<longleftrightarrow> (\<forall>f. f \<in> set (fills_of os) \<longrightarrow> (\<exists>j. j \<in> set js \<and> fill_of_message E j f))"

lemma account_order_from:
  "f \<in> set (fills_of (snd (snd (account_order E order g)))) \<Longrightarrow>
     \<exists>key. cumFilledKey E order = Inr key \<and> 0 \<le> readInt order ''client_order_index'' (- 1) \<and>
       fe_fillId f = fill_id (readInt order ''client_order_index'' (- 1), key)"
  by (auto simp: account_order_def fill_outputs_def and_then_Inr_iff fills_of_updates fill_id_def Let_def fills_of_def
      update_outputs_def split: option.splits sum.splits if_splits)

lemma account_orders_from:
  "f \<in> set (fills_of (snd (snd (account_orders E xs g)))) \<Longrightarrow> \<exists>order key. order \<in> set xs \<and>
     cumFilledKey E order = Inr key \<and> 0 \<le> readInt order ''client_order_index'' (- 1) \<and>
     fe_fillId f = fill_id (readInt order ''client_order_index'' (- 1), key)"
proof (induction xs arbitrary: g)
  case (Cons x xs)
  have "f \<in> set (fills_of (snd (snd (account_order E x g)))) \<or>
      f \<in> set (fills_of (snd (snd (account_orders E xs (fst (snd (account_order E x g)))))))"
    using Cons.prems by (auto simp: Let_def case_prod_unfold split: sum.splits)
  then show ?case
  proof
    assume "f \<in> set (fills_of (snd (snd (account_order E x g))))"
    from account_order_from[OF this] show ?thesis by auto
  next
    assume "f \<in> set (fills_of (snd (snd (account_orders E xs (fst (snd (account_order E x g)))))))"
    from Cons.IH[OF this] show ?thesis by auto
  qed
qed simp

lemma account_message_from: "fills_from E [msg] (snd (snd (onAccountMessage E msg g)))"
  unfolding fills_from_def fill_of_message_def
proof (intro allI impI)
  fix f
  assume "f \<in> set (fills_of (snd (snd (onAccountMessage E msg g))))"
  then have "f \<in> set (fills_of (snd (snd (account_orders E (message_orders msg) (g\<lparr>accountFeedLive := True\<rparr>)))))"
    by (auto simp: onAccountMessage_def Let_def split: if_splits sum.splits)
  from account_orders_from[OF this] show "\<exists>j. j \<in> set [msg] \<and> (\<exists>order key. order \<in> set (message_orders j) \<and>
      cumFilledKey E order = Inr key \<and> 0 \<le> readInt order ''client_order_index'' (- 1) \<and>
      fe_fillId f = fill_id (readInt order ''client_order_index'' (- 1), key))"
    by auto
qed

text \<open>What one data event adds: at most the fills of the account message itself.\<close>

lemma onMessage_callbacks:
  obtains "fills_of (snd (snd (callbacks E (snd (snd (onMessage C j m))) h))) = []"
    "\<And>S. reached S h \<Longrightarrow> reached S (fst (snd (callbacks E (snd (snd (onMessage C j m))) h)))"
  | "callbacks E (snd (snd (onMessage C j m))) h = onAccountMessage E j h"
  using onMessage_outs[of C j m]
proof (elim disjE exE)
  fix i b m'
  assume o': "snd (snd (onMessage C j m)) = emit i b m'"
  have "fills_of (snd (snd (callbacks E (emit i b m') h))) = []"
    by (auto simp: emit_def onBook_def fills_of_def Let_def case_prod_unfold)
  then show ?thesis using that(1) o' past_fills.callbacks_kept by metis
next
  assume o': "snd (snd (onMessage C j m)) = [Account_update j]"
  show ?thesis
    by (rule that(2)) (simp add: o' Let_def case_prod_unfold prod_eq_iff split: sum.split)
qed (use that(1) past_fills.callbacks_kept in simp)+

lemma data_event_fills:
  assumes "reached S g" "ids_ok g" "list_all string_amount (message_orders j)"
  shows "\<exists>L. new_fills S L (fst (snd (snd (data_event E C j g)))) \<and> reached (S \<union> set L) (fst (snd (data_event E C j g)))
    \<and> fills_from E [j] (fst (snd (snd (data_event E C j g))))"
proof -
  define h where "h = g\<lparr>g_stream := fst (snd (onMessage C j (g_stream g)))\<rparr>"
  have h: "reached S h" "ids_ok h" using assms(1,2) by (simp_all add: h_def reached_def ids_ok_def)
  have d: "fst (snd (data_event E C j g)) = fst (snd (callbacks E (snd (snd (onMessage C j (g_stream g)))) h))"
    "fst (snd (snd (data_event E C j g))) = snd (snd (callbacks E (snd (snd (onMessage C j (g_stream g)))) h))"
    by (simp_all add: data_event_def h_def Let_def case_prod_unfold)
  show ?thesis
  proof (rule onMessage_callbacks[of E C j "g_stream g" h])
    assume "fills_of (snd (snd (callbacks E (snd (snd (onMessage C j (g_stream g)))) h))) = []"
      "\<And>S. reached S h \<Longrightarrow> reached S (fst (snd (callbacks E (snd (snd (onMessage C j (g_stream g)))) h)))"
    then show ?thesis unfolding d using h(1) by (intro exI[of _ "[]"]) (simp add: new_fills_Nil fills_from_def)
  next
    assume c: "callbacks E (snd (snd (onMessage C j (g_stream g)))) h = onAccountMessage E j h"
    show ?thesis unfolding d c using message_fills[OF h assms(3)] account_message_from by blast
  qed
qed

definition fills_ok :: "'v genv \<Rightarrow> 'v program \<Rightarrow> bool" where
  "fills_ok E y \<longleftrightarrow> ids_ok (gw y) \<and> fills_from E (delivered (io y)) (app y) \<and>
     (\<exists>L. new_fills {} L (app y) \<and> reached (set L) (gw y))"

lemma fills_from_append:
  "fills_from E js os \<Longrightarrow> fills_from E ks ps \<Longrightarrow> fills_from E (js @ ks) (os @ ps)"
  by (auto simp: fills_from_def)

lemma prog_step_delivered:
  "prog_step E C y z \<Longrightarrow> (delivered (io z) = delivered (io y) \<and> app z = app y) \<or>
     (\<exists>cs e0 e y1 o' fs. provide E C cs e0 y = (e, y1) \<and> z = complete_op E C o' e fs y1)"
proof (induction rule: prog_step.induct)
  case (pr_route y x xs)
  then show ?case by (cases x) (simp_all add: delivered_goes)
next
  case (pr_complete y fs o' c gs e e1 y1)
  then show ?case by blast
next
  case (pr_task y t ts e e1 y1)
  then show ?case using provided[OF pr_task.hyps(2)] by (simp add: delivered_goes)
qed (simp_all add: delivered_goes)

lemma prog_step_fills:
  assumes "prog_step E C y z" "fills_ok E y"
    and "\<And>raw j. parse C raw = Inr j \<Longrightarrow> list_all string_amount (message_orders j)"
  shows "fills_ok E z"
proof -
  have ids: "ids_ok (gw z)" using ids.prog_step_kept[OF assms(1)] assms(2) by (simp add: fills_ok_def)
  obtain L where L: "new_fills {} L (app y)" "reached (set L) (gw y)" using assms(2) by (auto simp: fills_ok_def)
  from prog_step_delivered[OF assms(1)] show ?thesis
  proof (elim disjE exE conjE)
    assume "delivered (io z) = delivered (io y)" "app z = app y"
    then show ?thesis using ids assms(2) L past_fills.prog_step_kept[OF assms(1) L(2)] by (auto simp: fills_ok_def)
  next
    fix cs e0 e y1 o' fs
    assume p: "provide E C cs e0 y = (e, y1)" and z: "z = complete_op E C o' e fs y1"
    have y1: "app y1 = app y" "io y1 = io y" using provided[OF p] by simp_all
    have L1: "reached (set L) (gw y1)" "ids_ok (gw y1)"
      using past_fills.provide_kept[OF p L(2)] ids.provide_kept[OF p] assms(2) by (simp_all add: fills_ok_def)
    show ?thesis
    proof (rule complete_op_cases[of E C o' e fs y1])
      assume "gw (complete_op E C o' e fs y1) = gw y1" "app (complete_op E C o' e fs y1) = app y1"
        "delivered (io (complete_op E C o' e fs y1)) = delivered (io y1)"
      then show ?thesis using assms(2) L(1) L1 y1 unfolding z fills_ok_def by auto
    next
      fix j
      assume j: "parse C (ev_raw e) = Inr j" "gw (complete_op E C o' e fs y1) = fst (snd (data_event E C j (gw y1)))"
        "app (complete_op E C o' e fs y1) = app y1 @ fst (snd (snd (data_event E C j (gw y1))))"
        "delivered (io (complete_op E C o' e fs y1)) = delivered (io y1) @ [j]"
      from data_event_fills[OF L1 assms(3)[OF j(1)], of E C] obtain M where
        M: "new_fills (set L) M (fst (snd (snd (data_event E C j (gw y1)))))"
        "reached (set L \<union> set M) (fst (snd (data_event E C j (gw y1))))"
        "fills_from E [j] (fst (snd (snd (data_event E C j (gw y1)))))" by blast
      have "new_fills {} (L @ M) (app z)" "reached (set (L @ M)) (gw z)" "fills_from E (delivered (io z)) (app z)"
        using new_fills_append[OF L(1)] M j y1 assms(2) fills_from_append by (auto simp: z fills_ok_def)
      then show ?thesis using ids unfolding fills_ok_def by blast
    qed
  qed
qed

lemma prog_reach_fills:
  assumes "prog_reach E C g0 y" "ordersByIndex g0 = Map.empty" "clientIdToIndex g0 = Map.empty"
    and "\<And>raw j. parse C raw = Inr j \<Longrightarrow> list_all string_amount (message_orders j)"
  shows "fills_ok E y"
  using assms(1)
proof (induction rule: prog_reach.induct)
  case (pr_start g gs)
  have "ids_ok g" using start_orders[OF pr_start.hyps(1)] assms(2,3) by (simp add: ids_ok_def same_orders_def)
  then show ?case by (simp add: fills_ok_def program_of_def fills_from_def new_fills_def reached_def)
next
  case (pr_step y z)
  then show ?case using prog_step_fills assms(4) by blast
qed

text \<open>Property C1: fills from end to end.  On a program started with no open orders, whose venue sends cumulative fills
  as strings, every fill the application is told of comes from an order in a message the session delivered, and no
  fill is told twice, whatever is redelivered, reconnected, resubmitted or interleaved.\<close>

theorem program_fills_once:
  assumes "prog_reach E C g0 y" "ordersByIndex g0 = Map.empty" "clientIdToIndex g0 = Map.empty"
    and "\<And>raw j. parse C raw = Inr j \<Longrightarrow> list_all string_amount (message_orders j)"
  shows "distinct (map fe_fillId (fills_of (app y))) \<and>
    (\<forall>f. f \<in> set (fills_of (app y)) \<longrightarrow> (\<exists>j. j \<in> set (delivered (io y)) \<and> fill_of_message E j f))"
proof -
  have ok: "fills_ok E y" using prog_reach_fills[OF assms] .
  then obtain L where L: "new_fills {} L (app y)" by (auto simp: fills_ok_def)
  then have "inj_on fill_id (set L)" using fill_id_inj by (auto simp: new_fills_def intro: inj_on_subset)
  then show ?thesis using L ok by (auto simp: new_fills_def distinct_map fills_ok_def fills_from_def)
qed

section \<open>A run with a fill\<close>

text \<open>The gateway of the examples starts, the session connects and is greeted, an order is entered, and the venue
  reports it filled.\<close>

definition fill_msg :: json where
  "fill_msg = JObject [(''type'', JString ''update/account_all_orders''), (''orders'', JArray [JObject
     [(''client_order_index'', JInt 1000), (''order_index'', JInt 77), (''status'', JString ''filled''),
      (''filled_base_amount'', JString ''1''), (''price'', JString ''65000'')]])]"

definition fill_codec :: codec where
  "fill_codec = demo_codec\<lparr>parse := (\<lambda>s. if s = ''fill'' then Inr fill_msg else Inr (JObject [(''type'', JString s)]))\<rparr>"

definition idle_io :: sys where
  "idle_io = (let y = sys_init\<lparr>started := True, tasks := [Start_connect]\<rparr>
     in goes y (api_call (Api_subscribe ''account_all_orders/1'') (sess y)))"

definition connect_moves :: "move list" where
  "connect_moves = (let e = demo_event [] in
     [Run_task e, Run_task e, Complete 0 e, Complete 0 e, Complete 0 e, Complete 0 e, Complete 1 (demo_event ''connected'')])"

definition live_io :: sys where
  "live_io = the (apply_moves fill_codec connect_moves idle_io)"

lemma live_io: "apply_moves fill_codec connect_moves idle_io = Some live_io"
proof -
  have "apply_moves fill_codec connect_moves idle_io \<noteq> None" by code_simp
  then show ?thesis by (auto simp: live_io_def)
qed

lemma live_flights: "flights live_io = [(PingWait 1, False), (Write 1, False), (Read 1, False)]"
  "generation (sess live_io) = 1"
  by code_simp+

text \<open>Moves of the session that bring no data message are moves of the program: the tokens they ask for are minted, which
  leaves the gateway alone but for the library's memory, and the frames of this codec do not show them.\<close>

fun silent :: "move \<Rightarrow> bool" where
  "silent (Complete i e) = (ev_calls e = [] \<and> \<not> ev_throws e \<and> (ev_raw e = [] \<or> ev_raw e = ''connected'') \<and>
     ev_provider e = None)"
| "silent (Run_task e) = (ev_provider e = None)"
| "silent _ = False"

lemma token_world: "\<exists>w. snd (tokenForSubscribe E g) = set_world w g"
  by (simp add: tokenForSubscribe_def Let_def case_prod_unfold on_mem_world set_world_def, rule exI, rule refl)

lemma set_world_twice [simp]: "set_world w (set_world v g) = set_world w g"
  by (simp add: set_world_def)

lemma set_world_same: "set_world (world (g_rest g)) g = g"
  by (simp add: set_world_def)

lemma mint_world: "\<exists>w. snd (mint_for E C cs g) = set_world w g"
proof (induction cs arbitrary: g)
  case Nil
  show ?case using set_world_same by (metis mint_for.simps(1) snd_conv)
next
  case (Cons c cs)
  obtain v where v: "snd (tokenForSubscribe E g) = set_world v g" using token_world by blast
  obtain w where "snd (mint_for E C cs (set_world v g)) = set_world w (set_world v g)" using Cons by blast
  with v show ?case by (auto simp: Let_def case_prod_unfold split: sum.split)
qed

definition plain_tokens :: "(string \<Rightarrow> exn + string) option \<Rightarrow> bool" where
  "plain_tokens p \<longleftrightarrow> p = None \<or> (\<exists>t. p = Some (\<lambda>c. Inr (t c)))"

lemma tokens_unseen: "plain_tokens p \<Longrightarrow> subscribeMsg fill_codec p c = subscribeMsg fill_codec None c"
  by (auto simp: plain_tokens_def subscribeMsg_def fill_codec_def demo_codec_def jstring_or_empty_def)

lemma flush_unseen:
  "plain_tokens p \<Longrightarrow> ev_provider e = None \<Longrightarrow>
     flushTopics fill_codec (e\<lparr>ev_provider := p\<rparr>) s = flushTopics fill_codec e s"
proof -
  assume p: "plain_tokens p" "ev_provider e = None"
  have "enqueue_subscribes fill_codec p cs t = enqueue_subscribes fill_codec None cs t" for cs t
    by (induction cs arbitrary: t) (simp_all add: tokens_unseen[OF p(1)] split: sum.split)
  then show ?thesis using p(2) by (simp add: flushTopics_def Let_def case_prod_unfold cong: sum.case_cong)
qed

lemma handler_unseen:
  assumes "plain_tokens p" "ev_provider e = None"
  shows "handler fill_codec o' (e\<lparr>ev_provider := p\<rparr>) s = handler fill_codec o' e s"
    "run_task fill_codec t (e\<lparr>ev_provider := p\<rparr>) s = run_task fill_codec t e s"
proof -
  have d: "dispatch fill_codec (e\<lparr>ev_provider := p\<rparr>) j s = dispatch fill_codec e j s" for j s
    by (simp add: dispatch_def flush_unseen[OF assms] Let_def case_prod_unfold cong: sum.case_cong)
  show "handler fill_codec o' (e\<lparr>ev_provider := p\<rparr>) s = handler fill_codec o' e s"
    by (cases o') (simp_all add: handler_def onRead_def d onResolve_def onConnect_def onSSLHandshake_def onHandshake_def
        onWrite_def onPingTimer_def onReconnectTimer_def silent_seconds_def Let_def case_prod_unfold
        cong: sum.case_cong if_cong)
  show "run_task fill_codec t (e\<lparr>ev_provider := p\<rparr>) s = run_task fill_codec t e s"
    by (cases t) (simp_all add: run_task_def flush_unseen[OF assms] send_unsubscribe_def closeByUser_def Let_def
        case_prod_unfold cong: sum.case_cong)
qed

lemma provide_world:
  obtains p w e1 y1 where "provide E C cs e y = (e1, y1)" "plain_tokens p" "e1 = e\<lparr>ev_provider := p\<rparr>"
    "gw y1 = set_world w (gw y)" "io y1 = io y" "app y1 = app y"
proof -
  let ?r = "provide E C cs e y"
  have "\<exists>p w. plain_tokens p \<and> fst ?r = e\<lparr>ev_provider := p\<rparr> \<and> gw (snd ?r) = set_world w (gw y)"
  proof (cases "minting y")
    case True
    obtain w where w: "snd (mint_for E C cs (gw y)) = set_world w (gw y)" using mint_world by blast
    show ?thesis
      by (intro exI[of _ "Some (\<lambda>c. Inr (token_in (fst (mint_for E C cs (gw y))) c))"] exI[of _ w])
        (simp add: provide_def plain_tokens_def True w case_prod_unfold Let_def, blast)
  next
    case False
    then show ?thesis
      by (intro exI[of _ None] exI[of _ "world (g_rest (gw y))"]) (simp add: provide_def plain_tokens_def set_world_same)
  qed
  then obtain p w where "plain_tokens p" "fst ?r = e\<lparr>ev_provider := p\<rparr>" "gw (snd ?r) = set_world w (gw y)" by blast
  moreover obtain e1 y1 where r: "?r = (e1, y1)" by fastforce
  ultimately show ?thesis using provide_frame[OF r] by (intro that[OF r, of p w]) simp_all
qed

lemma silent_data:
  assumes "raw = [] \<or> raw = ''connected''"
  shows "\<exists>j. parse fill_codec raw = Inr j \<and> data_event E fill_codec j g = (Inr (), g, [], [])"
proof -
  have g: "g\<lparr>g_stream := g_stream g\<rparr> = g" by (cases g) simp
  have m: "onMessage fill_codec (JObject [(''type'', JString raw)]) m = (Inr (), m, [])" for m
    using assms by (elim disjE) (simp_all add: onMessage_def jfind_def starts_with_def Let_def)
  have "parse fill_codec raw = Inr (JObject [(''type'', JString raw)])" using assms by (auto simp: fill_codec_def)
  then show ?thesis by (simp add: data_event_def m g session_calls_def)
qed

lemma silent_feed:
  assumes "silent (Complete i e)"
  shows "feed E fill_codec (e\<lparr>ev_provider := p\<rparr>) g = e\<lparr>ev_provider := p\<rparr>"
proof -
  have e: "e\<lparr>ev_calls := [], ev_throws := False\<rparr> = e" using assms by (cases e) simp
  have raw: "ev_raw e = [] \<or> ev_raw e = ''connected''" using assms by simp
  from silent_data[OF raw, of E g] obtain j where "parse fill_codec (ev_raw e) = Inr j"
    "data_event E fill_codec j g = (Inr (), g, [], [])" by blast
  then show ?thesis using assms by (cases e) (simp add: feed_def)
qed

definition follows :: "'v genv \<Rightarrow> 'v gateway \<Rightarrow> 'v program \<Rightarrow> sys \<Rightarrow> bool" where
  "follows E g0 y z \<longleftrightarrow> (\<exists>y' w. prog_reach E fill_codec g0 y' \<and> io y' = z \<and> gw y' = set_world w (gw y) \<and> app y' = app y)"

lemma silent_move:
  assumes "prog_reach E fill_codec g0 y" "silent mv" "apply_move fill_codec mv (io y) = Some z"
  shows "follows E g0 y z"
proof (cases mv)
  case (Complete i e)
  define fs gs o' c where "fs = take i (flights (io y))" "gs = drop (Suc i) (flights (io y))"
    "o' = fst (flights (io y) ! i)" "c = snd (flights (io y) ! i)"
  have i: "i < length (flights (io y))" "is_timer o' \<and> ev_error e \<longrightarrow> c"
    and z: "z = goes ((io y)\<lparr>flights := fs @ gs\<rparr>) (handler fill_codec o' e (sess (io y)))"
    using assms(3) Complete by (auto simp: fs_gs_o'_c_def split: if_splits)
  have f: "flights (io y) = fs @ (o', c) # gs" using i(1) by (simp add: fs_gs_o'_c_def id_take_nth_drop)
  have e: "silent (Complete i e)" "ev_provider e = None" using assms(2) Complete by simp_all
  obtain p w e1 y1 where p: "provide E fill_codec (read_flush fill_codec o' e (sess (io y))) e y = (e1, y1)"
    "plain_tokens p" "e1 = e\<lparr>ev_provider := p\<rparr>" "gw y1 = set_world w (gw y)" "io y1 = io y" "app y1 = app y"
    using provide_world .
  let ?z = "complete_op E fill_codec o' e1 (fs @ gs) y1"
  have r: "prog_reach E fill_codec g0 ?z" using pr_step[OF assms(1) prog_step.pr_complete[OF f i(2) p(1)]] .
  have raw: "ev_raw e1 = [] \<or> ev_raw e1 = ''connected''" using e(1) p(3) by simp
  obtain j where j: "parse fill_codec (ev_raw e1) = Inr j" "data_event E fill_codec j (gw y1) = (Inr (), gw y1, [], [])"
    using silent_data[OF raw] by blast
  have "gw ?z = gw y1 \<and> app ?z = app y1"
    by (rule complete_op_cases[of E fill_codec o' e1 "fs @ gs" y1]) (use j in auto)
  moreover have "io ?z = z" using silent_feed[OF e(1), of E p] by (simp add: z p(3,5) handler_unseen[OF p(2) e(2)])
  ultimately show ?thesis using r p(4,6) unfolding follows_def by metis
next
  case (Run_task e)
  then obtain t ts where t: "tasks (io y) = t # ts"
    "z = goes ((io y)\<lparr>tasks := ts\<rparr>) (run_task fill_codec t e (sess (io y)))"
    using assms(3) by (auto split: list.splits)
  obtain p w e1 y1 where p: "provide E fill_codec (task_flush t (sess (io y))) e y = (e1, y1)"
    "plain_tokens p" "e1 = e\<lparr>ev_provider := p\<rparr>" "gw y1 = set_world w (gw y)" "io y1 = io y" "app y1 = app y"
    using provide_world .
  have "ev_provider e = None" using assms(2) Run_task by simp
  from pr_step[OF assms(1) prog_step.pr_task[OF t(1) p(1)]] handler_unseen(2)[OF p(2) this] t(2) p(3-6)
  show ?thesis unfolding follows_def
    by (intro exI[of _ "y1\<lparr>io := goes ((io y)\<lparr>tasks := ts\<rparr>) (run_task fill_codec t e1 (sess (io y)))\<rparr>"] exI[of _ w]) simp
qed (use assms(2) in simp_all)

lemma silent_moves:
  assumes "prog_reach E fill_codec g0 y" "list_all silent ms" "apply_moves fill_codec ms (io y) = Some z"
  shows "follows E g0 y z"
  using assms
proof (induction ms arbitrary: y)
  case Nil
  then show ?case unfolding follows_def
    by (intro exI[of _ y] exI[of _ "world (g_rest (gw y))"]) (simp add: set_world_same)
next
  case (Cons mv ms)
  then obtain x where x: "apply_move fill_codec mv (io y) = Some x" "apply_moves fill_codec ms x = Some z"
    by (auto split: option.splits)
  from silent_move[OF Cons.prems(1) _ x(1)] Cons.prems(2) obtain y' w where
    y': "prog_reach E fill_codec g0 y'" "io y' = x" "gw y' = set_world w (gw y)" "app y' = app y" by (auto simp: follows_def)
  have "follows E g0 y' z" by (rule Cons.IH[OF y'(1)]) (use Cons.prems(2) x(2) y'(2) in simp_all)
  then show ?case using y'(3,4) by (auto simp: follows_def)
qed

text \<open>The program when the session is live.\<close>

lemma idle_outs:
  assumes "start_setup lossy_genv idle_gateway = (Inr (), g, gs)"
  shows "io (fold route (stream_outs gs) (program_of g gs\<lparr>outs := []\<rparr>)) = idle_io"
    "accountCB (g_stream g)" "fillCB g" "clientOrderCounter g = 1000"
proof -
  have f: "fmt_int (to_int32 (accountIndex idle_gateway)) = ''1''"
    by (simp add: idle_gateway_def demo_gateway_def to_int32_def) code_simp
  have i: "\<not> hasSession (g_stream idle_gateway)" "fillCB idle_gateway" "clientOrderCounter idle_gateway = 1000"
    by (simp_all add: idle_gateway_def demo_gateway_def manager_init_def)
  obtain m os1 m2 os2 where
    m: "subscribeAccountOrders (to_int32 (accountIndex idle_gateway)) (setAccountCallback (setOrderBookCallback (g_stream idle_gateway))) = (m, os1)"
      "start_stream m = (m2, os2)" "g_stream g = m2" "stream_outs gs = os1 @ os2" "fillCB g = fillCB idle_gateway"
    using start_setup_Inr[OF assms] by metis
  have "accountCB m" using m(1) i(1)
    by (auto simp: subscribeAccountOrders_def ensureSession_def setAccountCallback_def setOrderBookCallback_def Let_def)
  then have "accountCB m2" using m(2) by (auto simp: ensureSession_def start_stream_def split: if_splits)
  then show "accountCB (g_stream g)" "fillCB g" using m(3,5) i(2) by simp_all
  have os2: "os2 = []" using m(1,2) i(1)
    by (auto simp: subscribeAccountOrders_def ensureSession_def start_stream_def Let_def split: if_splits)
  have "os1 = [Enable_tls, New_session, Set_token_provider, Run_session (endpoint (g_stream idle_gateway))] @
      (if running (g_stream idle_gateway) then [] else [Start_io_thread]) @
      [Set_token_provider, Session_call (Api_subscribe ''account_all_orders/1'')]"
    using m(1) i(1) by (auto simp: subscribeAccountOrders_def ensureSession_def setAccountCallback_def setOrderBookCallback_def f Let_def)
  then show "io (fold route (stream_outs gs) (program_of g gs\<lparr>outs := []\<rparr>)) = idle_io"
    by (simp add: m(4) os2 program_of_def idle_io_def sys_init_def Let_def case_prod_unfold)
  show "clientOrderCounter g = 1000" using start_orders[OF assms] i(3) by (simp add: same_orders_def)
qed

lemma live_program: "\<exists>y. prog_reach lossy_genv fill_codec idle_gateway y \<and> io y = live_io \<and>
    accountCB (g_stream (gw y)) \<and> fillCB (gw y) \<and> clientOrderCounter (gw y) = 1000 \<and> app y = []"
proof -
  obtain g gs where s: "start_setup lossy_genv idle_gateway = (Inr (), g, gs)" using idle_starts by blast
  have "\<not> hasSession (g_stream idle_gateway)" by (simp add: idle_gateway_def demo_gateway_def manager_init_def)
  note r = route_all[OF pr_start[OF s this, of fill_codec]]
  let ?y = "fold route (stream_outs gs) (program_of g gs\<lparr>outs := []\<rparr>)"
  have "outs (program_of g gs) = stream_outs gs" by (simp add: program_of_def)
  with r have r: "prog_reach lossy_genv fill_codec idle_gateway ?y" by simp
  have ms: "list_all silent connect_moves" by (simp add: connect_moves_def demo_event_def Let_def)
  have m: "apply_moves fill_codec connect_moves (io ?y) = Some live_io" unfolding idle_outs(1)[OF s] by (rule live_io)
  have "gw ?y = g" "app ?y = []" by (simp_all add: program_of_def)
  with silent_moves[OF r ms m] obtain y w where y: "prog_reach lossy_genv fill_codec idle_gateway y" "io y = live_io"
    "gw y = set_world w g" "app y = []" by (auto simp: follows_def)
  with idle_outs[OF s] show ?thesis by (intro exI[of _ y]) (simp add: set_world_def)
qed

text \<open>A data message is delivered.\<close>

lemma data_delivered:
  assumes "parse C (ev_raw e) = Inr j" "is_object j" "\<not> ev_error e" "g = generation s"
    "jstring_or_empty ''type'' j \<notin> {''connected'', ''ping'', ''pong''}"
  shows "delivers (snd (handler C (Read g) e s)) = [j]"
proof -
  let ?s = "s\<lparr>lastActivity := ev_now e\<rparr>"
  have d: "fst (dispatch C e j ?s) = Inr ()" "delivers (snd (snd (dispatch C e j ?s))) = [j]"
    using assms(5) by (simp_all add: dispatch_def Let_def case_prod_unfold)
  have a: "delivers (snd (after_dispatch g t)) = []" for t by (simp add: after_dispatch_def)
  show ?thesis using assms(1-4) d a
    by (simp add: handler_def onRead_def Let_def case_prod_unfold)
qed

lemma complete_op_data:
  assumes "delivers (snd (handler C o' (feed E C e (gw y)) (sess (io y)))) = [j]"
  shows "gw (complete_op E C o' e fs y) = fst (snd (data_event E C j (gw y)))"
    "app (complete_op E C o' e fs y) = app y @ fst (snd (snd (data_event E C j (gw y))))"
  using assms by (simp_all add: complete_op_def Let_def deliver_all_def case_prod_unfold)

definition fill_order :: json where
  "fill_order = JObject [(''client_order_index'', JInt 1000), (''order_index'', JInt 77), (''status'', JString ''filled''),
      (''filled_base_amount'', JString ''1''), (''price'', JString ''65000'')]"

lemma fill_amount: "readStr fill_order ''filled_base_amount'' = 1"
proof -
  have s: "take_sign (dropWhile isspace ''1'') = (False, ''1'')" "\<not> starts_with (map tolower ''1'') ''inf''"
    "\<not> starts_with (map tolower ''1'') ''nan''"
    by code_simp+
  have m: "significand 10 isdigit ''1'' = Some (1, 0, '''')" by code_simp
  have x: "map tolower (take 2 ''1'') \<noteq> ''0x''" by code_simp
  have e: "exponent (CHR ''e'') [] = 0" by code_simp
  have "unsigned_number ''1'' = Some 1"
    unfolding unsigned_number_def using m x e by simp
  moreover have "to_double_checked 1 = Some 1"
    by (simp add: to_double_checked_def one_double_def finite_double_def)
  ultimately have "stod ''1'' = Some 1" unfolding stod_def using s by simp
  then show ?thesis by (simp add: readStr_def fill_order_def jfind_def)
qed

lemma fill_told:
  assumes "ordersByIndex g 1000 = Some (order_rec ''a'' ''BTC'' 1 1)" "accountCB (g_stream g)" "fillCB g"
  shows "map fe_fillId (fills_of (fst (snd (snd (data_event E fill_codec fill_msg g))))) = [''1000-1'']"
proof -
  define h where "h = g\<lparr>g_stream := g_stream g, accountFeedLive := True\<rparr>"
  have on: "onMessage fill_codec fill_msg (g_stream g) = (Inr (), g_stream g, [Account_update fill_msg])"
    using assms(2) by (simp add: onMessage_def fill_msg_def jfind_def Let_def)
  have orders: "message_orders fill_msg = [fill_order]"
    by (simp add: message_orders_def fill_msg_def fill_order_def jfind_def)
  have idx: "readInt fill_order ''client_order_index'' (- 1) = 1000" "readInt fill_order ''order_index'' (- 1) = 77"
    by (simp_all add: readInt_def fill_order_def jfind_def to_int64_def)
  have "ordersByIndex h 1000 = Some (order_rec ''a'' ''BTC'' 1 1)" using assms(1) by (simp add: h_def)
  then obtain rec x h1 where s: "account_section 1000 fill_order h = Some (rec, x, h1)"
    by (simp add: account_section_def idx order_rec_def Let_def)
  then have x: "0 < x \<and> fillCB h1"
  proof (cases rule: account_section_Some)
    case (1 r)
    have r: "r = order_rec ''a'' ''BTC'' 1 1" using 1(1) assms(1) by (simp add: h_def)
    have "clamped r 1 = 1" by (simp add: clamped_def r order_rec_def)
    moreover have "cumFilledBase r = 0" by (simp add: r order_rec_def)
    moreover have "(0 :: double) < 1" "(0 :: double) < 1 - 0"
      by (simp_all add: zero_double_def one_double_def minus_double_def)
    ultimately have "x = 1 - 0" "(0 :: double) < 1 - 0" using 1(4) by (simp_all add: fill_amount)
    then show ?thesis using 1(2) assms(3) by (simp add: h_def)
  qed
  have key: "cumFilledKey E fill_order = Inr ''1''" by (simp add: cumFilledKey_def fill_order_def jfind_def)
  have id: "fmt_int 1000 = ''1000''" by code_simp
  have fc: "fills_of (Fill f # os) = f # fills_of os" for f os by (simp add: fills_of_def)
  have "fst (account_order E fill_order h) = Inr () \<and>
      map fe_fillId (fills_of (snd (snd (account_order E fill_order h)))) = [''1000-1'']"
    using s x by (simp add: account_order_def idx Let_def fill_outputs_def key id fc fills_of_updates)
  then have "map fe_fillId (fills_of (snd (snd (onAccountMessage E fill_msg (g\<lparr>g_stream := g_stream g\<rparr>))))) = [''1000-1'']"
    unfolding onAccountMessage_def Let_def orders
    by (simp add: h_def Let_def case_prod_unfold fill_msg_def jfind_def jstring_or_empty_def starts_with_def split: sum.split)
  then show ?thesis
    by (simp add: data_event_def on Let_def case_prod_unfold split: sum.split)
qed

lemma fill_run:
  "\<exists>z. prog_reach lossy_genv fill_codec idle_gateway z \<and> map fe_fillId (fills_of (app z)) = [''1000-1''] \<and>
     fill_msg \<in> set (delivered (io z))"
proof -
  obtain y where y: "prog_reach lossy_genv fill_codec idle_gateway y" "io y = live_io" "accountCB (g_stream (gw y))"
    "fillCB (gw y)" "clientOrderCounter (gw y) = 1000" "app y = []"
    using live_program by blast
  define g where "g = snd (reserve ''a'' ''BTC'' 1 1 (gw y))"
  have g: "ordersByIndex g 1000 = Some (order_rec ''a'' ''BTC'' 1 1)" "accountCB (g_stream g)" "fillCB g"
    using y(3-5) by (simp_all add: g_def reserve_def order_rec_def)
  have r: "prog_reach lossy_genv fill_codec idle_gateway (y\<lparr>gw := g\<rparr>)"
    using pr_step[OF y(1) pr_section[OF as_side[OF as_enter]]] unfolding g_def .
  define e where "e = demo_event ''fill''"
  obtain p w e1 y1 where p: "provide lossy_genv fill_codec [] e (y\<lparr>gw := g\<rparr>) = (e1, y1)" "e1 = e\<lparr>ev_provider := p\<rparr>"
    "gw y1 = set_world w g" "io y1 = live_io" "app y1 = []"
    using provide_world[of lossy_genv fill_codec "[]" e "y\<lparr>gw := g\<rparr>"] y(2,6) by simp metis
  have n: "read_flush fill_codec (Read 1) e s = []" for s
    by (simp add: read_flush_def e_def demo_event_def fill_codec_def fill_msg_def jstring_or_empty_def)
  let ?z = "complete_op lossy_genv fill_codec (Read 1) e1 [(PingWait 1, False), (Write 1, False)] y1"
  have "flights (io (y\<lparr>gw := g\<rparr>)) = [(PingWait 1, False), (Write 1, False)] @ (Read 1, False) # []"
    by (simp add: y(2) live_flights)
  from pr_complete[OF this, of e lossy_genv fill_codec e1 y1] have "prog_step lossy_genv fill_codec (y\<lparr>gw := g\<rparr>) ?z"
    using p(1) by (simp add: is_timer_def n)
  with r have z: "prog_reach lossy_genv fill_codec idle_gateway ?z" by (rule pr_step)
  have "delivers (snd (handler fill_codec (Read 1) (feed lossy_genv fill_codec e1 h) s)) = [fill_msg]"
    if "generation s = 1" for s h
    by (rule data_delivered)
      (simp_all add: that p(2) e_def demo_event_def fill_codec_def fill_msg_def jstring_or_empty_def jfind_def is_object_def)
  then have d: "delivers (snd (handler fill_codec (Read 1) (feed lossy_genv fill_codec e1 (gw y1)) (sess (io y1)))) = [fill_msg]"
    using live_flights(2) p(4) by simp
  have g1: "ordersByIndex (gw y1) 1000 = Some (order_rec ''a'' ''BTC'' 1 1)" "accountCB (g_stream (gw y1))" "fillCB (gw y1)"
    using g by (simp_all add: p(3) set_world_def)
  have f: "map fe_fillId (fills_of (app ?z)) = [''1000-1'']"
    unfolding complete_op_data[OF d] using fill_told[OF g1] p(5) by simp
  have "fill_msg \<in> set (delivered (io ?z))" unfolding complete_op_frame(3) delivered_goes d by simp
  with z f show ?thesis by (intro exI[of _ ?z] conjI)
qed

lemma fill_codec_amounts:
  assumes "parse fill_codec raw = Inr j"
  shows "list_all string_amount (message_orders j)"
proof (cases "raw = ''fill''")
  case True
  then have "j = fill_msg" using assms by (simp add: fill_codec_def)
  then show ?thesis by (simp add: fill_msg_def message_orders_def jfind_def string_amount_def)
next
  case False
  then have "j = JObject [(''type'', JString raw)]" using assms by (simp add: fill_codec_def)
  then show ?thesis by (simp add: message_orders_def jfind_def)
qed

theorem program_fills_once_witness:
  "\<exists>y. prog_reach lossy_genv fill_codec idle_gateway y \<and> map fe_fillId (fills_of (app y)) = [''1000-1''] \<and>
     (\<exists>j. j \<in> set (delivered (io y)) \<and> (\<exists>f. f \<in> set (fills_of (app y)) \<and> fill_of_message lossy_genv j f))"
proof -
  obtain z where z: "prog_reach lossy_genv fill_codec idle_gateway z" and f: "map fe_fillId (fills_of (app z)) = [''1000-1'']"
    using fill_run by (elim exE conjE) (rule that)
  have e: "ordersByIndex idle_gateway = Map.empty" "clientIdToIndex idle_gateway = Map.empty"
    by (simp_all add: idle_gateway_def demo_gateway_def)
  have "fills_of (app z) \<noteq> []" using f by auto
  then obtain h where h: "h \<in> set (fills_of (app z))" by (cases "fills_of (app z)") auto
  have "\<forall>f. f \<in> set (fills_of (app z)) \<longrightarrow> (\<exists>j. j \<in> set (delivered (io z)) \<and> fill_of_message lossy_genv j f)"
    by (rule program_fills_once[OF z e, THEN conjunct2]) (rule fill_codec_amounts)
  then obtain j where "j \<in> set (delivered (io z))" "fill_of_message lossy_genv j h" using h by metis
  then show ?thesis using z f h by (intro exI[of _ z] conjI) auto
qed

theorem quotes_never_crossed_witness:
  "\<exists>y. prog_reach lossy_genv fill_codec idle_gateway y \<and> sess (io y) = sess live_io \<and>
     (\<forall>symb q. quoteCache (gw y) symb = Some q \<longrightarrow> uncrossed q)"
proof -
  obtain y where y: "prog_reach lossy_genv fill_codec idle_gateway y" "io y = live_io"
    using live_program by blast
  have "quoteCache idle_gateway = Map.empty" by (simp add: idle_gateway_def)
  from quotes_never_crossed[OF y(1) this] y show ?thesis by (intro exI[of _ y]) simp
qed

end
