(* ===== verification/Gateway_Tables.thy ===== *)
theory Gateway_Tables
  imports Gateway_Events
begin

text \<open>
  The instrument tables: what \<open>loadInstruments\<close> keeps of them, and what the order path may rely on when
  it reads \<open>sizeDecimals[symbol]\<close> and \<open>priceDecimals[symbol]\<close>, where a missing key would be inserted with the value 0.
\<close>

text \<open>A listed symbol has its decimals, a market id that leads back to a symbol, and a spec; the spec the strategy
  rounds with is the one of the decimals the order path scales with.\<close>

definition spec_agrees :: "string \<Rightarrow> int \<Rightarrow> int \<Rightarrow> InstrumentSpec \<Rightarrow> bool" where
  "spec_agrees s sd pd sp \<longleftrightarrow> is_symbol sp = s \<and> qtyStep sp = 1 / pow10i sd \<and> tickSize sp = 1 / pow10i pd"

definition tables_ok :: "'v gateway \<Rightarrow> bool" where
  "tables_ok g \<longleftrightarrow> dom (sizeDecimals g) = dom (marketIds g) \<and> dom (priceDecimals g) = dom (marketIds g) \<and>
     dom (specCache g) = dom (marketIds g) \<and> ran (marketIds g) \<subseteq> dom (marketIdToSymbol g) \<and>
     (\<forall>s sd pd sp. sizeDecimals g s = Some sd \<longrightarrow> priceDecimals g s = Some pd \<longrightarrow> specCache g s = Some sp \<longrightarrow>
        spec_agrees s sd pd sp)"

lemma tables_load_asset: "tables_ok g \<Longrightarrow> tables_ok (load_asset a g)"
  by (auto simp: tables_ok_def load_asset_def spec_agrees_def spec_of_def ran_def dom_def)

lemma tables_load_assets: "tables_ok g \<Longrightarrow> tables_ok (fold load_asset as g)"
  by (induction as arbitrary: g) (simp_all add: tables_load_asset)

text \<open>With the tables in order, reading the decimals of a symbol inserts nothing.\<close>

lemma market_of_reads:
  assumes "tables_ok g"
  shows "snd (market_of symb g) = g"
proof (cases "marketIds g symb")
  case (Some i)
  then have "symb \<in> dom (sizeDecimals g)" "symb \<in> dom (priceDecimals g)" using assms by (auto simp: tables_ok_def)
  then obtain sd pd where d: "sizeDecimals g symb = Some sd" "priceDecimals g symb = Some pd" by blast
  then have "(sizeDecimals g)(symb \<mapsto> sd) = sizeDecimals g" "(priceDecimals g)(symb \<mapsto> pd) = priceDecimals g"
    by (simp_all add: fun_upd_idem)
  with Some d show ?thesis by (simp add: market_of_def Let_def)
qed (simp add: market_of_def)

section \<open>Everything else leaves the tables alone\<close>

definition same_tables :: "'v gateway \<Rightarrow> 'v gateway \<Rightarrow> bool" where
  "same_tables g g' \<longleftrightarrow> marketIds g' = marketIds g \<and> marketIdToSymbol g' = marketIdToSymbol g \<and>
     sizeDecimals g' = sizeDecimals g \<and> priceDecimals g' = priceDecimals g \<and> specCache g' = specCache g"

lemma same_tables_ok: "same_tables g g' \<Longrightarrow> tables_ok g \<Longrightarrow> tables_ok g'"
  by (simp add: same_tables_def tables_ok_def)

lemma same_tables_trans: "same_tables a b \<Longrightarrow> same_tables b c \<Longrightarrow> same_tables a c"
  by (simp add: same_tables_def)

lemma on_rest_tables: "same_tables g (snd (on_rest f g))"
  by (simp add: same_tables_def on_rest_def Let_def case_prod_unfold)

lemma refresh_tables: "same_tables g (refreshAuthTokenIfNeeded E g)"
  by (simp add: refreshAuthTokenIfNeeded_def same_tables_def on_mem_def Let_def case_prod_unfold split: sum.split)

lemma resync_tables: "same_tables g (resyncNonce E g)"
  by (simp add: resyncNonce_def same_tables_def on_rest_def Let_def case_prod_unfold split: sum.split)

lemma send_tables: "same_tables g (snd (sendSigned E tx what g))"
proof -
  let ?g1 = "snd (on_rest (sendTx (renv E) (tx_type tx) (tx_info tx)) (refreshAuthTokenIfNeeded E g))"
  have 1: "same_tables g ?g1" using refresh_tables on_rest_tables same_tables_trans by blast
  have 2: "same_tables g (resyncNonce E ?g1)" using 1 resync_tables same_tables_trans by blast
  have 3: "same_tables g (?g1\<lparr>nextNonce := n\<rparr>)" for n using 1 by (simp add: same_tables_def)
  show ?thesis using 1 2 3
    by (simp add: sendSigned_def Let_def case_prod_unfold split: sum.split option.split)
qed

lemma load_tables: "tables_ok g \<Longrightarrow> tables_ok (snd (loadInstruments E g))"
proof -
  assume t: "tables_ok g"
  have "same_tables g (snd (on_rest (getPerpetualAssets (renv E) False) (refreshAuthTokenIfNeeded E g)))"
    using refresh_tables on_rest_tables same_tables_trans by blast
  note t1 = same_tables_ok[OF this t]
  show ?thesis using t1 tables_load_assets[OF t1]
    by (simp add: loadInstruments_def Let_def case_prod_unfold split: sum.split)
qed

interpretation tables: gateway_invariant E tables_ok for E :: "'v genv"
proof unfold_locales
  fix g :: "'v gateway" and symb w c tx what cid i qty idx order rec x g1
    and q :: "string \<rightharpoonup> Quote" and b and k :: int and m
  assume t: "tables_ok g"
  show "tables_ok (snd (loadInstruments E g))" using load_tables[OF t] .
  show "tables_ok (snd (market_of symb g))" using t by (simp add: market_of_reads)
  show "tables_ok (snd (reserve cid symb i qty g))" "tables_ok (eraseOrderRec idx cid g)"
    "tables_ok (set_world (sign_world E (g_signer g) c (world (g_rest g))) g)"
    "tables_ok (set_world (snd (steady_now (renv E) (world (g_rest g)))) g) \<and>
     tables_ok (set_world (snd (system_seconds E (world (g_rest g)))) g)"
    "tables_ok (g\<lparr>quoteCache := q\<rparr>)" "tables_ok (g\<lparr>accountFeedLive := b\<rparr>)" "tables_ok (g\<lparr>emptyWarns := k\<rparr>)"
    "tables_ok (g\<lparr>g_stream := m\<rparr>)"
    by (intro conjI same_tables_ok[OF _ t]; simp add: same_tables_def reserve_def eraseOrderRec_def set_world_def Let_def)+
  show "tables_ok (snd (sendSigned E tx what g))" using same_tables_ok[OF send_tables t] .
  show "tables_ok g1" if "account_section idx order g = Some (rec, x, g1)"
    using that by (rule account_section_Some) (use t in \<open>auto intro!: same_tables_ok[OF _ t] simp: same_tables_def\<close>)
qed

end
