(* ===== verification/Whole_Types.thy ===== *)
theory Whole_Types
  imports Whole_Events Gateway_Tables
begin

text \<open>
  The types the code's maps and lists do not spell out, as one invariant of the program: sorted books without empty
  levels, order maps that agree, instrument tables with the same keys, channel lists without repetition.
\<close>

definition well_typed :: "'v program \<Rightarrow> bool" where
  "well_typed y \<longleftrightarrow> manager_ok (g_stream (gw y)) \<and> ids_ok (gw y) \<and> tables_ok (gw y) \<and> topics_ok (sess (io y)) \<and>
     hasSession (g_stream (gw y)) \<and> runs_once y"

section \<open>The books\<close>

lemma data_event_books:
  assumes "manager_ok (g_stream g)" "op_no_nan (Op_message j)"
  shows "manager_ok (g_stream (fst (snd (data_event E C j g))))"
  using onMessage_ok[OF assms] by (simp add: data_event_stream)

lemma quotes_books:
  "subscribeQuotes symb g = (r, g', gs) \<Longrightarrow> books (g_stream g') = books (g_stream g)"
  "unsubscribeQuotes symb g = (g', gs) \<Longrightarrow> books (g_stream g') = books (g_stream g)"
  by (auto simp: subscribeQuotes_def unsubscribeQuotes_def subscribeOrderBook_def unsubscribeOrderBook_def
      ensureSession_def on_stream_def Let_def split: if_splits)

lemma prog_step_books:
  assumes "prog_step E C y z" "manager_ok (g_stream (gw y))" "\<And>raw j. parse C raw = Inr j \<Longrightarrow> op_no_nan (Op_message j)"
  shows "manager_ok (g_stream (gw z))"
  using assms
proof (induction rule: prog_step.induct)
  case (pr_complete y fs o' c gs e e1 y1)
  note nan = pr_complete.prems(2)
  have y1: "manager_ok (g_stream (gw y1))"
    using provided[OF pr_complete.hyps(3)] pr_complete.prems(1) by (simp add: same_market_data_def)
  show ?case
    by (rule complete_op_cases[of E C o' e1 "fs @ gs" y1])
      (simp add: y1, use y1 data_event_books nan in \<open>simp, blast\<close>)
next
  case (pr_task y t ts e e1 y1)
  then show ?case using provided[OF pr_task.hyps(2)] by (simp add: same_market_data_def)
next
  case (pr_section y g)
  then show ?case using app_section_market by (fastforce simp: same_market_data_def)
next
  case (pr_subscribe y symb r g gs)
  then show ?case using quotes_books(1)[OF pr_subscribe.hyps(2)] by (simp add: manager_ok_def)
next
  case (pr_unsubscribe y symb g gs)
  then show ?case using quotes_books(2)[OF pr_unsubscribe.hyps(2)] by (simp add: manager_ok_def)
qed simp_all

lemma start_books:
  assumes "start_setup E g0 = (Inr (), g, gs)" "manager_ok (g_stream g0)"
  shows "manager_ok (g_stream g)"
proof (rule start_setup_Inr[OF assms(1)])
  fix m os1 m2 os2
  assume m: "subscribeAccountOrders (to_int32 (accountIndex g0)) (setAccountCallback (setOrderBookCallback (g_stream g0))) = (m, os1)"
    "start_stream m = (m2, os2)" "g_stream g = m2"
  have "books m2 = books (g_stream g0)"
    using stream_do_books[of "Op_subscribeAccountOrders (to_int32 (accountIndex g0))" undefined
        "setAccountCallback (setOrderBookCallback (g_stream g0))"] stream_do_books[of Op_start undefined m] m(1,2)
    by (simp add: setAccountCallback_def setOrderBookCallback_def)
  then show ?thesis using m(3) assms(2) by (simp add: manager_ok_def)
qed

lemma prog_reach_books:
  assumes "prog_reach E C g0 y" "manager_ok (g_stream g0)" "\<And>raw j. parse C raw = Inr j \<Longrightarrow> op_no_nan (Op_message j)"
  shows "manager_ok (g_stream (gw y))"
  using assms
proof (induction rule: prog_reach.induct)
  case (pr_start g gs)
  then show ?case using start_books by (simp add: program_of_def)
next
  case (pr_step y z)
  then show ?case using prog_step_books by blast
qed

section \<open>The gateway\<close>

lemma start_ids:
  assumes "start_setup E g0 = (Inr (), g, gs)" "ids_ok g0"
  shows "ids_ok g"
  using start_orders[OF assms(1)] assms(2) by (simp add: same_orders_def ids_ok_def)

lemma start_tables:
  assumes "start_setup E g0 = (Inr (), g, gs)" "tables_ok g0"
  shows "tables_ok g"
proof -
  have l: "tables_ok (snd (loadInstruments E g0))" using load_tables assms(2) by blast
  obtain g1 where g1: "loadInstruments E g0 = (Inr (), g1)"
    using assms by (cases "loadInstruments E g0") (auto simp: start_setup_def split: sum.splits)
  have "same_tables g1 g"
    using assms(1) g1 on_rest_tables[of g1]
    by (auto simp: start_setup_def on_mem_def on_rest_def on_stream_def same_tables_def Let_def case_prod_unfold
        split: sum.splits)
  with l g1 show ?thesis by (simp add: same_tables_ok)
qed

text \<open>Property C8: the program keeps its types.  In every run of the program, whatever the venue sends (NaN prices, which
  \<open>std::map\<close> cannot order, excepted): each side of each book is sorted strictly in its order with positive prices and no
  empty level; the two order maps agree and no index is reused; the instrument tables have the same keys, so that the
  decimals of a listed market are never read as 0; no channel is held twice; there is one session, run once.\<close>

theorem program_well_typed:
  assumes "prog_reach E C g0 y" "manager_ok (g_stream g0)" "ids_ok g0" "tables_ok g0"
    and "\<And>raw j. parse C raw = Inr j \<Longrightarrow> op_no_nan (Op_message j)"
  shows "well_typed y"
proof -
  obtain g gs ls where g: "start_setup E g0 = (Inr (), g, gs)" "gw_run E g ls (gw y)"
    using prog_reach_gateway[OF assms(1)] by blast
  have "ids_ok (gw y)" using ids.run_kept[OF g(2)] start_ids[OF g(1) assms(3)] .
  moreover have "tables_ok (gw y)" using tables.run_kept[OF g(2)] start_tables[OF g(1) assms(4)] .
  moreover have "manager_ok (g_stream (gw y))" using prog_reach_books assms(1,2,5) by blast
  moreover have "topics_ok (sess (io y))"
    using steady_reachable[OF prog_reach_session[OF assms(1)]] by (simp add: steady_def)
  ultimately show ?thesis using prog_reach_runs_once[OF assms(1)] by (simp add: well_typed_def)
qed

definition bare_gateway :: "int gateway" where
  "bare_gateway = idle_gateway\<lparr>marketIds := Map.empty, marketIdToSymbol := Map.empty, sizeDecimals := Map.empty,
     priceDecimals := Map.empty, specCache := Map.empty\<rparr>"

theorem program_well_typed_witness:
  "\<exists>y. prog_reach lossy_genv fill_codec bare_gateway y \<and> outs y = [] \<and> well_typed y"
proof -
  have i: "to_int32 (accountIndex bare_gateway) = 1" "apiKeyIndex bare_gateway = 2" "\<not> hasSession (g_stream bare_gateway)"
    by (simp_all add: bare_gateway_def idle_gateway_def demo_gateway_def manager_init_def to_int32_def)
  have v: "venue_nonce lossy_genv (to_int32 (accountIndex bare_gateway)) (apiKeyIndex bare_gateway) (max 0)"
    unfolding i by (rule lossy_venue)
  obtain g gs where s: "start_setup lossy_genv bare_gateway = (Inr (), g, gs)"
    using lossy_load[of bare_gateway] getNextNonce_answer[OF v, of "g_rest (snd (loadInstruments lossy_genv bare_gateway))"]
    by (simp add: start_setup_def case_prod_unfold Let_def on_rest_def load_account)
  let ?y = "fold route (stream_outs gs) (program_of g gs\<lparr>outs := []\<rparr>)"
  have y: "prog_reach lossy_genv fill_codec bare_gateway ?y" "outs ?y = []"
    using route_all[OF pr_start[OF s i(3), of fill_codec]] by (simp_all add: program_of_def)
  have m: "manager_ok (g_stream bare_gateway)" "ids_ok bare_gateway" "tables_ok bare_gateway"
    by (simp_all add: bare_gateway_def idle_gateway_def demo_gateway_def manager_ok_init ids_ok_def tables_ok_def)
  have p: "op_no_nan (Op_message j)" if "parse fill_codec raw = Inr j" for raw j
    using that by (auto simp: fill_codec_def fill_msg_def op_no_nan_def jfind_def split: if_splits)
  have "well_typed ?y" by (rule program_well_typed[OF y(1) m]) (rule p)
  with y show ?thesis by blast
qed

end
