(* ===== verification/Whole_Start.thy ===== *)
theory Whole_Start
  imports Whole_Events
begin

text \<open>
  What \<open>start()\<close> waits for: in the running program the flag it tests is set exactly by the venue's answer on
  the order channel.
\<close>

definition acknowledges :: "json \<Rightarrow> bool" where
  "acknowledges j \<longleftrightarrow> jstring_or_empty ''type'' j = ''subscribed/account_all_orders'' \<or>
     jstring_or_empty ''type'' j = ''update/account_all_orders''"

section \<open>One message\<close>

lemma account_message_live:
  "accountFeedLive (fst (snd (onAccountMessage E msg g))) \<longleftrightarrow> accountFeedLive g \<or>
     starts_with (jstring_or_empty ''type'' msg) ''subscribed/account_all_orders'' \<or>
     starts_with (jstring_or_empty ''type'' msg) ''update/account_all_orders''"
  using account_orders_feed[of "g\<lparr>accountFeedLive := True\<rparr>" E "message_orders msg"]
  by (auto simp: onAccountMessage_def Let_def same_feed_def split: sum.split)

lemma callback_live:
  "accountFeedLive (fst (snd (callback E x g))) \<longleftrightarrow> accountFeedLive g \<or>
     (case x of Account_update j \<Rightarrow> starts_with (jstring_or_empty ''type'' j) ''subscribed/account_all_orders'' \<or>
        starts_with (jstring_or_empty ''type'' j) ''update/account_all_orders'' | _ \<Rightarrow> False)"
  by (cases x) (simp_all add: account_message_live onBook_def on_mem_def Let_def case_prod_unfold)

text \<open>The manager hands on a message of an account channel and nothing else; of these only the ones of the order
  channel set the flag.\<close>

lemma onMessage_acknowledged:
  assumes "acknowledges j" "accountCB m"
  shows "onMessage C j m = (Inr (), m, [Account_update j])"
proof -
  obtain t where t: "jfind ''type'' j = Some (JString t)" "jstring_or_empty ''type'' j = t"
    using assms(1) by (auto simp: acknowledges_def jstring_or_empty_def split: option.splits json.splits)
  then have "t = ''subscribed/account_all_orders'' \<or> t = ''update/account_all_orders''"
    using assms(1) by (simp add: acknowledges_def)
  then show ?thesis using t(1) assms(2) by (elim disjE) (simp_all add: onMessage_def)
qed

lemma onMessage_other:
  assumes "\<not> acknowledges j" "Account_update k \<in> set (snd (snd (onMessage C j m)))"
  shows "k = j \<and> (jstring_or_empty ''type'' j = ''subscribed/account_all'' \<or>
    jstring_or_empty ''type'' j = ''update/account_all'')"
proof -
  have e: "Account_update k \<notin> set (emit i b m')" for i b m' by (auto simp: emit_def Let_def)
  have ob: "Account_update k \<notin> set (snd (snd (onOrderBookMessage i ob snapshot m)))" for i ob snapshot
    by (rule onOrderBookMessage_cases[of i ob snapshot m]) (simp_all add: e)
  show ?thesis
  proof (cases "jfind ''type'' j")
    case (Some v)
    show ?thesis
    proof (cases v)
      case (JString t)
      have t: "jstring_or_empty ''type'' j = t" using Some JString by (simp add: jstring_or_empty_def)
      show ?thesis using assms Some JString ob t
        by (auto simp: onMessage_def acknowledges_def Let_def split: if_splits option.splits json.splits sum.splits)
    qed (use assms Some in \<open>simp_all add: onMessage_def\<close>)
  qed (use assms in \<open>simp add: onMessage_def\<close>)
qed

lemma callbacks_live:
  assumes "\<And>k. Account_update k \<in> set xs \<Longrightarrow> \<not> starts_with (jstring_or_empty ''type'' k) ''subscribed/account_all_orders'' \<and>
     \<not> starts_with (jstring_or_empty ''type'' k) ''update/account_all_orders''"
  shows "accountFeedLive (fst (snd (callbacks E xs g))) = accountFeedLive g"
  using assms
proof (induction xs arbitrary: g)
  case (Cons x xs)
  have "accountFeedLive (fst (snd (callback E x g))) = accountFeedLive g"
    using Cons.prems by (auto simp: callback_live split: out.split)
  then show ?case using Cons by (simp add: Let_def case_prod_unfold split: sum.split)
qed simp

lemma data_event_live:
  assumes "accountCB (g_stream g)"
  shows "accountFeedLive (fst (snd (data_event E C j g))) \<longleftrightarrow> accountFeedLive g \<or> acknowledges j"
proof (cases "acknowledges j")
  case True
  then have "starts_with (jstring_or_empty ''type'' j) ''subscribed/account_all_orders'' \<or>
      starts_with (jstring_or_empty ''type'' j) ''update/account_all_orders''"
    by (auto simp: acknowledges_def starts_with_def)
  then show ?thesis using onMessage_acknowledged[OF True assms, of C] True
    by (simp add: data_event_def Let_def case_prod_unfold account_message_live split: sum.split)
next
  case False
  have "\<not> starts_with (jstring_or_empty ''type'' k) ''subscribed/account_all_orders'' \<and>
      \<not> starts_with (jstring_or_empty ''type'' k) ''update/account_all_orders''"
    if "Account_update k \<in> set (snd (snd (onMessage C j (g_stream g))))" for k
    using onMessage_other[OF False that] by (auto simp: starts_with_def)
  from callbacks_live[of "snd (snd (onMessage C j (g_stream g)))" E, OF this] False show ?thesis
    by (simp add: data_event_def Let_def case_prod_unfold)
qed

lemma onMessage_accountCB: "accountCB (fst (snd (onMessage C j m))) = accountCB m"
  using onMessage_state[of C j m]
proof (elim disjE exE conjE)
  fix i ob snapshot
  assume "onMessage C j m = onOrderBookMessage i ob snapshot m"
  then show ?thesis by (rule_tac onOrderBookMessage_cases[of i ob snapshot m]) simp_all
qed simp

section \<open>The program\<close>

definition feed_live_ok :: "'v program \<Rightarrow> bool" where
  "feed_live_ok y \<longleftrightarrow> accountCB (g_stream (gw y)) \<and>
     (accountFeedLive (gw y) \<longleftrightarrow> (\<exists>j. j \<in> set (delivered (io y)) \<and> acknowledges j))"

lemma quotes_feed:
  "subscribeQuotes symb g = (r, g', gs) \<Longrightarrow> accountCB (g_stream g') = accountCB (g_stream g) \<and> accountFeedLive g' = accountFeedLive g"
  "unsubscribeQuotes symb g = (g', gs) \<Longrightarrow> accountCB (g_stream g') = accountCB (g_stream g) \<and> accountFeedLive g' = accountFeedLive g"
  by (auto simp: subscribeQuotes_def unsubscribeQuotes_def subscribeOrderBook_def unsubscribeOrderBook_def
      ensureSession_def on_stream_def Let_def split: if_splits)

lemma prog_step_live:
  assumes "prog_step E C y z" "feed_live_ok y"
  shows "feed_live_ok z"
  using assms
proof (induction rule: prog_step.induct)
  case (pr_complete y fs o' c gs e e1 y1)
  then have y: "accountCB (g_stream (gw y1))"
    "accountFeedLive (gw y1) \<longleftrightarrow> (\<exists>j. j \<in> set (delivered (io y1)) \<and> acknowledges j)"
    using provide_feed[OF pr_complete.hyps(3)] provided[OF pr_complete.hyps(3)]
    by (simp_all add: feed_live_ok_def same_feed_def)
  show ?case
    by (rule complete_op_cases[of E C o' e1 "fs @ gs" y1])
      (use y data_event_live[OF y(1), of E C] in \<open>auto simp: feed_live_ok_def data_event_stream onMessage_accountCB\<close>)
next
  case (pr_task y t ts e e1 y1)
  then show ?case using provide_feed[OF pr_task.hyps(2)] provided[OF pr_task.hyps(2)]
    by (simp add: feed_live_ok_def same_feed_def delivered_goes)
next
  case (pr_route y x xs)
  have "delivered (goes y' (api_call a s)) = delivered y'" for y' a s by (simp add: delivered_goes)
  then show ?case using pr_route by (cases x) (simp_all add: feed_live_ok_def)
next
  case (pr_section y g)
  then show ?case using app_section_feed[OF pr_section.hyps] by (simp add: feed_live_ok_def same_feed_def)
next
  case (pr_subscribe y symb r g gs)
  then show ?case using quotes_feed(1)[OF pr_subscribe.hyps(2)] by (simp add: feed_live_ok_def)
next
  case (pr_unsubscribe y symb g gs)
  then show ?case using quotes_feed(2)[OF pr_unsubscribe.hyps(2)] by (simp add: feed_live_ok_def)
qed

lemma start_live:
  assumes "start_setup E g0 = (Inr (), g, gs)"
  shows "accountCB (g_stream g) \<and> accountFeedLive g = accountFeedLive g0"
proof (rule start_setup_Inr[OF assms])
  fix m os1 m2 os2
  assume m: "subscribeAccountOrders (to_int32 (accountIndex g0)) (setAccountCallback (setOrderBookCallback (g_stream g0))) = (m, os1)"
    "start_stream m = (m2, os2)" "g_stream g = m2" "accountFeedLive g = accountFeedLive g0"
  have "accountCB m" using m(1)
    by (auto simp: subscribeAccountOrders_def ensureSession_def setAccountCallback_def setOrderBookCallback_def Let_def
        split: if_splits)
  then have "accountCB m2" using m(2) by (auto simp: ensureSession_def start_stream_def split: if_splits)
  then show ?thesis using m(3,4) by simp
qed

lemma prog_reach_live: "prog_reach E C g0 y \<Longrightarrow> \<not> accountFeedLive g0 \<Longrightarrow> feed_live_ok y"
proof (induction rule: prog_reach.induct)
  case (pr_start g gs)
  then show ?case using start_live[OF pr_start.hyps(1)] by (simp add: feed_live_ok_def program_of_def sys_init_def)
next
  case (pr_step y z)
  then show ?case using prog_step_live by blast
qed

text \<open>Property C34: \<open>start()\<close> returns on the venue's answer.  Let it test its flag in any states of the program, \<open>s k\<close> at the
  \<open>k\<close>th test and \<open>y\<close> at the last: it sleeps at most 100 times, not once after a test that follows a delivered
  message of the order channel, and it returns normally exactly if such a message was delivered by the last test; a
  connection, a greeting or any other message does not do.\<close>

theorem start_returns_on_ack:
  assumes "\<not> accountFeedLive g0" "prog_reach E C g0 y" "\<And>k. prog_reach E C g0 (s k)"
  shows "case start_wait (\<lambda>k. accountFeedLive (gw (s k))) (accountFeedLive (gw y)) of (r, sleeps) \<Rightarrow>
    sleeps \<le> 100 \<and> (\<forall>k j. k < sleeps \<longrightarrow> j \<in> set (delivered (io (s k))) \<longrightarrow> \<not> acknowledges j) \<and>
    (r = Inr () \<longleftrightarrow> (\<exists>j. j \<in> set (delivered (io y)) \<and> acknowledges j))"
proof -
  have "accountFeedLive (gw x) \<longleftrightarrow> (\<exists>j. j \<in> set (delivered (io x)) \<and> acknowledges j)" if "prog_reach E C g0 x" for x
    using prog_reach_live[OF that assms(1)] by (simp add: feed_live_ok_def)
  then show ?thesis
    using wait_feed_spec[of 0 "\<lambda>k. accountFeedLive (gw (s k))" 100] assms(2,3) by (simp add: start_wait_def Let_def)
qed

text \<open>In the examples the venue's first message of the order channel ends the wait before its first sleep.\<close>

theorem start_returns_on_ack_witness:
  "\<exists>y. prog_reach lossy_genv fill_codec idle_gateway y \<and>
     start_wait (\<lambda>k. accountFeedLive (gw y)) (accountFeedLive (gw y)) = (Inr (), 0)"
proof -
  obtain y where y: "prog_reach lossy_genv fill_codec idle_gateway y" "fill_msg \<in> set (delivered (io y))"
    using fill_run by (elim exE conjE) (rule that)
  have a: "acknowledges fill_msg" by (simp add: acknowledges_def fill_msg_def jstring_or_empty_def jfind_def)
  have i: "\<not> accountFeedLive idle_gateway" by (simp add: idle_gateway_def demo_gateway_def)
  obtain r n where w: "start_wait (\<lambda>k. accountFeedLive (gw y)) (accountFeedLive (gw y)) = (r, n)" by fastforce
  have "(\<forall>k j. k < n \<longrightarrow> j \<in> set (delivered (io y)) \<longrightarrow> \<not> acknowledges j) \<and> r = Inr ()"
    using start_returns_on_ack[OF i y(1), of "\<lambda>k. y"] y a unfolding w by auto
  then have "n = 0" "r = Inr ()" using y(2) a by (blast, blast)
  with y(1) w show ?thesis by blast
qed

end
