(* ===== verification/Whole_Frames.thy ===== *)
theory Whole_Frames
  imports Whole_Events Ws_Replay
begin

text \<open>
  The frames of the program: each subscribe frame handed to the stream carries a token the gateway minted for
  its channel on the connection it is written to, so that a replay after a reconnect never repeats an old one.
\<close>

section \<open>The frames a session holds\<close>

definition housekeeping :: "codec \<Rightarrow> string \<Rightarrow> bool" where
  "housekeeping C m \<longleftrightarrow> dump C (JObject [(''type'', JString ''ping'')]) = Inr m \<or>
     dump C (JObject [(''type'', JString ''pong'')]) = Inr m \<or> (\<exists>c. unsubscribeMsg C c = Inr m)"

fun handed1 :: "act \<Rightarrow> (int \<times> string) list" where
  "handed1 (Start_write g m) = [(g, m)]"
| "handed1 _ = []"

definition handed :: "act list \<Rightarrow> (int \<times> string) list" where
  "handed acts = concat (map handed1 acts)"

lemma handed_simps [simp]: "handed [] = []" "handed (a # as) = handed1 a @ handed as"
  "handed (as @ bs) = handed as @ handed bs"
  by (simp_all add: handed_def)

lemma begun_goes: "begun (goes y r) = begun y @ handed (snd r)"
proof -
  have "begun (fold perform acts y) = begun y @ handed acts" for acts y
  proof (induction acts arbitrary: y)
    case (Cons a acts)
    then show ?case by (cases a) simp_all
  qed simp
  then show ?thesis by (simp add: goes_def performs_def)
qed

text \<open>\<open>P g m\<close>: the frame \<open>m\<close> is one of connection \<open>g\<close>.  Between connections only frames that belong to none are queued.\<close>

definition held :: "codec \<Rightarrow> (int \<Rightarrow> string \<Rightarrow> bool) \<Rightarrow> ws \<Rightarrow> bool" where
  "held C P s \<longleftrightarrow> (\<forall>m. m \<in> set (outboundQueue s) \<longrightarrow> housekeeping C m \<or> connected s \<and> P (generation s) m)"

definition written :: "codec \<Rightarrow> (int \<Rightarrow> string \<Rightarrow> bool) \<Rightarrow> (int \<times> string) list \<Rightarrow> bool" where
  "written C P ws \<longleftrightarrow> (\<forall>g m. (g, m) \<in> set ws \<longrightarrow> housekeeping C m \<or> P g m)"

definition held_result :: "codec \<Rightarrow> (int \<Rightarrow> string \<Rightarrow> bool) \<Rightarrow> ws \<times> act list \<Rightarrow> bool" where
  "held_result C P r \<longleftrightarrow> held C P (fst r) \<and> written C P (handed (snd r))"

lemma written_simps [simp]: "written C P []" "written C P (xs @ ys) \<longleftrightarrow> written C P xs \<and> written C P ys"
  by (auto simp: written_def)

text \<open>The frames of a flush.\<close>

fun flushed :: "codec \<Rightarrow> (string \<Rightarrow> exn + string) option \<Rightarrow> string list \<Rightarrow> string list" where
  "flushed C p [] = []"
| "flushed C p (c # cs) = (case subscribeMsg C p c of Inl x \<Rightarrow> [] | Inr m \<Rightarrow> m # flushed C p cs)"

lemma enqueue_flushed:
  "outboundQueue (snd (enqueue_subscribes C p cs s)) = outboundQueue s @ flushed C p cs"
  by (induction cs arbitrary: s) (auto simp: enqueueOp_def split: sum.split)

lemma held_stay: "held C P s \<Longrightarrow> handed as = [] \<Longrightarrow> held_result C P (s, as)"
  by (simp add: held_result_def)

lemma held_pump: "held C P s \<Longrightarrow> held_result C P (pump b s)"
  by (auto simp: pump_def held_result_def held_def written_def split: list.split)

lemma held_house: "held C P s \<Longrightarrow> housekeeping C m \<Longrightarrow> held C P (enqueueOp m s)"
  by (auto simp: held_def enqueueOp_def)

lemma held_handleError: "held C P s \<Longrightarrow> held_result C P (handleError g s)"
  by (auto simp: handleError_def held_result_def held_def)

lemma held_startConnect: "held C P s \<Longrightarrow> \<not> connected s \<Longrightarrow> held_result C P (startConnect s)"
  by (auto simp: startConnect_def held_result_def held_def Let_def)

lemma held_cong:
  "held C P s \<Longrightarrow> outboundQueue t = outboundQueue s \<Longrightarrow> connected t = connected s \<Longrightarrow> generation t = generation s \<Longrightarrow>
     held C P t"
  by (simp add: held_def)

lemma api_calls_held: "held C P s \<Longrightarrow> held_result C P (api_calls cs s)"
proof (induction cs arbitrary: s)
  case (Cons c cs)
  have "held_result C P (api_call c s)"
    using held_cong[OF Cons.prems]
    by (cases c) (simp_all add: subscribe_def unsubscribe_def addTopic_def removeTopic_def Let_def held_result_def)
  then show ?case using Cons.IH by (simp add: held_result_def Let_def case_prod_unfold)
qed (simp add: held_result_def)

definition flush_from :: "codec \<Rightarrow> (int \<Rightarrow> string \<Rightarrow> bool) \<Rightarrow> event \<Rightarrow> string list \<Rightarrow> ws \<Rightarrow> bool" where
  "flush_from C P e cs s \<longleftrightarrow> (\<forall>m. m \<in> set (flushed C (ev_provider e) cs) \<longrightarrow> P (generation s) m)"

lemma held_flush:
  assumes "held C P s" "connected s \<and> ready s \<Longrightarrow> flush_from C P e (pendingTopics s) s"
  shows "held_result C P (snd (flushTopics C e s))"
proof (cases "connected s \<and> ready s")
  case True
  let ?s1 = "s\<lparr>subscriptions := subscriptions s @ pendingTopics s, pendingTopics := []\<rparr>"
  obtain r s2 where q: "enqueue_subscribes C (ev_provider e) (pendingTopics s) ?s1 = (r, s2)" by fastforce
  have s2: "connected s2" "generation s2 = generation s"
    using enqueue_subscribes_frame[of C "ev_provider e" "pendingTopics s" ?s1] q True by simp_all
  have "held C P s2"
    using assms True s2 enqueue_flushed[of C "ev_provider e" "pendingTopics s" ?s1] q
    by (auto simp: held_def flush_from_def)
  then show ?thesis using True q held_pump
    by (auto simp: flushTopics_def Let_def case_prod_unfold held_result_def split: sum.split)
qed (use assms(1) in \<open>auto simp: flushTopics_def held_result_def\<close>)

lemma held_dispatch:
  assumes "held C P s"
    and "jstring_or_empty ''type'' j = ''connected'' \<and> connected s \<Longrightarrow> flush_from C P e (pendingTopics s) s"
  shows "held_result C P (snd (dispatch C e j s))"
proof -
  let ?s1 = "s\<lparr>ready := True, connectedFlag := True, reconnectDelayS := 1\<rparr>"
  have s1: "held C P ?s1" using held_cong[OF assms(1)] by simp
  have f: "held_result C P (snd (flushTopics C e ?s1))" if "jstring_or_empty ''type'' j = ''connected''"
    by (rule held_flush[OF s1]) (use assms(2) that in \<open>simp add: flush_from_def\<close>)
  have p: "held_result C P (pump b (enqueueOp m s))" if "dump C (JObject [(''type'', JString ''pong'')]) = Inr m" for m b
    using held_pump[OF held_house[OF assms(1)]] that by (simp add: housekeeping_def)
  have a: "held_result C P (api_calls (ev_calls e) s)" using api_calls_held[OF assms(1)] .
  show ?thesis using f p a assms(1)
    by (auto simp: dispatch_def Let_def case_prod_unfold held_result_def split: sum.split)
qed

lemma held_read:
  assumes "held C P s" "flush_from C P e (read_flush C (Read g) e s) s"
  shows "held_result C P (snd (onRead C g e s))"
proof (cases "g = generation s \<and> \<not> ev_error e")
  case True
  let ?s1 = "s\<lparr>lastActivity := ev_now e\<rparr>"
  have s1: "held C P ?s1" using held_cong[OF assms(1)] by simp
  have c: "held_result C P (snd (catch_json g x t acts))" if "held_result C P (t, acts)" for x t acts
    using that held_handleError[of C P t g]
    by (auto simp: catch_json_def held_result_def Let_def case_prod_unfold split: exn.split)
  have a: "held_result C P (after_dispatch g t)" if "held C P t" for t
    using held_cong[OF that] by (simp add: after_dispatch_def held_result_def)
  show ?thesis
  proof (cases "parse C (ev_raw e)")
    case (Inl x)
    then show ?thesis using c[of ?s1 "[]"] s1 True by (simp add: onRead_def held_result_def Let_def)
  next
    case (Inr j)
    obtain r s2 acts where d: "(if is_object j then dispatch C e j ?s1 else (Inr (), ?s1, [])) = (r, s2, acts)"
      by (metis prod_cases3)
    have "held_result C P (snd (dispatch C e j ?s1))" if "is_object j"
      by (rule held_dispatch[OF s1]) (use assms(2) that True Inr in \<open>simp add: read_flush_def flush_from_def\<close>)
    then have h: "held_result C P (s2, acts)" using d s1 by (auto simp: held_result_def split: if_splits)
    then show ?thesis using c[OF h] a[of s2] True Inr d
      by (auto simp: onRead_def held_result_def Let_def case_prod_unfold split: sum.split)
  qed
next
  case False
  then show ?thesis using held_stay[OF assms(1)] held_handleError[OF assms(1), of g]
    by (auto simp: onRead_def Let_def case_prod_unfold)
qed

lemma held_handler:
  assumes "held C P s" "flush_from C P e (read_flush C o' e s) s" "o' = ReconnectWait (generation s) \<Longrightarrow> \<not> connected s"
  shows "held_result C P (handler C o' e s)"
proof (cases o')
  case (Read g)
  then show ?thesis using held_read assms(1,2) by (simp add: handler_def)
next
  case (ReconnectWait g)
  let ?s1 = "s\<lparr>reconnectScheduled := False\<rparr>"
  have "held C P ?s1" using held_cong[OF assms(1)] by simp
  then show ?thesis using held_startConnect[of C P ?s1] held_stay assms(1,3) ReconnectWait
    by (simp add: handler_def onReconnectTimer_def Let_def)
next
  case (Write g)
  let ?s1 = "s\<lparr>writeInFlight := False\<rparr>"
  have "held C P ?s1" using held_cong[OF assms(1)] by simp
  then show ?thesis using held_pump held_handleError held_stay assms(1) Write
    by (simp add: handler_def onWrite_def Let_def)
next
  case (PingWait g)
  have "held_result C P (pump b (enqueueOp m s))" if "dump C (JObject [(''type'', JString ''ping'')]) = Inr m" for m b
    using held_pump[OF held_house[OF assms(1)]] that by (simp add: housekeeping_def)
  then show ?thesis using held_handleError[OF assms(1), of g] assms(1) PingWait
    by (auto simp: handler_def onPingTimer_def Let_def case_prod_unfold held_result_def split: sum.split)
next
  case (Handshake g)
  have "held C P (s\<lparr>connected := True, lastActivity := ev_now e\<rparr>)" using assms(1) by (auto simp: held_def)
  then show ?thesis using held_handleError[OF assms(1), of g] held_stay[OF assms(1)] Handshake held_stay[of C P "s\<lparr>connected := True, lastActivity := ev_now e\<rparr>"]
    by (auto simp: handler_def onHandshake_def)
qed (use held_handleError[OF assms(1)] held_stay[OF assms(1)] in
    \<open>auto simp: handler_def onResolve_def onConnect_def onSSLHandshake_def\<close>)

lemma held_run_task:
  assumes "held C P s" "flush_from C P e (task_flush t s) s" "t = Start_connect \<Longrightarrow> \<not> connected s"
  shows "held_result C P (run_task C t e s)"
proof (cases t)
  case Flush_topics
  have "held_result C P (snd (flushTopics C e s))"
    by (rule held_flush[OF assms(1)]) (use assms(2) Flush_topics in \<open>simp add: task_flush_def\<close>)
  then show ?thesis using Flush_topics by (simp add: run_task_def)
next
  case (Send_unsubscribe c)
  have "held_result C P (pump b (enqueueOp m s))" if "unsubscribeMsg C c = Inr m" for m b
    using held_pump[OF held_house[OF assms(1)]] that by (auto simp: housekeeping_def)
  then show ?thesis using assms(1) Send_unsubscribe
    by (auto simp: run_task_def send_unsubscribe_def Let_def case_prod_unfold held_result_def split: sum.split)
next
  case Start_connect
  then show ?thesis using held_startConnect assms(1,3) by (simp add: run_task_def)
next
  case Close_by_user
  then show ?thesis using held_cong[OF assms(1)] held_stay[OF assms(1)]
    by (auto simp: run_task_def closeByUser_def held_result_def)
qed

section \<open>The tokens\<close>

definition own_frame :: "codec \<Rightarrow> 'v program \<Rightarrow> int \<Rightarrow> string \<Rightarrow> bool" where
  "own_frame C y g m \<longleftrightarrow> (\<exists>c t now. (g, c, t, now) \<in> set (issued y) \<and> subscribeMsg C (Some (\<lambda>_. Inr t)) c = Inr m)"

lemma subscribeMsg_at: "subscribeMsg C (Some f) c = subscribeMsg C (Some (\<lambda>_. f c)) c"
  by (simp add: subscribeMsg_def)

lemma mint_flushed:
  assumes "distinct cs" "\<And>c. c \<in> set cs \<Longrightarrow> c \<notin> fst ` set pre"
    "m \<in> set (flushed C (Some (\<lambda>c. Inr (token_in (pre @ fst (mint_for E C cs g)) c))) cs)"
  shows "\<exists>c t now. (c, t, now) \<in> set (fst (mint_for E C cs g)) \<and> subscribeMsg C (Some (\<lambda>_. Inr t)) c = Inr m"
  using assms
proof (induction cs arbitrary: g pre)
  case (Cons c cs)
  define now t g1 where d: "now = fst (system_seconds E (world (g_rest g)))" "t = fst (tokenForSubscribe E g)"
    "g1 = snd (tokenForSubscribe E g)"
  have n: "map_of pre c = None" using Cons.prems(2) by (simp add: map_of_eq_None_iff)
  have sm: "subscribeMsg C (Some (\<lambda>c. Inr (token_in (pre @ (c', t, now) # ts) c))) c = subscribeMsg C (Some (\<lambda>_. Inr t)) c"
    if "c' = c" for c' ts
    by (subst subscribeMsg_at) (simp add: token_in_def map_add_def n that)
  show ?case
  proof (cases "subscribeMsg C (Some (\<lambda>_. Inr t)) c")
    case (Inl x)
    have "fst (mint_for E C (c # cs) g) = [(c, t, now)]" using Inl by (simp add: d Let_def case_prod_unfold)
    then show ?thesis using Cons.prems(3) Inl sm[of c "[]"] by (simp del: mint_for.simps)
  next
    case (Inr m0)
    let ?ts = "fst (mint_for E C cs g1)"
    have f: "fst (mint_for E C (c # cs) g) = (c, t, now) # ?ts"
      using Inr by (simp add: d Let_def case_prod_unfold)
    let ?pre = "pre @ [(c, t, now)]"
    have m: "m = m0 \<or> m \<in> set (flushed C (Some (\<lambda>c. Inr (token_in (?pre @ ?ts) c))) cs)"
      using Cons.prems(3) Inr sm[of c ?ts] unfolding f by (simp del: mint_for.simps)
    have "c' \<notin> fst ` set ?pre" if "c' \<in> set cs" for c' using Cons.prems(1,2) that by auto
    from Cons.IH[OF _ this, of g1] Cons.prems(1) m
    have "m = m0 \<or> (\<exists>c t now. (c, t, now) \<in> set ?ts \<and> subscribeMsg C (Some (\<lambda>_. Inr t)) c = Inr m)"
      by (elim disjE) simp_all
    then show ?thesis unfolding f using Inr by auto
  qed
qed simp

lemma provide_flush:
  assumes "provide E C cs e y = (e1, y1)" "minting y" "distinct cs"
  shows "flush_from C (own_frame C y1) e1 cs (sess (io y))"
proof -
  have d: "e1 = e\<lparr>ev_provider := Some (\<lambda>c. Inr (token_in (fst (mint_for E C cs (gw y))) c))\<rparr>"
    "issued y1 = issued y @ map (Pair (generation (sess (io y)))) (fst (mint_for E C cs (gw y)))"
    using assms(1,2) by (auto simp: provide_def Let_def case_prod_unfold)
  show ?thesis using mint_flushed[OF assms(3), of "[]" _ C E "gw y"]
    by (force simp: flush_from_def own_frame_def d)
qed

lemma provide_issued: "provide E C cs e y = (e1, y1) \<Longrightarrow> set (issued y) \<subseteq> set (issued y1)"
  by (auto simp: provide_def Let_def case_prod_unfold split: if_splits)

lemma held_mono:
  assumes "set (issued y) \<subseteq> set (issued z)"
  shows "held C (own_frame C y) s \<Longrightarrow> held C (own_frame C z) s"
    "written C (own_frame C y) ws \<Longrightarrow> written C (own_frame C z) ws"
  using assms by (auto simp: held_def written_def own_frame_def, blast+)

text \<open>A token is good for eight hours from the clock it was minted at.\<close>

lemma mint_expires:
  assumes "mints E expiry" "(c, t, now) \<in> set (fst (mint_for E C cs g))"
  shows "t = [] \<or> expiry t = now + 8 * 3600"
  using assms(2)
proof (induction cs arbitrary: g)
  case (Cons c' cs)
  let ?now = "fst (system_seconds E (world (g_rest g)))"
  have "fst (tokenForSubscribe E g) = [] \<or> expiry (fst (tokenForSubscribe E g)) = ?now + 8 * 3600"
    using mint_expiry[OF assms(1)]
    by (auto simp: tokenForSubscribe_def on_mem_def Let_def case_prod_unfold split: sum.split)
  then show ?case using Cons by (auto simp: Let_def case_prod_unfold split: sum.splits)
qed simp

section \<open>The program\<close>

text \<open>The session has its provider before it is run.\<close>

definition provider_first :: "out list \<Rightarrow> bool" where
  "provider_first os \<longleftrightarrow> Set_token_provider \<in> set (takeWhile (\<lambda>x. \<not> is_run x) os)"

definition own_frames :: "codec \<Rightarrow> 'v program \<Rightarrow> bool" where
  "own_frames C y \<longleftrightarrow> held C (own_frame C y) (sess (io y)) \<and> written C (own_frame C y) (begun (io y)) \<and>
     (minting y \<or> \<not> started (io y) \<and> provider_first (outs y))"

lemma live_sys_boots:
  "live_sys y \<Longrightarrow> \<not> started y \<Longrightarrow> flights y = [] \<and> Start_connect \<notin> set (tasks y) \<and> \<not> connected (sess y)"
  "live_sys y \<Longrightarrow> Start_connect \<in> set (tasks y) \<Longrightarrow> \<not> connected (sess y)"
  by (auto simp: live_sys_def booting_def boot_def count_list_0_iff le_Suc_eq split: if_splits)

lemma live_sys_reconnect:
  assumes "live_sys y" "(ReconnectWait (generation (sess y)), c) \<in> set (flights y)"
  shows "\<not> connected (sess y)"
proof -
  have "in_flight (flights y) (ReconnectWait (generation (sess y))) \<noteq> 0"
    using in_flight_0 assms(2) by blast
  then show ?thesis using assms(1) by (auto simp: live_sys_def live_def Let_def split: if_splits)
qed

lemma read_flush_cases: "read_flush C o' e s = [] \<or> read_flush C o' e s = pendingTopics s"
  by (simp add: read_flush_def split: op.split sum.split)

lemma task_flush_cases: "task_flush t s = [] \<or> task_flush t s = pendingTopics s"
  by (simp add: task_flush_def)

lemma read_flush_event:
  "ev_raw e' = ev_raw e \<Longrightarrow> ev_error e' = ev_error e \<Longrightarrow> read_flush C o' e' s = read_flush C o' e s"
  by (simp add: read_flush_def split: op.split sum.split)

lemma feed_provider [simp]: "ev_provider (feed E C e g) = ev_provider e"
  by (simp add: feed_def case_prod_unfold Let_def split: sum.split)

lemma flush_from_Nil: "flush_from C P e [] s"
  by (simp add: flush_from_def)

lemma own_frame_cong: "issued z = issued y \<Longrightarrow> own_frame C z = own_frame C y"
  by (simp add: own_frame_def fun_eq_iff)

lemma api_call_held: "held C P s \<Longrightarrow> held_result C P (api_call a s)"
  using api_calls_held[of C P s "[a]"] by (simp add: held_result_def Let_def case_prod_unfold)

lemma frames_goes:
  assumes "held_result C P r" "written C P (begun y)"
  shows "held C P (sess (goes y r)) \<and> written C P (begun (goes y r))"
  using assms by (simp add: held_result_def begun_goes)

lemma prog_step_frames:
  assumes "prog_step E C y z" "own_frames C y" "live_sys (io y)" "steady (sess (io y))" "runs_once y"
    "hasSession (g_stream (gw y))"
  shows "own_frames C z"
  using assms
proof (induction rule: prog_step.induct)
  case (pr_complete y fs o' c gs e e1 y1)
  let ?s = "sess (io y)" let ?P = "own_frame C y1"
  note p = provided[OF pr_complete.hyps(3)]
  have m: "minting y" using pr_complete.prems(1,2) pr_complete.hyps(1) live_sys_boots(1)[of "io y"]
    by (auto simp: own_frames_def)
  have own: "held C ?P ?s" "written C ?P (begun (io y))"
    using held_mono[OF provide_issued[OF pr_complete.hyps(3)]] pr_complete.prems(1) by (simp_all add: own_frames_def)
  have "distinct (read_flush C o' e ?s)"
    using read_flush_cases[of C o' e ?s] pr_complete.prems(3) by (auto simp: steady_def topics_ok_def)
  from provide_flush[OF pr_complete.hyps(3) m this]
  have f: "flush_from C ?P (feed E C e1 (gw y1)) (read_flush C o' (feed E C e1 (gw y1)) ?s) ?s"
    using p read_flush_event[of "feed E C e1 (gw y1)" e C o' ?s] by (simp add: flush_from_def)
  have "\<not> connected ?s" if "o' = ReconnectWait (generation ?s)"
    using live_sys_reconnect[OF pr_complete.prems(2), of c] pr_complete.hyps(1) that by simp
  from held_handler[OF own(1) f this] frames_goes[of C ?P _ "(io y)\<lparr>flights := fs @ gs\<rparr>"] own(2)
  have "held C ?P (sess (io (complete_op E C o' e1 (fs @ gs) y1))) \<and>
      written C ?P (begun (io (complete_op E C o' e1 (fs @ gs) y1)))" by (simp add: p)
  then show ?case using m p own_frame_cong[of "complete_op E C o' e1 (fs @ gs) y1" y1 C] by (simp add: own_frames_def)
next
  case (pr_task y t ts e e1 y1)
  let ?s = "sess (io y)" let ?P = "own_frame C y1"
  note p = provided[OF pr_task.hyps(2)]
  have t: "t \<in> set (tasks (io y))" using pr_task.hyps(1) by simp
  have own: "held C ?P ?s" "written C ?P (begun (io y))"
    using held_mono[OF provide_issued[OF pr_task.hyps(2)]] pr_task.prems(1) by (simp_all add: own_frames_def)
  have f: "flush_from C ?P e1 (task_flush t ?s) ?s"
  proof (cases "minting y")
    case True
    have "distinct (task_flush t ?s)"
      using task_flush_cases[of t ?s] pr_task.prems(3) by (auto simp: steady_def topics_ok_def)
    with provide_flush[OF pr_task.hyps(2) True] show ?thesis .
  next
    case False
    then have "task_flush t ?s = []"
      using pr_task.prems(1,2) live_sys_boots(1)[of "io y"] by (simp add: own_frames_def task_flush_def)
    then show ?thesis by (simp add: flush_from_Nil)
  qed
  have "\<not> connected ?s" if "t = Start_connect" using live_sys_boots(2)[OF pr_task.prems(2)] t that by simp
  from held_run_task[OF own(1) f this] frames_goes[of C ?P _ "(io y)\<lparr>tasks := ts\<rparr>"] own(2)
  have h: "held C ?P (fst (run_task C t e1 ?s)) \<and>
      written C ?P (begun (goes ((io y)\<lparr>tasks := ts\<rparr>) (run_task C t e1 ?s)))" by simp
  let ?z = "y1\<lparr>io := goes ((io y)\<lparr>tasks := ts\<rparr>) (run_task C t e1 ?s)\<rparr>"
  have "own_frame C ?z = ?P" by (rule own_frame_cong) simp
  then show ?case using h p pr_task.prems(1) by (simp add: own_frames_def)
next
  case (pr_route y x xs)
  then have x: "held C (own_frame C y) (sess (io y))" "written C (own_frame C y) (begun (io y))"
    "minting y \<or> \<not> started (io y) \<and> provider_first (x # xs)" by (simp_all add: own_frames_def)
  have i: "own_frame C (route x (y\<lparr>outs := xs\<rparr>)) = own_frame C y" by (rule own_frame_cong) (cases x; simp)
  show ?case
  proof (cases x)
    case (Session_call a)
    have "held C (own_frame C y) (fst (api_call a (sess (io y)))) \<and>
        written C (own_frame C y) (begun (goes (io y) (api_call a (sess (io y)))))"
      using frames_goes[OF api_call_held[OF x(1)] x(2)] by simp
    then show ?thesis using Session_call x(3) i by (simp add: own_frames_def provider_first_def)
  qed (use x i in \<open>simp_all add: own_frames_def provider_first_def\<close>)
next
  case (pr_section y g)
  then show ?case using own_frame_cong[of "y\<lparr>gw := g\<rparr>" y C] by (simp add: own_frames_def)
next
  case (pr_subscribe y symb r g gs)
  then have "minting y" by (auto simp: own_frames_def provider_first_def)
  then show ?case using pr_subscribe own_frame_cong[of "y\<lparr>gw := g, outs := stream_outs gs\<rparr>" y C]
    by (simp add: own_frames_def)
next
  case (pr_unsubscribe y symb g gs)
  then have "minting y" by (auto simp: own_frames_def provider_first_def)
  then show ?case using pr_unsubscribe own_frame_cong[of "y\<lparr>gw := g, outs := stream_outs gs\<rparr>" y C]
    by (simp add: own_frames_def)
qed

lemma start_provider:
  assumes "start_setup E g0 = (Inr (), g, gs)" "\<not> hasSession (g_stream g0)"
  shows "provider_first (stream_outs gs)"
  using assms(2)
  by (rule_tac start_setup_Inr[OF assms(1)], auto simp: subscribeAccountOrders_def ensureSession_def start_stream_def
      setAccountCallback_def setOrderBookCallback_def provider_first_def)

lemma prog_reach_frames: "prog_reach E C g0 y \<Longrightarrow> dumps_ping C \<Longrightarrow> own_frames C y"
proof (induction rule: prog_reach.induct)
  case (pr_start g gs)
  then show ?case using start_provider[OF pr_start.hyps]
    by (simp add: own_frames_def program_of_def sys_init_def ws_init_def held_def)
next
  case (pr_step y z)
  then show ?case
    using prog_step_frames prog_reach_runs_once live_sys_reachable steady_reachable prog_reach_session by metis
qed

definition in_time :: "(string \<Rightarrow> int) \<Rightarrow> string \<Rightarrow> int \<Rightarrow> bool" where
  "in_time expiry t now \<longleftrightarrow> t = [] \<or> expiry t = now + 8 * 3600"

definition issued_in_time :: "(string \<Rightarrow> int) \<Rightarrow> 'v program \<Rightarrow> bool" where
  "issued_in_time expiry y \<longleftrightarrow> (\<forall>g c t now. (g, c, t, now) \<in> set (issued y) \<longrightarrow> in_time expiry t now)"

lemma provide_in_time:
  assumes "mints E expiry" "provide E C cs e y = (e1, y1)" "issued_in_time expiry y"
  shows "issued_in_time expiry y1"
proof -
  have "in_time expiry t now" if "(c, t, now) \<in> set (fst (mint_for E C cs (gw y)))" for c t now
    using mint_expires[OF assms(1) that] by (simp add: in_time_def)
  then show ?thesis using assms(2,3)
    by (auto simp: issued_in_time_def provide_def Let_def case_prod_unfold split: if_splits)
qed

lemma issued_expires:
  assumes "mints E expiry" "prog_reach E C g0 y"
  shows "issued_in_time expiry y"
  using assms(2)
proof (induction rule: prog_reach.induct)
  case (pr_start g gs)
  show ?case by (simp add: issued_in_time_def program_of_def)
next
  case (pr_step y z)
  have i: "issued (route x y) = issued y" for x and y :: "'a program" by (cases x) simp_all
  from pr_step.hyps(2) pr_step.IH show ?case
  proof (induction rule: prog_step.induct)
    case (pr_complete y fs o' c gs e e1 y1)
    from provide_in_time[OF assms(1) pr_complete.hyps(3) pr_complete.prems] show ?case by (simp add: issued_in_time_def)
  next
    case (pr_task y t ts e e1 y1)
    from provide_in_time[OF assms(1) pr_task.hyps(2) pr_task.prems] show ?case by (simp add: issued_in_time_def)
  qed (simp_all add: i issued_in_time_def)
qed


text \<open>In the examples the frame of the first connection was built with the token minted for the order channel.\<close>

lemma live_begun: "begun live_io = [(1, ''subscribe account_all_orders/1'')]"
  by code_simp

lemma lossy_mints: "mints lossy_genv (\<lambda>t. the (strtol t))"
  by (simp add: mints_def lossy_genv_def text_native_def)


end
