(* ===== verification/Spec2Isabelle.thy ===== *)
theory Spec2Isabelle
  imports Models Http_Exchange Io_Thread Ws_Replay Ws_Books Rest_Requests Signer Gateway_Life Gateway_Lock Whole_Types
    Whole_Start Whole_Frames
begin

text \<open>
  A verification library for lighter-cpp-api, a C++ client of the Lighter perpetuals exchange.

  \<^bold>\<open>The program.\<close>  Four layers.  A transport layer: \<open>HTTPSession\<close> (blocking HTTPS requests) and
  \<open>WebSocketSession\<close> (one asynchronous WebSocket with reconnect, heartbeat and a write queue).  A data layer:
  the wire models with their JSON parsers.  A client layer: \<open>RESTClient\<close> (pacing, envelopes, paginated
  histories, nonces, transactions), \<open>WSStreamManager\<close> (local order books over one session) and
  \<open>LighterSigner\<close> (a C ABI to a vendored native library).  On top, \<open>LighterExecutionGateway\<close> turns orders
  into signed transactions and account messages into fills and status updates.

  \<^bold>\<open>Theories and what they model.\<close>
  \<^item> \<open>Prelude\<close>, \<open>Doubles\<close>, \<open>Std_Strings\<close>, \<open>Json_Model\<close>: exceptions as sums, operations on a
    state that may throw (\<open>seq\<close>), the string and integer functions of the standard library the sources call,
    IEEE doubles (rounding to nearest even of exact rationals, \<open>llround\<close>), \<open>std::stod\<close> / \<open>std::stoll\<close>, and
    JSON values with the readers of stonky-cpp-common as the parameter \<open>json_utils\<close>.
  \<^item> \<open>Models\<close>: \<open>src/lighter_models.cpp\<close>, \<open>src/lighter.cpp\<close>, \<open>lighter_enums.h\<close>.
  \<^item> \<open>Ws_Session\<close>: \<open>src/lighter_ws_session.cpp\<close>.  The record \<open>ws\<close> is \<open>WebSocketSession::P\<close>; each
    member function and completion handler is a definition returning the new state and the asynchronous
    operations it starts.  \<open>Ws_System\<close> puts the operations in flight around it: \<open>ws_step\<close> completes
    one of them with any outcome, and \<open>ws_reachable\<close> is what any interleaving reaches.
  \<^item> \<open>Ws_Safety\<close>, \<open>Ws_Live\<close>, \<open>Ws_Topics\<close>, \<open>Ws_Replay\<close>: the invariants of that system.
    \<open>Ws_Close\<close>: what is left to do after \<open>close()\<close>, as a number that every handler and task lowers (\<open>work\<close>).
  \<^item> \<open>Ws_Stream\<close>, \<open>Ws_Books\<close>: \<open>src/lighter_ws_stream_manager.cpp\<close>; \<open>manager\<close> is \<open>WSStreamManager::P\<close>,
    a book side is a sorted association list with a refinement to the map the messages describe.
    \<open>Io_Thread\<close>: the loop of the io thread around \<open>ioc.run()\<close> with its catch clause (\<open>io_step\<close>), and \<open>stop()\<close>.
  \<^item> \<open>Tls_Verify\<close>, \<open>Http_Session\<close>: \<open>tls_verify.h\<close> and \<open>src/lighter_http_session.cpp\<close>.  \<open>https_exchange\<close> is
    \<open>P::request\<close> call by call; the record \<open>tls_lib\<close> holds what Boost, OpenSSL and the socket do inside each call,
    \<open>tls_stream\<close> what the calls have set so far, and \<open>call_log\<close> each call with the stream it was made on.
    \<open>Http_Exchange\<close>: the order of the calls (\<open>follows\<close>) and what holds at each (\<open>guards\<close>).
  \<^item> \<open>Rest_Client\<close>: \<open>src/lighter_rest_client.cpp\<close>.
    \<open>env\<close> is what comes from outside (network, clock, JSON library), \<open>rest\<close> the state of
    \<open>RESTClient::P\<close> and the world.  \<open>Paging\<close> is the contract of the two download loops (locales \<open>keeper\<close>,
    \<open>paged_loop\<close>, \<open>paging\<close>), \<open>Histories\<close> its interpretations on candles and funding,
    \<open>Rest_Requests\<close> the facts about single requests.
  \<^item> \<open>Signer\<close>: \<open>src/lighter_signer.cpp\<close> with an explicit heap of the library's buffers.
  \<^item> \<open>Gateway_Classify\<close>, \<open>Gateway\<close>, \<open>Gateway_Orders\<close>: \<open>src/lighter_execution_gateway.cpp\<close>.  The record
    \<open>gateway\<close> is \<open>LighterExecutionGateway::P\<close> with the models of its REST client, signer and stream manager
    inside; each critical section is a definition of its own.
  \<^item> \<open>Gateway_Amounts\<close>: the integers an order carries.  \<open>Gateway_Tx\<close>: the outcomes of submits and
    cancels.  \<open>Gateway_Verdict\<close>: how an answer of the venue is read.  \<open>Gateway_Runs\<close>: runs of whole
    operations (\<open>run_ops\<close>) and interleavings of their critical sections (\<open>gw_run\<close>), and the locale
    \<open>gateway_invariant\<close> that lifts what every section keeps to both; it is interpreted for the nonce and the token (\<open>Gateway_Nonce\<close>) and for the order maps, the identity
    of orders, finished orders and past fills (\<open>Gateway_Events\<close>), and for the instrument tables
    (\<open>Gateway_Tables\<close>).  \<open>Gateway_Life\<close>: the abstract life of an order and the refinement of it.
    \<open>Gateway_Start\<close>: \<open>start()\<close>.  \<open>Gateway_Lock\<close>: the section under \<open>txM\<close> (sign, check the token, POST, count or resync) as a
    step relation (\<open>tx_step\<close>) with the sections of all other threads between its steps.
  \<^item> \<open>Whole_System\<close>, \<open>Whole_Events\<close>, \<open>Whole_Types\<close>, \<open>Whole_Start\<close>, \<open>Whole_Frames\<close>: gateway, stream manager and session as one
    program.
    \<open>program\<close> holds the state of each, \<open>prog_step\<close> runs a completion or task of the session, a section of an
    application thread, or one call an application thread makes on the session; \<open>data_event\<close> is the data
    callback, \<open>WSStreamManager::P::onMessage\<close> with the two lambdas of \<open>start()\<close> behind it, and \<open>provide\<close> the token
    provider, the third lambda, for the channels a handler or task flushes.

  \<^bold>\<open>How the components interact.\<close>  The gateway's world is the signer's heap and the rest (\<open>mem\<close>), and it is
  threaded through the REST client, so one run of a gateway operation threads clock, library and network calls in
  the order the code makes them.  The stream manager's calls on its session are its outputs; \<open>prog_step\<close> routes them to
  the session one at a time.  A message the session delivers runs \<open>data_event\<close>: account messages reach the gateway as
  \<open>onAccountMessage\<close>, order books as \<open>onBook\<close>, and the calls a crossed book makes on the session, and an exception
  that leaves a callback, go back into the handler that delivered the message.  Before a handler or task that flushes
  channels the tokens it will ask for are minted on the gateway (\<open>mint_for\<close>); \<open>issued\<close> keeps them with the connection they
  were minted for.  \<open>start()\<close>'s wait reads the flag of the running program.

  \<^bold>\<open>What the theorems show.\<close>  The program as a whole: each component's part of a run is a run of that component, so
  what is proved of a component alone holds in the composition; every fill told comes from a delivered message and
  comes once; the session keeps the feeds the gateway lives on; no crossed quote is cached or told; every
  subscribe frame carries a token minted for it on its own connection; \<open>start()\<close> returns on the venue's answer and on nothing
  else; the data invariants of all maps and lists hold; every transaction is posted with the nonce the venue expects.  An
  HTTPS request is only written to a peer that proved it owns the host, after the timeouts are set.  The session never falls silent and never overlaps reads or writes, its channels are what
  was asked for and are replayed after every reconnect, with capped back-off.  After \<open>close()\<close> it
  winds down in a bounded number of handlers, and after \<open>stop()\<close> the io thread ends.  A local book reports exactly the best
  prices of the map its messages describe, never crossed ones.  Downloads end, are ascending, duplicate free, in range and
  complete.  Requests are paced.  The signer's buffers are freed exactly once.  The gateway: no fill is reported
  twice and each belongs to its order, the nonce counter follows the venue's, tokens outlive requests, amounts
  are exact and never wrap, market bounds are on the right side of the quote, and every outcome of a submit or
  cancel leaves the bookkeeping it means.

  \<^bold>\<open>Bounds and fuel.\<close>  No model uses fuel.  The download loops are \<open>partial_function (option)\<close> and proved to
  return.  64-bit sums are integers; where the source would overflow, C++ defines nothing.  Prices in the signer's
  field are 32-bit words.  \<open>llround\<close> outside \<open>int64\<close> is an arbitrary function of the environment.

  \<^bold>\<open>Assumptions.\<close>  Each is a named predicate that occurs in the theorems that use it: \<open>clock_ok\<close> (the
  steady clock does not go back, a sleep lasts), the venue's history service (\<open>udf_candles\<close>, \<open>udf_fundings\<close>),
  \<open>native_ok\<close> (the library's buffers are fresh), \<open>authentic_lib\<close> (a handshake that verifies the peer against a host only
  succeeds with an owner of that host), \<open>op_no_nan\<close> (no price of a message is NaN), \<open>venue_nonce\<close> (who changes the venue's nonce), \<open>mints\<close> (a token
  expires at the deadline it was minted with), \<open>dumps_ping\<close> (the JSON library serialises the keepalive
  frame), that the reads of a closed stream fail (\<open>close_step\<close>), and \<open>string_amounts\<close> (cumulative fills come as strings).

  \<^bold>\<open>Not modelled.\<close>  What Boost and OpenSSL do inside a call (\<open>tls_lib\<close>, and for the WebSocket the outcomes of its
  operations), the native library, the readers and interfaces of the submodules stonky-cpp-common and the execution
  interface (their enumerations and event structs appear with the fields the source uses), logging, the manual
  test programs and the build.  The \<open>toJson\<close> members, which only throw.  In \<open>prog_step\<close> a data message is handled in one
  step, as no other handler runs on the io thread meanwhile; the finer interleaving of its sections with those of the
  application's threads is \<open>gw_run\<close>, to which the program is reduced.  \<open>loadInstruments\<close> is one section: its reads do
  not change what the theorems observe.  A run of \<open>prog_step\<close> ends before the destructor, whose calls are
  \<open>destroy_gateway\<close>, whose effect on the session is \<open>closeByUser\<close> and whose \<open>stop()\<close> and \<open>join()\<close> are \<open>Io_Thread\<close>.  The completion
  handler of \<open>async_close\<close> only logs and is left out of the operations in flight.
\<close>

end
